(* ===== verification/Srs_Prelude.thy ===== *)
theory Srs_Prelude
  imports Main "HOL-Library.Word"
begin

text \<open>
  Shared vocabulary of the development: the machine types of the C++ code as words, byte
  strings as lists of 8-bit words, the sequencing of fallible steps, the growth rule of
  \<^verbatim>\<open>std::vector::resize\<close>, and the little-endian byte layout of a word with its bit-level
  characterisation. The collection \<open>bit_simps\<close> holds the rules that turn an equation between
  words into an equation between bits.
\<close>

unbundle bit_operations_syntax

named_theorems bit_simps "bit-level characterisations of the word operations of the model"
named_theorems wire_simps "facts on the byte strings the components exchange"

type_synonym u8 = "8 word"
type_synonym u16 = "16 word"
type_synonym u32 = "32 word"
type_synonym u64 = "64 word"
type_synonym byte = "8 word"
type_synonym bytes = "8 word list"

declare bit_push_bit_iff [bit_simps]
declare bit_drop_bit_eq [bit_simps]
declare bit_or_iff [bit_simps]
declare bit_and_iff [bit_simps]
declare bit_xor_iff [bit_simps]
declare bit_ucast_iff [bit_simps]

lemma bit_beyond_length [bit_simps]:
  fixes w :: "'a::len word"
  shows "LENGTH('a) \<le> k \<Longrightarrow> bit w k \<longleftrightarrow> False"
  by (auto dest: bit_imp_le_length)

lemma unat_push_bit_1:
  assumes "n < LENGTH('a::len)"
  shows "unat (push_bit n (1 :: 'a word)) = 2 ^ n"
proof -
  have "unat (push_bit n (1 :: 'a word)) = take_bit LENGTH('a) (push_bit n (unat (1 :: 'a word)))"
    by (rule unsigned_push_bit_eq)
  then show ?thesis using assms by (simp add: take_bit_nat_eq_self_iff push_bit_eq_mult)
qed

lemma unat_2p: "n < LENGTH('a::len) \<Longrightarrow> unat (2 ^ n :: 'a word) = 2 ^ n"
  using unat_push_bit_1 [of n, where 'a = 'a] by (simp add: push_bit_of_1)

lemma unat_ucast_up:
  fixes v :: "'a::len word"
  assumes "LENGTH('a) \<le> LENGTH('b::len)"
  shows "unat (ucast v :: 'b word) = unat v"
  using assms by (simp add: unsigned_ucast_eq take_bit_nat_eq_self_iff less_le_trans [OF unsigned_less])

lemma unat_drop_bit_div: "unat (drop_bit n w) = unat w div 2 ^ n"
  by (simp only: unat_drop_bit_eq) (simp add: drop_bit_eq_div)

lemma unat_less_iff_drop_bit: "unat w < 2 ^ n \<longleftrightarrow> drop_bit n w = 0"
proof -
  have "drop_bit n w = 0 \<longleftrightarrow> unat (drop_bit n w) = 0"
    by (simp add: unat_eq_zero)
  then show ?thesis by (simp only: unat_drop_bit_div div_eq_0_iff) simp
qed

lemma unat_less_iff_bits:
  fixes w :: "'a::len word"
  shows "unat w < 2 ^ n \<longleftrightarrow> (\<forall>k \<ge> n. \<not> bit w k)"
proof -
  have "drop_bit n w = 0 \<longleftrightarrow> (\<forall>k. \<not> bit w (n + k))"
    by (auto simp: bit_eq_iff bit_drop_bit_eq) (metis add.commute add_lessD1 bit_imp_le_length)
  also have "\<dots> \<longleftrightarrow> (\<forall>k \<ge> n. \<not> bit w k)"
    by (auto simp: le_iff_add)
  finally show ?thesis by (simp only: unat_less_iff_drop_bit)
qed

lemma word_less_2p_bits:
  fixes w :: "'a::len word"
  assumes "n < LENGTH('a)"
  shows "w < 2 ^ n \<longleftrightarrow> (\<forall>k \<ge> n. \<not> bit w k)"
  using assms by (simp add: word_less_nat_alt unat_2p unat_less_iff_bits)

text \<open>Narrowing and widening.\<close>

lemma ucast_down_up:
  fixes w :: "'a::len word"
  shows "LENGTH('a) \<le> LENGTH('b::len) \<Longrightarrow> ucast (ucast w :: 'b word) = w"
  by (rule bit_word_eqI) (simp add: bit_simps)

lemma ucast_up_down:
  fixes w :: "'a::len word"
  assumes "w < 2 ^ LENGTH('b::len)" "LENGTH('b) < LENGTH('a)"
  shows "ucast (ucast w :: 'b word) = w"
  using assms by (intro bit_word_eqI) (auto simp: bit_simps word_less_2p_bits intro: leI)

lemma ucast_less_2p:
  fixes w :: "'b::len word"
  assumes "LENGTH('b) < LENGTH('a::len)"
  shows "(ucast w :: 'a word) < 2 ^ LENGTH('b)"
  using assms by (auto simp: word_less_2p_bits bit_simps)

section \<open>Fallible steps\<close>

text \<open>\<^verbatim>\<open>std::expected::and_then\<close>: the next step runs only when the previous one
  succeeded, and an error is handed on.\<close>

fun and_then :: "'e + 'a \<Rightarrow> ('a \<Rightarrow> 'e + 'b) \<Rightarrow> 'e + 'b" where
  "and_then (Inl e) f = Inl e"
| "and_then (Inr x) f = f x"

lemma and_then_Inr_iff [simp]: "and_then r f = Inr y \<longleftrightarrow> (\<exists>x. r = Inr x \<and> f x = Inr y)"
  by (cases r) auto

lemma and_then_Inl_iff: "and_then r f = Inl e \<longleftrightarrow> r = Inl e \<or> (\<exists>x. r = Inr x \<and> f x = Inl e)"
  by (cases r) auto

section \<open>Vectors\<close>

text \<open>\<^verbatim>\<open>v.resize(n, d)\<close> keeps the first \<open>n\<close> elements and fills up with \<open>d\<close>.\<close>

definition vec_resize :: "'a list \<Rightarrow> nat \<Rightarrow> 'a \<Rightarrow> 'a list" where
  "vec_resize xs n d = take n xs @ replicate (n - length xs) d"

lemma length_vec_resize [simp]: "length (vec_resize xs n d) = n"
  by (simp add: vec_resize_def)

lemma vec_resize_0 [simp]: "vec_resize xs 0 d = []"
  by (simp add: vec_resize_def)

lemma vec_resize_same [simp]: "vec_resize xs (length xs) d = xs"
  by (simp add: vec_resize_def)

lemma vec_resize_Nil [simp]: "vec_resize [] n d = replicate n d"
  by (simp add: vec_resize_def)

lemma take_vec_resize: "k \<le> n \<Longrightarrow> k \<le> length xs \<Longrightarrow> take k (vec_resize xs n d) = take k xs"
  by (simp add: vec_resize_def)

text \<open>A sum over the slots of a vector when one slot changes.\<close>

lemma sum_list_map_update:
  fixes f :: "'a \<Rightarrow> 'b :: comm_monoid_add"
  shows "k < length xs \<Longrightarrow> sum_list (map f (xs[k := y])) + f (xs ! k) = sum_list (map f xs) + f y"
  by (induction xs arbitrary: k) (auto split: nat.split simp: ac_simps)

section \<open>Searching a list\<close>

lemma takeWhile_upto: "c \<notin> set u \<Longrightarrow> takeWhile (\<lambda>x. x \<noteq> c) (u @ c # v) = u"
  by (induction u) auto

lemma dropWhile_upto: "c \<notin> set u \<Longrightarrow> dropWhile (\<lambda>x. x \<noteq> c) (u @ c # v) = c # v"
  by (induction u) auto

section \<open>Little-endian bytes of a word\<close>

definition le_bytes :: "nat \<Rightarrow> 'a::len word \<Rightarrow> bytes" where
  "le_bytes n w = map (\<lambda>i. ucast (drop_bit (8 * i) w)) [0..<n]"

fun of_le_bytes :: "bytes \<Rightarrow> 'a::len word" where
  "of_le_bytes [] = 0"
| "of_le_bytes (b # bs) = ucast b OR push_bit 8 (of_le_bytes bs)"

lemma length_le_bytes [simp, wire_simps]: "length (le_bytes n w) = n"
  by (simp add: le_bytes_def)

lemma nth_le_bytes: "i < n \<Longrightarrow> le_bytes n w ! i = ucast (drop_bit (8 * i) w)"
  by (simp add: le_bytes_def)

lemma bit_nth_le_bytes [bit_simps]:
  fixes w :: "'a::len word"
  shows "i < n \<Longrightarrow> bit (le_bytes n w ! i) k \<longleftrightarrow> k < 8 \<and> bit w (8 * i + k)"
  by (auto simp: nth_le_bytes bit_ucast_iff bit_drop_bit_eq dest: bit_imp_le_length)

lemma bit_of_le_bytes [bit_simps]:
  "bit (of_le_bytes bs :: 'a::len word) k \<longleftrightarrow>
     k < LENGTH('a) \<and> k div 8 < length bs \<and> bit (bs ! (k div 8)) (k mod 8)"
proof (induction bs arbitrary: k)
  case Nil
  then show ?case by simp
next
  case (Cons b bs)
  show ?case
  proof (cases "k < 8")
    case True
    then show ?thesis by (auto simp: bit_simps)
  next
    case False
    then have "k div 8 = Suc ((k - 8) div 8)" and "k mod 8 = (k - 8) mod 8"
      by (simp_all add: le_div_geq le_mod_geq)
    moreover have "\<not> bit b k" using False by (auto dest: bit_imp_le_length)
    ultimately show ?thesis using False Cons.IH [of "k - 8"]
      by (auto simp: bit_simps)
  qed
qed

lemma of_le_bytes_le_bytes:
  fixes w :: "'a::len word"
  assumes "LENGTH('a) \<le> 8 * n"
  shows "of_le_bytes (le_bytes n w) = w"
proof (rule bit_word_eqI)
  fix k assume k: "k < LENGTH('a)"
  with assms have "k div 8 < n" by linarith
  then show "bit (of_le_bytes (le_bytes n w) :: 'a word) k = bit w k"
    using k by (simp add: bit_simps)
qed

lemma le_bytes_of_le_bytes:
  assumes "8 * length bs \<le> LENGTH('a::len)"
  shows "le_bytes (length bs) (of_le_bytes bs :: 'a word) = bs"
proof (rule nth_equalityI)
  fix i assume "i < length (le_bytes (length bs) (of_le_bytes bs :: 'a word))"
  then have i: "i < length bs" by simp
  show "le_bytes (length bs) (of_le_bytes bs :: 'a word) ! i = bs ! i"
  proof (rule bit_word_eqI)
    fix k assume "k < LENGTH(8)"
    then have k: "k < 8" by simp
    have "8 * i + k < LENGTH('a)" using i k assms by linarith
    then show "bit (le_bytes (length bs) (of_le_bytes bs :: 'a word) ! i) k = bit (bs ! i) k"
      using i k by (simp add: bit_simps)
  qed
qed simp

text \<open>Big-endian (network order) bytes.\<close>

definition be_bytes :: "nat \<Rightarrow> 'a::len word \<Rightarrow> bytes" where
  "be_bytes n w = rev (le_bytes n w)"

definition of_be_bytes :: "bytes \<Rightarrow> 'a::len word" where
  "of_be_bytes bs = of_le_bytes (rev bs)"

lemma length_be_bytes [simp, wire_simps]: "length (be_bytes n w) = n"
  by (simp add: be_bytes_def)

lemma of_be_bytes_be_bytes:
  fixes w :: "'a::len word"
  shows "LENGTH('a) \<le> 8 * n \<Longrightarrow> of_be_bytes (be_bytes n w) = w"
  by (simp add: of_be_bytes_def be_bytes_def of_le_bytes_le_bytes)

lemma be_bytes_of_be_bytes:
  "8 * length bs \<le> LENGTH('a::len) \<Longrightarrow> be_bytes (length bs) (of_be_bytes bs :: 'a word) = bs"
  using le_bytes_of_le_bytes [of "rev bs", where 'a = 'a]
  by (simp add: of_be_bytes_def be_bytes_def)

end
