(* ===== verification/Zpp_Archive.thy ===== *)
theory Zpp_Archive
  imports Srs_Prelude
begin

text \<open>
  The serialisation library \<^verbatim>\<open>zpp::bits\<close> is not part of the repository. Its archives are
  a parameter of every definition that uses them: a record of the primitive encoders and
  decoders the program calls, and of what an output archive does to the vector it writes
  into. \<open>zpp_documented\<close> states the documented behaviour the program relies on; theorems
  about serialised bytes have it as their hypothesis, and \<open>zpp_ref\<close> is one concrete
  archive that has it.

  \<^item> \<open>zpp_u8\<close>, \<open>zpp_u16\<close>, \<open>zpp_u32\<close>: an integer under \<^verbatim>\<open>endian::network\<close>
    (which is \<^verbatim>\<open>endian::big\<close>), and \<open>zpp_get_u8\<close>, \<open>zpp_get_u32\<close> for reading;
    a read past the end fails (\<open>None\<close>).
  \<^item> \<open>zpp_bitset64\<close>, \<open>zpp_get_bitset48\<close>: a \<^verbatim>\<open>std::bitset\<close>, whose bytes come
    least significant first whatever the archive's byte order is (the program compensates
    for it, see the comment in \<^verbatim>\<open>StructDeserializer::byte_reverse_data_sq\<close>).
  \<^item> \<open>zpp_store b p w\<close>: the vector \<open>b\<close> after an output archive at position \<open>p\<close>
    has written the bytes \<open>w\<close>.
\<close>

record zpp_bits =
  zpp_u8 :: "u8 \<Rightarrow> bytes"
  zpp_u16 :: "u16 \<Rightarrow> bytes"
  zpp_u32 :: "u32 \<Rightarrow> bytes"
  zpp_get_u8 :: "bytes \<Rightarrow> (u8 \<times> bytes) option"
  zpp_get_u32 :: "bytes \<Rightarrow> (u32 \<times> bytes) option"
  zpp_bitset64 :: "u64 \<Rightarrow> bytes"
  zpp_get_bitset48 :: "bytes \<Rightarrow> (48 word \<times> bytes) option"
  zpp_store :: "bytes \<Rightarrow> nat \<Rightarrow> bytes \<Rightarrow> bytes"

definition get_bytes :: "nat \<Rightarrow> (bytes \<Rightarrow> 'a) \<Rightarrow> bytes \<Rightarrow> ('a \<times> bytes) option" where
  "get_bytes n f bs = (if n \<le> length bs then Some (f (take n bs), drop n bs) else None)"

text \<open>Writing at a position keeps what lies before it; writing up to or past the end of the
  vector leaves exactly the bytes written so far. What follows bytes written inside the
  vector is not specified beyond the written part.\<close>

definition zpp_documented :: "zpp_bits \<Rightarrow> bool" where
  "zpp_documented z \<longleftrightarrow>
     (\<forall>b. zpp_u8 z b = [b]) \<and> (\<forall>v. zpp_u16 z v = be_bytes 2 v) \<and>
     (\<forall>v. zpp_u32 z v = be_bytes 4 v) \<and>
     zpp_get_u8 z = get_bytes 1 hd \<and> zpp_get_u32 z = get_bytes 4 of_be_bytes \<and>
     (\<forall>w. zpp_bitset64 z w = le_bytes 8 w) \<and>
     zpp_get_bitset48 z = get_bytes 6 of_le_bytes \<and>
     (\<forall>b p w. p \<le> length b \<longrightarrow> take (p + length w) (zpp_store z b p w) = take p b @ w) \<and>
     (\<forall>b p w. p \<le> length b \<longrightarrow> length b \<le> p + length w \<longrightarrow>
        zpp_store z b p w = take p b @ w)"

definition zpp_ref :: zpp_bits where
  "zpp_ref = \<lparr>zpp_u8 = (\<lambda>b. [b]), zpp_u16 = be_bytes 2, zpp_u32 = be_bytes 4,
     zpp_get_u8 = get_bytes 1 hd, zpp_get_u32 = get_bytes 4 of_be_bytes,
     zpp_bitset64 = le_bytes 8, zpp_get_bitset48 = get_bytes 6 of_le_bytes,
     zpp_store = (\<lambda>b p w. take p b @ w @ drop (p + length w) b)\<rparr>"

lemma zpp_ref_documented [simp]: "zpp_documented zpp_ref"
  by (simp add: zpp_documented_def zpp_ref_def)

section \<open>Consequences of the documented behaviour\<close>

lemma zpp_encoders [wire_simps]:
  assumes "zpp_documented z"
  shows "zpp_u8 z b = [b]" "zpp_u16 z v = be_bytes 2 v" "zpp_u32 z x = be_bytes 4 x"
    "zpp_bitset64 z w = le_bytes 8 w"
  using assms by (simp_all add: zpp_documented_def)

lemma zpp_decoders [wire_simps]:
  assumes "zpp_documented z"
  shows "zpp_get_u8 z = get_bytes 1 hd" "zpp_get_u32 z = get_bytes 4 of_be_bytes"
    "zpp_get_bitset48 z = get_bytes 6 of_le_bytes"
  using assms by (simp_all add: zpp_documented_def)

lemma zpp_store_end [wire_simps]:
  assumes "zpp_documented z" "p \<le> length b" "length b \<le> p + length w"
  shows "zpp_store z b p w = take p b @ w"
  using assms by (simp add: zpp_documented_def)

lemma zpp_store_append [wire_simps]:
  "zpp_documented z \<Longrightarrow> zpp_store z b (length b) w = b @ w"
  by (simp add: zpp_store_end)

lemma zpp_store_whole [wire_simps]:
  "zpp_documented z \<Longrightarrow> length w = length b \<Longrightarrow> zpp_store z b 0 w = w"
  by (simp add: zpp_store_end)

lemma get_bytes_append [wire_simps]:
  "length bs = n \<Longrightarrow> get_bytes n f (bs @ r) = Some (f bs, r)"
  by (simp add: get_bytes_def)

lemma get_bytes_short: "length bs < n \<Longrightarrow> get_bytes n f bs = None"
  by (simp add: get_bytes_def)

section \<open>Output archives\<close>

text \<open>An archive: the vector it writes to and its position. A call of the archive writes its
  items one after the other and advances the position.\<close>

record archive =
  arc_data :: bytes
  arc_pos :: nat

definition arc_open :: "bytes \<Rightarrow> archive" where
  "arc_open b = \<lparr>arc_data = b, arc_pos = 0\<rparr>"

definition arc_write :: "zpp_bits \<Rightarrow> bytes \<Rightarrow> archive \<Rightarrow> archive" where
  "arc_write z w a = \<lparr>arc_data = zpp_store z (arc_data a) (arc_pos a) w,
     arc_pos = arc_pos a + length w\<rparr>"

text \<open>A vector of characters and a vector of such vectors under \<^verbatim>\<open>no_size\<close>.\<close>

definition zpp_chars :: "zpp_bits \<Rightarrow> bytes \<Rightarrow> bytes" where
  "zpp_chars z bs = concat (map (zpp_u8 z) bs)"

definition zpp_char_vectors :: "zpp_bits \<Rightarrow> bytes list \<Rightarrow> bytes" where
  "zpp_char_vectors z bss = concat (map (zpp_chars z) bss)"

lemma zpp_chars_eq [wire_simps]: "zpp_documented z \<Longrightarrow> zpp_chars z bs = bs"
  by (induction bs) (simp_all add: zpp_chars_def zpp_encoders)

lemma zpp_char_vectors_eq [wire_simps]:
  "zpp_documented z \<Longrightarrow> zpp_char_vectors z bss = concat bss"
  by (simp add: zpp_char_vectors_def zpp_chars_eq cong: map_cong)

text \<open>An archive whose position is the end of its vector appends.\<close>

definition arc_at_end :: "archive \<Rightarrow> bool" where
  "arc_at_end a \<longleftrightarrow> arc_pos a = length (arc_data a)"

definition arc_of :: "bytes \<Rightarrow> archive" where
  "arc_of b = \<lparr>arc_data = b, arc_pos = length b\<rparr>"

lemma arc_open_Nil [simp]: "arc_open [] = arc_of []"
  by (simp add: arc_open_def arc_of_def)

lemma arc_data_of [simp]: "arc_data (arc_of b) = b"
  by (simp add: arc_of_def)

lemma arc_write_of [wire_simps]: "zpp_documented z \<Longrightarrow> arc_write z w (arc_of b) = arc_of (b @ w)"
  by (simp add: arc_write_def arc_of_def zpp_store_append)

text \<open>A run of writes. Whatever the vector held before, it starts with exactly the bytes
  written; a vector that was empty holds nothing else.\<close>

definition arc_writes :: "zpp_bits \<Rightarrow> bytes list \<Rightarrow> archive \<Rightarrow> archive" where
  "arc_writes z ws a = fold (arc_write z) ws a"

definition arc_written :: "archive \<Rightarrow> bytes \<Rightarrow> bool" where
  "arc_written a w \<longleftrightarrow> arc_pos a = length w \<and> take (length w) (arc_data a) = w"

lemma arc_writes_simps [simp]:
  "arc_writes z [] a = a"
  "arc_writes z (w # ws) a = arc_writes z ws (arc_write z w a)"
  by (simp_all add: arc_writes_def)

lemma arc_writes_append: "arc_writes z (us @ ws) a = arc_writes z ws (arc_writes z us a)"
  by (simp add: arc_writes_def)

lemma arc_writes_of [wire_simps]:
  "zpp_documented z \<Longrightarrow> arc_writes z ws (arc_of b) = arc_of (b @ concat ws)"
  by (induction ws arbitrary: b) (simp_all add: arc_write_of)

lemma arc_written_open [simp]: "arc_written (arc_open b) []"
  by (simp add: arc_written_def arc_open_def)

lemma arc_written_write:
  assumes "zpp_documented z" "arc_written a w"
  shows "arc_written (arc_write z v a) (w @ v)"
proof -
  have "length w \<le> length (arc_data a)"
    using assms(2) by (metis arc_written_def length_take min.cobounded1)
  then have "take (length w + length v) (zpp_store z (arc_data a) (length w) v) = w @ v"
    using assms by (simp add: zpp_documented_def arc_written_def)
  then show ?thesis using assms(2) by (simp add: arc_written_def arc_write_def)
qed

lemma arc_written_writes:
  "zpp_documented z \<Longrightarrow> arc_written a w \<Longrightarrow> arc_written (arc_writes z ws a) (w @ concat ws)"
proof (induction ws arbitrary: a w)
  case (Cons v ws)
  then show ?case using Cons.IH [of "arc_write z v a" "w @ v"] by (simp add: arc_written_write)
qed simp

end
