(* ===== verification/Conversion_Task.thy ===== *)
theory Conversion_Task
  imports Main
begin

text \<open>
  The contract of a pipeline task, \<^verbatim>\<open>process::BaseTask\<close> and \<^verbatim>\<open>ConverterTask\<close> of
  \<^verbatim>\<open>backend/srs/workflow/BaseTask.hpp\<close>, as the task diagram relies on it: a task keeps
  one slot per pipeline line; \<^verbatim>\<open>run(prev, line)\<close> touches the slot of its own line only,
  depends on nothing but that slot and its input, and a successful run returns what
  \<^verbatim>\<open>operator()(line)\<close> shows afterwards. Every converter of the model interprets this
  locale. The client lemmas say that lines do not interfere: runs on different lines commute
  and a line's output is the same whatever the other lines did in between.
\<close>

locale line_task =
  fixes n_lines :: "'s \<Rightarrow> nat"
    and slot :: "'s \<Rightarrow> nat \<Rightarrow> 'l"
    and run :: "'s \<Rightarrow> 'i \<Rightarrow> nat \<Rightarrow> ('e + 'o) \<times> 's"
    and view :: "'l \<Rightarrow> 'o"
  assumes n_lines_run: "n_lines (snd (run s i k)) = n_lines s"
    and run_other: "k < n_lines s \<Longrightarrow> j \<noteq> k \<Longrightarrow> slot (snd (run s i k)) j = slot s j"
    and run_local: "k < n_lines s \<Longrightarrow> k < n_lines t \<Longrightarrow> slot s k = slot t k \<Longrightarrow>
        fst (run s i k) = fst (run t i k) \<and>
        slot (snd (run s i k)) k = slot (snd (run t i k)) k"
    and run_view: "k < n_lines s \<Longrightarrow> fst (run s i k) = Inr y \<Longrightarrow> view (slot (snd (run s i k)) k) = y"
begin

lemma run_unaffected:
  assumes "j < n_lines s" "k < n_lines s" "j \<noteq> k"
  shows "fst (run (snd (run s i k)) i' j) = fst (run s i' j)"
    and "slot (snd (run (snd (run s i k)) i' j)) j = slot (snd (run s i' j)) j"
  using run_local [of j "snd (run s i k)" s i'] assms by (simp_all add: n_lines_run run_other)

lemma run_commute:
  assumes "j < n_lines s" "k < n_lines s" "j \<noteq> k"
  shows "slot (snd (run (snd (run s i k)) i' j)) l = slot (snd (run (snd (run s i' j)) i k)) l"
  using assms run_unaffected [of j s k i i'] run_unaffected [of k s j i' i]
  by (cases "l = j"; cases "l = k") (simp_all add: n_lines_run run_other)

text \<open>A schedule is a sequence of runs on chosen lines; \<open>outputs\<close> collects what each returned.\<close>

fun run_all :: "'s \<Rightarrow> (nat \<times> 'i) list \<Rightarrow> (nat \<times> ('e + 'o)) list \<times> 's" where
  "run_all s [] = ([], s)"
| "run_all s ((k, i) # sched) =
     (let (r, s') = run s i k; (rs, s'') = run_all s' sched in ((k, r) # rs, s''))"

lemma run_all_local:
  assumes "n_lines s = n_lines t" "slot s j = slot t j" "j < n_lines s"
    "\<forall>(k, i) \<in> set sched. k < n_lines s"
  shows "filter (\<lambda>(k, r). k = j) (fst (run_all s sched)) =
         fst (run_all t (filter (\<lambda>(k, i). k = j) sched))"
  using assms
proof (induction sched arbitrary: s t)
  case Nil
  then show ?case by simp
next
  case (Cons a sched)
  obtain k i where a: "a = (k, i)" by (cases a)
  have k: "k < n_lines s" using Cons.prems(4) by (simp add: a)
  show ?case
  proof (cases "k = j")
    case True
    have loc: "fst (run s i j) = fst (run t i j)"
      "slot (snd (run s i j)) j = slot (snd (run t i j)) j"
      using run_local [of j s t i] Cons.prems by simp_all
    have "filter (\<lambda>(k, r). k = j) (fst (run_all (snd (run s i j)) sched)) =
        fst (run_all (snd (run t i j)) (filter (\<lambda>(k, i). k = j) sched))"
      using Cons.prems loc by (intro Cons.IH) (auto simp: n_lines_run)
    then show ?thesis using loc by (simp add: a True split_def Let_def)
  next
    case False
    have "filter (\<lambda>(k, r). k = j) (fst (run_all (snd (run s i k)) sched)) =
        fst (run_all t (filter (\<lambda>(k, i). k = j) sched))"
      using Cons.prems k False by (intro Cons.IH) (auto simp: n_lines_run run_other)
    then show ?thesis using False by (simp add: a split_def Let_def)
  qed
qed

end

end
