(* ===== verification/Raw_Files.thy ===== *)
theory Raw_Files
  imports Zpp_Archive Conversion_Task
begin

text \<open>
  Files of raw frames: the delimiting converter \<^verbatim>\<open>Raw2DelimRawConverter\<close>, the sink
  \<^verbatim>\<open>BinaryFile\<close> that appends to one file per line, and the reader \<^verbatim>\<open>RawFrame\<close> with the
  input stream it works on. The stream has the states of \<^verbatim>\<open>std::ifstream\<close> the reader can
  see: whether it is open, its position and its end and failure flags. The lemmas show that
  the reader gives back the frames the sink wrote, in their order, and what it does at the
  end of the file and with a truncated last frame.
\<close>

section \<open>The delimiting converter\<close>

definition delim_convert :: "zpp_bits \<Rightarrow> bytes \<Rightarrow> bytes \<Rightarrow> bytes" where
  "delim_convert z input output =
     (let size = of_nat (length input) :: u32;
          arc = \<lparr>arc_data = output, arc_pos = length output\<rparr>
      in arc_data (arc_write z (zpp_u32 z size @ zpp_chars z input) arc))"

definition delim_run :: "zpp_bits \<Rightarrow> bytes list \<Rightarrow> bytes \<Rightarrow> nat \<Rightarrow> ('e + bytes) \<times> bytes list" where
  "delim_run z output_data input line =
     (let output_data = output_data[line := []];
          output_data = output_data[line := delim_convert z input (output_data ! line)]
      in (Inr (output_data ! line), output_data))"

interpretation delim: line_task length "(!)" "delim_run z" id for z
  by unfold_locales (auto simp: delim_run_def Let_def)

section \<open>The file sink\<close>

text \<open>The bytes written so far and the content of the file, per line; the files are
  truncated when the sink is made.\<close>

record BinaryFile =
  bf_output_data :: "nat list"
  bf_output_streams :: "bytes list"

definition mk_BinaryFile :: "nat \<Rightarrow> BinaryFile" where
  "mk_BinaryFile n_lines =
     \<lparr>bf_output_data = replicate n_lines 0, bf_output_streams = replicate n_lines []\<rparr>"

definition bf_run :: "BinaryFile \<Rightarrow> bytes \<Rightarrow> nat \<Rightarrow> ('e + nat) \<times> BinaryFile" where
  "bf_run bf input line =
     (let bf = bf\<lparr>bf_output_data :=
            (bf_output_data bf)[line := bf_output_data bf ! line + length input]\<rparr>;
          bf = bf\<lparr>bf_output_streams :=
            (bf_output_streams bf)[line := bf_output_streams bf ! line @ input]\<rparr>
      in (Inr (bf_output_data bf ! line), bf))"

definition bf_n_lines :: "BinaryFile \<Rightarrow> nat" where
  "bf_n_lines bf = min (length (bf_output_data bf)) (length (bf_output_streams bf))"

definition bf_slot :: "BinaryFile \<Rightarrow> nat \<Rightarrow> nat \<times> bytes" where
  "bf_slot bf k = (bf_output_data bf ! k, bf_output_streams bf ! k)"

interpretation binary_file: line_task bf_n_lines bf_slot bf_run fst
  by unfold_locales (auto simp: bf_run_def bf_n_lines_def bf_slot_def Let_def)

text \<open>The byte counter of a line is the size of its file.\<close>

definition bf_counts :: "BinaryFile \<Rightarrow> bool" where
  "bf_counts bf \<longleftrightarrow> bf_output_data bf = map length (bf_output_streams bf)"

lemma bf_counts_mk: "bf_counts (mk_BinaryFile n)"
  by (simp add: bf_counts_def mk_BinaryFile_def)

lemma bf_counts_run: "bf_counts bf \<Longrightarrow> k < bf_n_lines bf \<Longrightarrow> bf_counts (snd (bf_run bf x k))"
  by (simp add: bf_counts_def bf_run_def bf_n_lines_def Let_def map_update)

section \<open>The input stream\<close>

record ifstream =
  is_open :: bool
  is_content :: bytes
  is_pos :: nat
  is_eof :: bool
  is_fail :: bool

definition ifs_good :: "ifstream \<Rightarrow> bool" where
  "ifs_good f \<longleftrightarrow> \<not> is_eof f \<and> \<not> is_fail f"

text \<open>\<^verbatim>\<open>read(p, n)\<close>: a stream that is not good fails and reads nothing; otherwise up to
  \<open>n\<close> bytes are read, and meeting the end before that sets both flags. The result is what
  was read.\<close>

definition ifs_read :: "nat \<Rightarrow> ifstream \<Rightarrow> bytes \<times> ifstream" where
  "ifs_read n f =
     (if \<not> ifs_good f then ([], f\<lparr>is_fail := True\<rparr>)
      else
        let got = take n (drop (is_pos f) (is_content f));
            f = f\<lparr>is_pos := is_pos f + length got\<rparr>
        in (got, if length got < n then f\<lparr>is_eof := True, is_fail := True\<rparr> else f))"

text \<open>Reading into a buffer overwrites its front.\<close>

definition read_into :: "bytes \<Rightarrow> bytes \<Rightarrow> bytes" where
  "read_into buf got = got @ drop (length got) buf"

definition ifs_open :: "bytes \<Rightarrow> ifstream" where
  "ifs_open content = \<lparr>is_open = True, is_content = content, is_pos = 0, is_eof = False, is_fail = False\<rparr>"

section \<open>The frame reader\<close>

datatype reader_error = FileNotOpen

definition read_one_frame_of ::
  "zpp_bits \<Rightarrow> bytes \<Rightarrow> ifstream \<Rightarrow> (reader_error + nat) \<times> bytes \<times> ifstream" where
  "read_one_frame_of z binary_data f =
     (if \<not> is_open f then (Inl FileNotOpen, binary_data, f)
      else if is_eof f then (Inr 0, binary_data, f)
      else
        let (got, f) = ifs_read 4 f;
            size_buffer = read_into (replicate 4 0) got;
            size = (case zpp_get_u32 z size_buffer of None \<Rightarrow> 0 | Some (v, _) \<Rightarrow> v);
            binary_data = vec_resize binary_data (unat size) 0;
            (got, f) = ifs_read (unat size) f
        in (Inr (length got), read_into binary_data got, f))"

record RawFrame =
  rf_input_file :: ifstream
  rf_input_buffer :: bytes

definition mk_RawFrame :: "bytes \<Rightarrow> RawFrame" where
  "mk_RawFrame content = \<lparr>rf_input_file = ifs_open content, rf_input_buffer = []\<rparr>"

definition rf_read_one_frame :: "zpp_bits \<Rightarrow> RawFrame \<Rightarrow> (reader_error + bytes) \<times> RawFrame" where
  "rf_read_one_frame z r =
     (let (res, buf, f) = read_one_frame_of z (rf_input_buffer r) (rf_input_file r);
          r = \<lparr>rf_input_file = f, rf_input_buffer = buf\<rparr>
      in case res of Inr _ \<Rightarrow> (Inr (rf_input_buffer r), r) | Inl e \<Rightarrow> (Inl e, r))"

definition rf_reset :: "RawFrame \<Rightarrow> RawFrame" where
  "rf_reset r = r\<lparr>rf_input_file := (rf_input_file r)\<lparr>is_eof := False, is_fail := False, is_pos := 0\<rparr>\<rparr>"

text \<open>A number of reads in a row.\<close>

fun rf_reads :: "zpp_bits \<Rightarrow> nat \<Rightarrow> RawFrame \<Rightarrow> (reader_error + bytes) list \<times> RawFrame" where
  "rf_reads z 0 r = ([], r)"
| "rf_reads z (Suc n) r =
     (let (x, r) = rf_read_one_frame z r; (xs, r) = rf_reads z n r in (x # xs, r))"

section \<open>Reading what was written\<close>

definition delim_frame :: "bytes \<Rightarrow> bytes" where
  "delim_frame f = be_bytes 4 (of_nat (length f) :: u32) @ f"

lemma delim_run_eq:
  "zpp_documented z \<Longrightarrow> line < length os \<Longrightarrow>
     delim_run z os f line = (Inr (delim_frame f), os[line := delim_frame f])"
  by (simp add: delim_run_def Let_def delim_convert_def arc_write_def zpp_store_end zpp_encoders
      zpp_chars_eq delim_frame_def)

text \<open>The reader between two frames of a file.\<close>

definition rf_at :: "bytes \<Rightarrow> nat \<Rightarrow> RawFrame \<Rightarrow> bool" where
  "rf_at content p r \<longleftrightarrow> is_open (rf_input_file r) \<and> is_content (rf_input_file r) = content \<and>
     is_pos (rf_input_file r) = p \<and> ifs_good (rf_input_file r)"

definition rf_at_end :: "bytes \<Rightarrow> RawFrame \<Rightarrow> bool" where
  "rf_at_end content r \<longleftrightarrow> is_open (rf_input_file r) \<and> is_content (rf_input_file r) = content \<and>
     is_eof (rf_input_file r) \<and> rf_input_buffer r = []"

lemma unat_of_nat_small: "n < 2 ^ 32 \<Longrightarrow> unat (of_nat n :: u32) = n"
  by (simp add: unat_of_nat take_bit_nat_eq_self_iff)

lemma rf_read_frame:
  assumes "zpp_documented z" "length f < 2 ^ 32" "rf_at (u @ delim_frame f @ v) (length u) r"
  shows "\<exists>r'. rf_read_one_frame z r = (Inr f, r') \<and>
    rf_at (u @ delim_frame f @ v) (length u + length (delim_frame f)) r'"
proof -
  let ?s = "rf_input_file r"
  let ?sz = "be_bytes 4 (of_nat (length f) :: u32)"
  have s: "is_open ?s" "\<not> is_eof ?s" "\<not> is_fail ?s" "is_pos ?s = length u"
    "is_content ?s = u @ ?sz @ f @ v"
    using assms(3) by (simp_all add: rf_at_def ifs_good_def delim_frame_def)
  have "ifs_read 4 ?s = (?sz, ?s\<lparr>is_pos := length u + 4\<rparr>)"
    using s by (simp add: ifs_read_def ifs_good_def)
  moreover have "ifs_read (length f) (?s\<lparr>is_pos := length u + 4\<rparr>) =
      (f, ?s\<lparr>is_pos := length u + 4 + length f\<rparr>)"
    using s by (simp add: ifs_read_def ifs_good_def)
  ultimately show ?thesis using s assms(1,2)
    by (simp add: rf_read_one_frame_def read_one_frame_of_def read_into_def zpp_decoders
        get_bytes_def of_be_bytes_be_bytes unat_of_nat_small rf_at_def ifs_good_def delim_frame_def)
qed

lemma rf_read_last:
  assumes "zpp_documented z" "rf_at u (length u) r"
  shows "\<exists>r'. rf_read_one_frame z r = (Inr [], r') \<and> rf_at_end u r'"
proof -
  let ?s = "rf_input_file r"
  have "ifs_read 4 ?s = ([], ?s\<lparr>is_eof := True, is_fail := True\<rparr>)"
    using assms(2) by (simp add: ifs_read_def ifs_good_def rf_at_def)
  moreover have "of_be_bytes (replicate 4 0) = (0 :: u32)"
    by (rule bit_word_eqI) (simp add: of_be_bytes_def bit_simps)
  ultimately show ?thesis using assms
    by (simp add: rf_read_one_frame_def read_one_frame_of_def read_into_def zpp_decoders
        get_bytes_def rf_at_def rf_at_end_def ifs_read_def ifs_good_def)
qed

lemma rf_read_past_end:
  "rf_at_end u r \<Longrightarrow> rf_read_one_frame z r = (Inr [], r)"
  by (cases r) (simp add: rf_read_one_frame_def read_one_frame_of_def rf_at_end_def)

lemma rf_reads_past_end: "rf_at_end u r \<Longrightarrow> rf_reads z n r = (replicate n (Inr []), r)"
  by (induction n) (simp_all add: rf_read_past_end)

lemma rf_reads_frames:
  assumes "zpp_documented z" "list_all (\<lambda>f. length f < 2 ^ 32) fs"
    "rf_at (u @ concat (map delim_frame fs)) (length u) r"
  shows "\<exists>r'. rf_reads z (length fs + Suc n) r = (map Inr fs @ replicate (Suc n) (Inr []), r') \<and>
    rf_at_end (u @ concat (map delim_frame fs)) r'"
  using assms(2,3)
proof (induction fs arbitrary: u r)
  case Nil
  then obtain r' where "rf_read_one_frame z r = (Inr [], r')" "rf_at_end u r'"
    using rf_read_last [OF assms(1), of u r] by auto
  then show ?case by (simp add: rf_reads_past_end)
next
  case (Cons f fs)
  then obtain r1 where r1: "rf_read_one_frame z r = (Inr f, r1)"
    "rf_at ((u @ delim_frame f) @ concat (map delim_frame fs)) (length (u @ delim_frame f)) r1"
    using rf_read_frame [OF assms(1), of f u "concat (map delim_frame fs)" r] by auto
  then show ?case using Cons.IH [OF _ r1(2)] Cons.prems(1) by auto
qed


lemma rf_read_truncated:
  assumes "zpp_documented z" "n < 2 ^ 32" "length part < n"
  shows "\<exists>r. rf_read_one_frame z (mk_RawFrame (be_bytes 4 (of_nat n :: u32) @ part)) =
      (Inr (part @ replicate (n - length part) 0), r) \<and>
    rf_read_one_frame z r = (Inr (part @ replicate (n - length part) 0), r)"
proof -
  let ?c = "be_bytes 4 (of_nat n :: u32) @ part"
  let ?e = "\<lparr>is_open = True, is_content = ?c, is_pos = 4 + length part, is_eof = True, is_fail = True\<rparr>"
  have "ifs_read 4 (ifs_open ?c) = (be_bytes 4 (of_nat n :: u32), (ifs_open ?c)\<lparr>is_pos := 4\<rparr>)"
    by (simp add: ifs_read_def ifs_good_def ifs_open_def Let_def)
  moreover have "ifs_read n ((ifs_open ?c)\<lparr>is_pos := 4\<rparr>) = (part, ?e)"
    using assms(3) by (simp add: ifs_read_def ifs_good_def ifs_open_def)
  ultimately have "rf_read_one_frame z (mk_RawFrame ?c) = (Inr (part @ replicate (n - length part) 0),
      \<lparr>rf_input_file = ?e, rf_input_buffer = part @ replicate (n - length part) 0\<rparr>)"
    using assms by (simp add: rf_read_one_frame_def read_one_frame_of_def read_into_def zpp_decoders
        get_bytes_def of_be_bytes_be_bytes unat_of_nat_small mk_RawFrame_def)
      (simp add: ifs_open_def)
  then show ?thesis by (simp add: rf_read_one_frame_def read_one_frame_of_def)
qed

text \<open>Writing a sequence of frames on one line: each is delimited and handed to the sink.\<close>

fun write_frames :: "zpp_bits \<Rightarrow> bytes list \<Rightarrow> BinaryFile \<Rightarrow> nat \<Rightarrow> bytes list \<Rightarrow> BinaryFile" where
  "write_frames z os bf line [] = bf"
| "write_frames z os bf line (f # fs) =
     (case delim_run z os f line :: (unit + bytes) \<times> bytes list of
        (Inl _, os) \<Rightarrow> bf
      | (Inr d, os) \<Rightarrow> write_frames z os (snd (bf_run bf d line :: (unit + nat) \<times> BinaryFile)) line fs)"

lemma bf_n_lines_run [simp]: "bf_n_lines (snd (bf_run bf d line)) = bf_n_lines bf"
  by (rule binary_file.n_lines_run)

lemma bf_stream_run:
  "line < bf_n_lines bf \<Longrightarrow> bf_output_streams (snd (bf_run bf d line)) ! line =
     bf_output_streams bf ! line @ d"
  by (simp add: bf_run_def Let_def bf_n_lines_def)

lemma write_frames_stream:
  assumes "zpp_documented z" "line < length os" "line < bf_n_lines bf"
  shows "bf_output_streams (write_frames z os bf line fs) ! line =
    bf_output_streams bf ! line @ concat (map delim_frame fs)"
  using assms(2,3)
proof (induction fs arbitrary: os bf)
  case (Cons f fs)
  then show ?case by (simp add: delim_run_eq [OF assms(1)] bf_stream_run)
qed simp

lemma take_rf_reads: "take m (fst (rf_reads z (m + k) r)) = fst (rf_reads z m r)"
  by (induction m arbitrary: r) (simp_all add: split_def Let_def)

section \<open>Properties\<close>

text \<open>
  C12. A file of raw frames reads back as what was written: frames of less than \<open>2 ^ 32\<close> bytes,
  delimited and appended to the file of a line, come out of the frame reader one by one in
  their order; every further read gives an empty frame, and after a reset the sequence starts
  again.\<close>

theorem raw_file_round_trip:
  assumes "zpp_documented z" "list_all (\<lambda>f. length f < 2 ^ 32) fs" "line < n_lines"
    "line < length os"
  shows "let file = bf_output_streams (write_frames z os (mk_BinaryFile n_lines) line fs) ! line;
             (frames, r) = rf_reads z (length fs + Suc n) (mk_RawFrame file)
    in frames = map Inr fs @ replicate (Suc n) (Inr []) \<and>
       fst (rf_reads z (length fs) (rf_reset r)) = map Inr fs"
proof -
  let ?file = "concat (map delim_frame fs)"
  have content: "bf_output_streams (write_frames z os (mk_BinaryFile n_lines) line fs) ! line = ?file"
    using assms by (subst write_frames_stream) (simp_all add: mk_BinaryFile_def bf_n_lines_def)
  have start: "rf_at ([] @ ?file) (length []) (mk_RawFrame ?file)"
    by (simp add: rf_at_def mk_RawFrame_def ifs_open_def ifs_good_def)
  obtain r where r: "rf_reads z (length fs + Suc n) (mk_RawFrame ?file) =
      (map Inr fs @ replicate (Suc n) (Inr []), r)" "rf_at_end ?file r"
    using rf_reads_frames [OF assms(1,2) start, of n] by auto
  then have "rf_at ([] @ ?file) (length []) (rf_reset r)"
    by (simp add: rf_at_def rf_at_end_def rf_reset_def ifs_good_def)
  then have "fst (rf_reads z (length fs + Suc 0) (rf_reset r)) = map Inr fs @ [Inr []]"
    using rf_reads_frames [OF assms(1,2), of "[]" "rf_reset r" 0] by auto
  then have "fst (rf_reads z (length fs) (rf_reset r)) = map Inr fs"
    using take_rf_reads [of "length fs" z "Suc 0" "rf_reset r"] by simp
  with content r(1) show ?thesis by (simp add: Let_def)
qed

lemma raw_file_round_trip_witness:
  "let file = bf_output_streams (write_frames zpp_ref [[9], []] (mk_BinaryFile 2) 1 [[1, 2, 3], [], [255]]) ! 1;
       (frames, r) = rf_reads zpp_ref (length [[1 :: byte, 2, 3], [], [255]] + Suc 4) (mk_RawFrame file)
    in frames = map Inr [[1, 2, 3], [], [255]] @ replicate (Suc 4) (Inr []) \<and>
       fst (rf_reads zpp_ref (length [[1 :: byte, 2, 3], [], [255]]) (rf_reset r)) =
         map Inr [[1, 2, 3], [], [255]]"
  by (rule raw_file_round_trip) simp_all

text \<open>
  A file cut inside its last frame: the reader hands out a frame of the announced size, the
  missing bytes filled up, and because the end-of-file check returns before the buffer is
  touched it hands out the same frame again on the next read.\<close>

theorem raw_file_truncated:
  assumes "zpp_documented z" "n < 2 ^ 32" "length part < n"
  shows "fst (rf_reads z 2 (mk_RawFrame (be_bytes 4 (of_nat n :: u32) @ part))) =
    replicate 2 (Inr (part @ replicate (n - length part) 0))"
  using rf_read_truncated [OF assms] by (auto simp: numeral_2_eq_2)

lemma raw_file_truncated_witness:
  "fst (rf_reads zpp_ref 2 (mk_RawFrame (be_bytes 4 (of_nat 5 :: u32) @ [7, 8]))) =
    replicate 2 (Inr ([7, 8] @ replicate (5 - length [7 :: byte, 8]) 0))"
  by (rule raw_file_truncated) simp_all

end
