(* ===== verification/Bit_Utils.thy ===== *)
theory Bit_Utils
  imports Srs_Prelude
begin

text \<open>
  The bit-set templates and Gray-code conversions of
  \<^verbatim>\<open>backend/srs/utils/CommonFunctions.hpp\<close>. A \<^verbatim>\<open>std::bitset<N>\<close> is an \<open>N word\<close>:
  shifts drop the bits that leave the width, and \<^verbatim>\<open>to_ullong\<close> followed by the construction
  of another bit set is \<open>ucast\<close>. The lemmas give every function at the level of bits and
  show that the two Gray-code functions are inverse to each other.
\<close>

unbundle bit_operations_syntax

section \<open>Sub-ranges and concatenation\<close>

definition bits_subset :: "nat \<Rightarrow> nat \<Rightarrow> 'n::len word \<Rightarrow> 'm::len word" where
  "bits_subset mx mn bits =
     (let ignore_high = LENGTH('n) - mx
      in ucast (drop_bit (ignore_high + mn) (push_bit ignore_high bits)))"

definition merge_bits :: "'h::len word \<Rightarrow> 'l::len word \<Rightarrow> 'r::len word" where
  "merge_bits high_bits low_bits =
     push_bit LENGTH('l) (ucast high_bits) OR ucast low_bits"

definition get_low_bits :: "'n::len word \<Rightarrow> 'm::len word" where
  "get_low_bits bits =
     (let high_size = LENGTH('n) - LENGTH('m)
      in ucast (drop_bit high_size (push_bit high_size bits)))"

definition get_high_bits :: "'n::len word \<Rightarrow> 'm::len word" where
  "get_high_bits bits = ucast (drop_bit (LENGTH('n) - LENGTH('m)) bits)"

lemma bit_bits_subset [bit_simps]:
  fixes w :: "'n::len word"
  assumes "mx \<le> LENGTH('n)" "mn < mx"
  shows "bit (bits_subset mx mn w :: 'm::len word) k \<longleftrightarrow>
    k < LENGTH('m) \<and> k + mn < mx \<and> bit w (k + mn)"
  using assms by (auto simp: bits_subset_def Let_def bit_simps add.commute
      dest: bit_imp_le_length)

lemma bit_merge_bits [bit_simps]:
  "bit (merge_bits (h :: 'h::len word) (l :: 'l::len word) :: 'r::len word) k \<longleftrightarrow>
     k < LENGTH('r) \<and> (if k < LENGTH('l) then bit l k else bit h (k - LENGTH('l)))"
  by (auto simp: merge_bits_def bit_simps dest: bit_imp_le_length)

lemma bit_get_low_bits [bit_simps]:
  fixes w :: "'n::len word"
  assumes "LENGTH('m::len) \<le> LENGTH('n)"
  shows "bit (get_low_bits w :: 'm word) k \<longleftrightarrow> k < LENGTH('m) \<and> bit w k"
  using assms by (auto simp: get_low_bits_def Let_def bit_simps add.commute)

lemma bit_get_high_bits [bit_simps]:
  fixes w :: "'n::len word"
  shows "bit (get_high_bits w :: 'm::len word) k \<longleftrightarrow>
    k < LENGTH('m) \<and> bit w (k + (LENGTH('n) - LENGTH('m)))"
  by (auto simp: get_high_bits_def bit_simps add.commute)

text \<open>Splitting a bit set into its high and low part and merging them gives it back.\<close>

lemma merge_split_bits:
  fixes w :: "'n::len word"
  assumes "LENGTH('n) = LENGTH('h::len) + LENGTH('l::len)"
  shows "merge_bits (get_high_bits w :: 'h word) (get_low_bits w :: 'l word) = w"
proof (rule bit_word_eqI)
  fix k assume "k < LENGTH('n)"
  with assms show "bit (merge_bits (get_high_bits w :: 'h word) (get_low_bits w :: 'l word)
      :: 'n word) k = bit w k"
    by (simp add: bit_simps) linarith
qed

section \<open>Byte order\<close>

text \<open>\<^verbatim>\<open>std::byteswap\<close> on 64 bits, and the \<^verbatim>\<open>byte_swap\<close> of the program, which shifts the
  bit set to the top of a 64-bit value before swapping.\<close>

definition byteswap64 :: "u64 \<Rightarrow> u64" where
  "byteswap64 w = of_le_bytes (rev (le_bytes 8 w))"

definition byte_swap :: "'n::len word \<Rightarrow> 'n word" where
  "byte_swap bits =
     (let val = ucast bits :: u64;
          val = push_bit (64 - LENGTH('n)) val;
          val = byteswap64 val
      in ucast val)"

lemma bit_byteswap64 [bit_simps]:
  "bit (byteswap64 w) k \<longleftrightarrow> k < 64 \<and> bit w (8 * (7 - k div 8) + k mod 8)"
proof (cases "k < 64")
  case True
  then have "k div 8 < 8" by linarith
  with True show ?thesis by (simp add: byteswap64_def bit_simps rev_nth)
qed (simp add: byteswap64_def bit_simps)

lemma byte_swap_of_le_bytes:
  assumes "length bs = 6"
  shows "byte_swap (of_le_bytes bs :: 48 word) = of_be_bytes bs"
proof (rule bit_word_eqI)
  fix k assume k: "k < LENGTH(48)"
  define q where "q = k div 8"
  define r where "r = k mod 8"
  have q: "q < 6" and r: "r < 8" and kqr: "k = 8 * q + r"
    using k by (auto simp: q_def r_def)
  have "8 * (7 - q) + r - 16 = 8 * (5 - q) + r" using q by auto
  moreover have "(8 * (5 - q) + r) div 8 = 5 - q" "(8 * (5 - q) + r) mod 8 = r"
    using r by auto
  ultimately show "bit (byte_swap (of_le_bytes bs :: 48 word)) k = bit (of_be_bytes bs :: 48 word) k"
    using q r assms unfolding kqr
    by (simp add: byte_swap_def of_be_bytes_def Let_def bit_simps rev_nth) linarith
qed

section \<open>Gray code\<close>

definition binary_to_gray :: "'a::len word \<Rightarrow> 'a word" where
  "binary_to_gray bin_val = bin_val XOR drop_bit 1 bin_val"

lemma drop_bit_1_less:
  fixes w :: "'a::len word"
  assumes "w \<noteq> 0"
  shows "unat (drop_bit 1 w) < unat w"
proof -
  have "unat w \<noteq> 0" using assms by (simp add: unat_eq_zero)
  then have "unat w div 2 < unat w" by simp
  moreover have "unat (drop_bit 1 w) = unat w div 2"
    by (simp only: unat_drop_bit_div power_one_right)
  ultimately show ?thesis by simp
qed

lemma drop_bit_Suc_0_less: "w \<noteq> 0 \<Longrightarrow> unat (drop_bit (Suc 0) w) < unat w"
  using drop_bit_1_less [of w] by simp

text \<open>The loop \<^verbatim>\<open>while (gray_val > 0) { gray_val >>= 1U; bin_val ^= gray_val; }\<close>.\<close>

function gray_loop :: "'a::len word \<Rightarrow> 'a word \<Rightarrow> 'a word" where
  "gray_loop gray_val bin_val =
     (if gray_val = 0 then bin_val
      else gray_loop (drop_bit 1 gray_val) (bin_val XOR drop_bit 1 gray_val))"
  by pat_completeness auto
termination
  by (relation "measure (\<lambda>(g, b). unat g)") (auto simp: drop_bit_Suc_0_less)

declare gray_loop.simps [simp del]

definition gray_to_binary :: "'a::len word \<Rightarrow> 'a word" where
  "gray_to_binary gray_val = gray_loop gray_val gray_val"

lemma gray_loop_xor: "gray_loop g (b XOR c) = gray_loop g b XOR c"
proof (induction g b rule: gray_loop.induct)
  case (1 g b)
  show ?case
  proof (cases "g = 0")
    case True
    then show ?thesis by (simp add: gray_loop.simps)
  next
    case False
    have "(b XOR c) XOR drop_bit 1 g = (b XOR drop_bit 1 g) XOR c"
      by (simp only: ac_simps)
    with False 1 show ?thesis by (simp add: gray_loop.simps [of g])
  qed
qed

lemma gray_to_binary_0 [simp]: "gray_to_binary 0 = 0"
  by (simp add: gray_to_binary_def gray_loop.simps)

lemma gray_to_binary_rec: "gray_to_binary g = g XOR gray_to_binary (drop_bit 1 g)"
proof (cases "g = 0")
  case False
  then have "gray_to_binary g = gray_loop (drop_bit 1 g) (drop_bit 1 g XOR g)"
    by (simp add: gray_to_binary_def gray_loop.simps [of g] xor.commute)
  also have "\<dots> = gray_to_binary (drop_bit 1 g) XOR g"
    by (simp add: gray_loop_xor gray_to_binary_def)
  finally show ?thesis by (simp add: xor.commute)
qed simp

lemma drop_bit_binary_to_gray: "drop_bit n (binary_to_gray w) = binary_to_gray (drop_bit n w)"
  by (rule bit_word_eqI) (auto simp: binary_to_gray_def bit_simps ac_simps)

lemma gray_to_binary_binary_to_gray: "gray_to_binary (binary_to_gray w) = w"
proof (induction "unat w" arbitrary: w rule: less_induct)
  case less
  show ?case
  proof (cases "w = 0")
    case False
    then have "gray_to_binary (binary_to_gray (drop_bit 1 w)) = drop_bit 1 w"
      by (intro less drop_bit_1_less)
    then show ?thesis
      by (subst gray_to_binary_rec)
        (simp add: drop_bit_binary_to_gray, simp add: binary_to_gray_def xor.assoc)
  qed (simp add: binary_to_gray_def)
qed

lemma drop_bit_gray_to_binary: "drop_bit 1 (gray_to_binary g) = gray_to_binary (drop_bit 1 g)"
proof (induction "unat g" arbitrary: g rule: less_induct)
  case less
  show ?case
  proof (cases "g = 0")
    case False
    then have "drop_bit 1 (gray_to_binary (drop_bit 1 g)) = gray_to_binary (drop_bit 1 (drop_bit 1 g))"
      by (intro less drop_bit_1_less)
    then show ?thesis
      by (subst gray_to_binary_rec, subst (2) gray_to_binary_rec) (simp add: drop_bit_xor)
  qed simp
qed

lemma binary_to_gray_gray_to_binary: "binary_to_gray (gray_to_binary g) = g"
proof -
  have "binary_to_gray (gray_to_binary g)
      = (g XOR gray_to_binary (drop_bit 1 g)) XOR gray_to_binary (drop_bit 1 g)"
    unfolding binary_to_gray_def drop_bit_gray_to_binary
    by (subst gray_to_binary_rec) simp
  then show ?thesis by (simp add: xor.assoc)
qed

text \<open>Neither conversion sets a bit above the highest set bit of its argument, so both
  stay within the twelve bits of a bunch-crossing id.\<close>

lemma binary_to_gray_less: "unat w < 2 ^ n \<Longrightarrow> unat (binary_to_gray w) < 2 ^ n"
  by (simp add: unat_less_iff_drop_bit drop_bit_binary_to_gray) (simp add: binary_to_gray_def)

lemma drop_bits_gray_to_binary: "drop_bit n (gray_to_binary g) = gray_to_binary (drop_bit n g)"
proof (induction n arbitrary: g)
  case (Suc n)
  have "drop_bit (Suc n) (gray_to_binary g) = drop_bit n (drop_bit 1 (gray_to_binary g))"
    by simp
  also have "\<dots> = gray_to_binary (drop_bit n (drop_bit 1 g))"
    by (simp only: drop_bit_gray_to_binary Suc.IH)
  finally show ?case by simp
qed simp

lemma gray_to_binary_less: "unat g < 2 ^ n \<Longrightarrow> unat (gray_to_binary g) < 2 ^ n"
  by (simp add: unat_less_iff_drop_bit drop_bits_gray_to_binary)

text \<open>Both commute with widening.\<close>

lemma bit_binary_to_gray [bit_simps]: "bit (binary_to_gray w) k \<longleftrightarrow> bit w k \<noteq> bit w (Suc k)"
  by (simp add: binary_to_gray_def bit_simps)

lemma binary_to_gray_ucast:
  fixes w :: "'a::len word"
  assumes "LENGTH('a) \<le> LENGTH('b::len)"
  shows "binary_to_gray (ucast w :: 'b word) = ucast (binary_to_gray w)"
proof (rule bit_word_eqI)
  fix k assume "k < LENGTH('b)"
  then show "bit (binary_to_gray (ucast w :: 'b word)) k = bit (ucast (binary_to_gray w) :: 'b word) k"
    using assms by (cases "Suc k < LENGTH('b)") (simp_all add: bit_simps)
qed

lemma gray_to_binary_ucast:
  fixes w :: "'a::len word"
  assumes "LENGTH('a) \<le> LENGTH('b::len)"
  shows "gray_to_binary (ucast w :: 'b word) = ucast (gray_to_binary w)"
proof -
  have "gray_to_binary (binary_to_gray (ucast (gray_to_binary w) :: 'b word)) = gray_to_binary (ucast w)"
    using assms by (simp add: binary_to_gray_ucast binary_to_gray_gray_to_binary)
  then show ?thesis by (simp add: gray_to_binary_binary_to_gray)
qed

end
