(* ===== verification/Data_Structs.thy ===== *)
theory Data_Structs
  imports Bit_Utils
begin

text \<open>
  The data model: the structures of \<^verbatim>\<open>backend/srs/data/SRSDataStructs.hpp\<close>, their
  compact 48-bit forms of \<^verbatim>\<open>SRSDataCompact.hpp\<close> with the bit-field layout that
  \<^verbatim>\<open>std::bit_cast\<close> exposes (fields packed from the least significant bit, as on the
  little-endian platforms the program is built for), and the constants of
  \<^verbatim>\<open>CommonDefinitions.hpp\<close> that fix the wire format. Field names carry a prefix where
  two structures of the source use the same one.
\<close>

unbundle bit_operations_syntax

section \<open>Structures\<close>

record ReceiveDataHeader =
  frame_counter :: u32
  vmm_tag :: "byte \<times> byte \<times> byte"
  fec_id :: u8
  udp_timestamp :: u32
  overflow :: u32

record MarkerData =
  marker_vmm_id :: u8
  srs_timestamp :: u64

record HitData =
  is_over_threshold :: bool
  channel_num :: u8
  tdc :: u8
  offset :: u8
  vmm_id :: u8
  adc :: u16
  bc_id :: u16

record StructData =
  header :: ReceiveDataHeader
  marker_data :: "MarkerData list"
  hit_data :: "HitData list"

definition default_header :: ReceiveDataHeader where
  "default_header = \<lparr>frame_counter = 0, vmm_tag = (0, 0, 0), fec_id = 0,
     udp_timestamp = 0, overflow = 0\<rparr>"

definition default_marker :: MarkerData where
  "default_marker = \<lparr>marker_vmm_id = 0, srs_timestamp = 0\<rparr>"

definition default_hit :: HitData where
  "default_hit = \<lparr>is_over_threshold = False, channel_num = 0, tdc = 0, offset = 0,
     vmm_id = 0, adc = 0, bc_id = 0\<rparr>"

definition default_struct :: StructData where
  "default_struct = \<lparr>header = default_header, marker_data = [], hit_data = []\<rparr>"

definition reset_struct_data :: "StructData \<Rightarrow> StructData" where
  "reset_struct_data s = s\<lparr>header := default_header, marker_data := [], hit_data := []\<rparr>"

lemma reset_struct_data_eq [simp]: "reset_struct_data s = default_struct"
  by (simp add: reset_struct_data_def default_struct_def)

text \<open>A structure with one hit and one marker, for the concrete instances.\<close>

definition sample_struct :: StructData where
  "sample_struct = \<lparr>header = \<lparr>frame_counter = 7, vmm_tag = (0x56, 0x4D, 0x33), fec_id = 2,
       udp_timestamp = 100, overflow = 0\<rparr>,
     marker_data = [\<lparr>marker_vmm_id = 3, srs_timestamp = 0x12345678\<rparr>],
     hit_data = [\<lparr>is_over_threshold = True, channel_num = 33, tdc = 200, offset = 5, vmm_id = 9,
       adc = 700, bc_id = 2900\<rparr>]\<rparr>"

section \<open>Wire constants\<close>

definition BYTE_BIT_LENGTH :: nat where "BYTE_BIT_LENGTH = 8"
definition HIT_DATA_BIT_LENGTH :: nat where "HIT_DATA_BIT_LENGTH = 48"
definition FLAG_BIT_POSITION :: nat where "FLAG_BIT_POSITION = 15"
definition CHANNEL_NUM_BIT_LENGTH :: nat where "CHANNEL_NUM_BIT_LENGTH = 6"
definition TDC_BIT_LENGTH :: nat where "TDC_BIT_LENGTH = 8"
definition BC_ID_BIT_LENGTH :: nat where "BC_ID_BIT_LENGTH = 12"
definition ADC_BIT_LENGTH :: nat where "ADC_BIT_LENGTH = 10"
definition VMM_ID_BIT_LENGTH :: nat where "VMM_ID_BIT_LENGTH = 5"
definition OFFSET_BIT_LENGTH :: nat where "OFFSET_BIT_LENGTH = 5"
definition SRS_TIMESTAMP_BIT_LENGTH :: nat where "SRS_TIMESTAMP_BIT_LENGTH = 10 + 32"

text \<open>\<^verbatim>\<open>sizeof(ReceiveDataHeader)\<close>: 4 + 3 + 1 + 4 + 4, no padding.\<close>

definition header_bytes :: nat where "header_bytes = 4 + 3 + 1 + 4 + 4"

definition element_bytes :: nat where
  "element_bytes = HIT_DATA_BIT_LENGTH div BYTE_BIT_LENGTH"

lemma header_bytes_eq [simp]: "header_bytes = 16"
  by (simp add: header_bytes_def)

lemma element_bytes_eq [simp]: "element_bytes = 6"
  by (simp add: element_bytes_def HIT_DATA_BIT_LENGTH_def BYTE_BIT_LENGTH_def)

lemmas bit_length_defs = CHANNEL_NUM_BIT_LENGTH_def TDC_BIT_LENGTH_def BC_ID_BIT_LENGTH_def
  ADC_BIT_LENGTH_def VMM_ID_BIT_LENGTH_def OFFSET_BIT_LENGTH_def SRS_TIMESTAMP_BIT_LENGTH_def

section \<open>Compact structures\<close>

record HitDataCompact =
  hc_tdc :: "8 word"
  hc_channel_num :: "6 word"
  hc_is_over_threshold :: "1 word"
  hc_flag :: "1 word"
  hc_bc_id :: "12 word"
  hc_adc :: "10 word"
  hc_vmm_id :: "5 word"
  hc_offset :: "5 word"

record MarkerDataCompact =
  mc_timestamp_low_bits :: "10 word"
  mc_vmm_id :: "5 word"
  mc_flag :: "1 word"
  mc_timestamp_high_bits :: "32 word"

text \<open>\<^verbatim>\<open>bit_cast<uint64_t>\<close> of a compact structure and back. The unnamed 16-bit field
  at the bottom holds zeros.\<close>

definition hit_compact_bits :: "HitDataCompact \<Rightarrow> u64" where
  "hit_compact_bits c =
     push_bit 16 (ucast (hc_tdc c)) OR push_bit 24 (ucast (hc_channel_num c)) OR
     push_bit 30 (ucast (hc_is_over_threshold c)) OR push_bit 31 (ucast (hc_flag c)) OR
     push_bit 32 (ucast (hc_bc_id c)) OR push_bit 44 (ucast (hc_adc c)) OR
     push_bit 54 (ucast (hc_vmm_id c)) OR push_bit 59 (ucast (hc_offset c))"

definition bits_hit_compact :: "u64 \<Rightarrow> HitDataCompact" where
  "bits_hit_compact w = \<lparr>hc_tdc = ucast (drop_bit 16 w), hc_channel_num = ucast (drop_bit 24 w),
     hc_is_over_threshold = ucast (drop_bit 30 w), hc_flag = ucast (drop_bit 31 w),
     hc_bc_id = ucast (drop_bit 32 w), hc_adc = ucast (drop_bit 44 w),
     hc_vmm_id = ucast (drop_bit 54 w), hc_offset = ucast (drop_bit 59 w)\<rparr>"

definition marker_compact_bits :: "MarkerDataCompact \<Rightarrow> u64" where
  "marker_compact_bits c =
     push_bit 16 (ucast (mc_timestamp_low_bits c)) OR push_bit 26 (ucast (mc_vmm_id c)) OR
     push_bit 31 (ucast (mc_flag c)) OR push_bit 32 (ucast (mc_timestamp_high_bits c))"

definition bits_marker_compact :: "u64 \<Rightarrow> MarkerDataCompact" where
  "bits_marker_compact w = \<lparr>mc_timestamp_low_bits = ucast (drop_bit 16 w),
     mc_vmm_id = ucast (drop_bit 26 w), mc_flag = ucast (drop_bit 31 w),
     mc_timestamp_high_bits = ucast (drop_bit 32 w)\<rparr>"

text \<open>The two casts are inverse to each other, up to the unnamed bits.\<close>

lemma bit_hit_compact_bits [bit_simps]:
  "bit (hit_compact_bits c) k \<longleftrightarrow>
     (if k < 16 then False else if k < 24 then bit (hc_tdc c) (k - 16)
      else if k < 30 then bit (hc_channel_num c) (k - 24)
      else if k < 31 then bit (hc_is_over_threshold c) (k - 30)
      else if k < 32 then bit (hc_flag c) (k - 31)
      else if k < 44 then bit (hc_bc_id c) (k - 32)
      else if k < 54 then bit (hc_adc c) (k - 44)
      else if k < 59 then bit (hc_vmm_id c) (k - 54)
      else bit (hc_offset c) (k - 59))"
  by (simp add: hit_compact_bits_def bit_simps) (auto dest: bit_imp_le_length)

lemma bit_marker_compact_bits [bit_simps]:
  "bit (marker_compact_bits c) k \<longleftrightarrow>
     (if k < 16 then False else if k < 26 then bit (mc_timestamp_low_bits c) (k - 16)
      else if k < 31 then bit (mc_vmm_id c) (k - 26)
      else if k < 32 then bit (mc_flag c) (k - 31)
      else bit (mc_timestamp_high_bits c) (k - 32))"
  by (simp add: marker_compact_bits_def bit_simps) (auto dest: bit_imp_le_length)

lemma bits_hit_compact_bits: "bits_hit_compact (hit_compact_bits c) = c"
  by (cases c) (simp add: bits_hit_compact_def, intro conjI bit_word_eqI; simp add: bit_simps)

lemma bits_marker_compact_bits: "bits_marker_compact (marker_compact_bits c) = c"
  by (cases c) (simp add: bits_marker_compact_def, intro conjI bit_word_eqI; simp add: bit_simps)

lemma hit_compact_bits_bits:
  assumes "\<And>k. k < 16 \<Longrightarrow> \<not> bit w k"
  shows "hit_compact_bits (bits_hit_compact w) = w"
proof (rule bit_word_eqI)
  fix k assume "k < LENGTH(64)"
  with assms show "bit (hit_compact_bits (bits_hit_compact w)) k = bit w k"
    by (cases "k = 30 \<or> k = 31") (auto simp: bits_hit_compact_def bit_simps)
qed

lemma marker_compact_bits_bits:
  assumes "\<And>k. k < 16 \<Longrightarrow> \<not> bit w k"
  shows "marker_compact_bits (bits_marker_compact w) = w"
proof (rule bit_word_eqI)
  fix k assume "k < LENGTH(64)"
  with assms show "bit (marker_compact_bits (bits_marker_compact w)) k = bit w k"
    by (cases "k = 31") (auto simp: bits_marker_compact_def bit_simps)
qed

end
