(* ===== verification/Convert_Options.thy ===== *)
theory Convert_Options
  imports Srs_Prelude "HOL-Library.Mapping"
begin

text \<open>
  The conversion graph of \<^verbatim>\<open>backend/srs/converters/DataConvertOptions.hpp\<close>: the options,
  their names, the relation table and the recursive dependency test, which is shown to decide
  reachability in the table. The options carry the order of their underlying integers, the
  order in which a \<^verbatim>\<open>std::map\<close> keyed by them is traversed.
\<close>

datatype DataConvertOptions =
  opt_none | opt_raw | opt_raw_frame | opt_structure | opt_structure_to_proto | opt_proto | opt_proto_frame

fun convert_option_to_string :: "DataConvertOptions \<Rightarrow> string" where
  "convert_option_to_string opt_none = ''none''"
| "convert_option_to_string opt_raw = ''raw''"
| "convert_option_to_string opt_raw_frame = ''raw_frame''"
| "convert_option_to_string opt_structure = ''structure''"
| "convert_option_to_string opt_structure_to_proto = ''structure_to_proto''"
| "convert_option_to_string opt_proto = ''proto''"
| "convert_option_to_string opt_proto_frame = ''proto_frame''"

text \<open>The underlying value of the enumeration.\<close>

fun option_value :: "DataConvertOptions \<Rightarrow> nat" where
  "option_value opt_none = 0"
| "option_value opt_raw = 1"
| "option_value opt_raw_frame = 2"
| "option_value opt_structure = 3"
| "option_value opt_structure_to_proto = 4"
| "option_value opt_proto = 5"
| "option_value opt_proto_frame = 6"

lemma option_value_inj: "option_value a = option_value b \<longleftrightarrow> a = b"
  by (cases a; cases b) simp_all

instantiation DataConvertOptions :: linorder
begin

definition less_eq_DataConvertOptions :: "DataConvertOptions \<Rightarrow> DataConvertOptions \<Rightarrow> bool" where
  "less_eq_DataConvertOptions a b \<longleftrightarrow> option_value a \<le> option_value b"

definition less_DataConvertOptions :: "DataConvertOptions \<Rightarrow> DataConvertOptions \<Rightarrow> bool" where
  "less_DataConvertOptions a b \<longleftrightarrow> option_value a < option_value b"

instance
  by standard
    (auto simp: less_eq_DataConvertOptions_def less_DataConvertOptions_def option_value_inj)

end

text \<open>\<^verbatim>\<open>magic_enum::enum_values\<close>: all options in the order of their values.\<close>

definition option_values :: "DataConvertOptions list" where
  "option_values = [opt_none, opt_raw, opt_raw_frame, opt_structure, opt_structure_to_proto,
     opt_proto, opt_proto_frame]"

lemma option_values_sorted: "sorted option_values \<and> distinct option_values"
  by (simp add: option_values_def less_eq_DataConvertOptions_def)

lemma set_option_values: "set option_values = UNIV"
proof -
  have "x \<in> set option_values" for x by (cases x) (simp_all add: option_values_def)
  then show ?thesis by blast
qed

text \<open>The table, \<open>(dependee, depender)\<close>, with the entry the source lists twice.\<close>

definition CONVERT_OPTION_RELATIONS :: "(DataConvertOptions \<times> DataConvertOptions) list" where
  "CONVERT_OPTION_RELATIONS =
     [(opt_raw, opt_raw_frame), (opt_raw, opt_structure),
      (opt_structure, opt_structure_to_proto), (opt_structure, opt_structure_to_proto),
      (opt_structure_to_proto, opt_proto), (opt_structure_to_proto, opt_proto_frame)]"

lemma relation_increases:
  "(a, b) \<in> set CONVERT_OPTION_RELATIONS \<Longrightarrow> option_value a < option_value b"
  by (auto simp: CONVERT_OPTION_RELATIONS_def)

function convert_option_has_dependency :: "DataConvertOptions \<Rightarrow> DataConvertOptions \<Rightarrow> bool" where
  "convert_option_has_dependency dependee depender =
     (if dependee = depender then True
      else list_ex (\<lambda>relation.
        if dependee = fst relation then
          (if depender = snd relation then True
           else convert_option_has_dependency (snd relation) depender)
        else False) CONVERT_OPTION_RELATIONS)"
  by pat_completeness auto
termination
  by (relation "measure (\<lambda>(a, b). 7 - option_value a)")
    (auto simp: CONVERT_OPTION_RELATIONS_def)

declare convert_option_has_dependency.simps [simp del]

definition option_graph :: "(DataConvertOptions \<times> DataConvertOptions) set" where
  "option_graph = set CONVERT_OPTION_RELATIONS"

lemma has_dependency_unfold:
  "convert_option_has_dependency a b \<longleftrightarrow>
     a = b \<or> (\<exists>c. (a, c) \<in> option_graph \<and> convert_option_has_dependency c b)"
proof -
  have "convert_option_has_dependency b b" by (simp add: convert_option_has_dependency.simps)
  then have "(\<lambda>relation. if a = fst relation then (if b = snd relation then True
        else convert_option_has_dependency (snd relation) b) else False) =
      (\<lambda>relation. a = fst relation \<and> convert_option_has_dependency (snd relation) b)"
    by (intro ext) auto
  then show ?thesis
    by (subst convert_option_has_dependency.simps) (simp add: list_ex_iff option_graph_def Bex_def)
qed

lemma has_dependency_refl [simp]: "convert_option_has_dependency a a"
  by (simp add: convert_option_has_dependency.simps)

lemma has_dependency_iff: "convert_option_has_dependency a b \<longleftrightarrow> (a, b) \<in> option_graph\<^sup>*"
proof
  show "convert_option_has_dependency a b \<Longrightarrow> (a, b) \<in> option_graph\<^sup>*"
  proof (induction "7 - option_value a" arbitrary: a rule: less_induct)
    case less
    show ?case
    proof (cases "a = b")
      case False
      then obtain c where c: "(a, c) \<in> option_graph" "convert_option_has_dependency c b"
        using less.prems by (subst (asm) has_dependency_unfold) blast
      have "option_value a < option_value c" "option_value c < 7"
        using c(1) relation_increases [of a c] by (auto simp: option_graph_def) (cases c; simp)
      then have "(c, b) \<in> option_graph\<^sup>*" using less.hyps [of c] c(2) by simp
      then show ?thesis using c(1) by (rule converse_rtrancl_into_rtrancl [rotated])
    qed simp
  qed
next
  show "(a, b) \<in> option_graph\<^sup>* \<Longrightarrow> convert_option_has_dependency a b"
  proof (induction rule: converse_rtrancl_induct)
    case (step y z)
    then show ?case by (subst has_dependency_unfold) blast
  qed simp
qed

lemma has_dependency_trans:
  "convert_option_has_dependency a b \<Longrightarrow> convert_option_has_dependency b c \<Longrightarrow>
     convert_option_has_dependency a c"
  by (auto simp: has_dependency_iff)

lemma has_dependency_le: "convert_option_has_dependency a b \<Longrightarrow> a \<le> b"
proof -
  assume "convert_option_has_dependency a b"
  then have "(a, b) \<in> option_graph\<^sup>*" by (simp add: has_dependency_iff)
  then show "a \<le> b"
  proof induction
    case (step y z)
    then have "y < z" using relation_increases [of y z] by (simp add: option_graph_def less_DataConvertOptions_def)
    with step.IH show ?case by simp
  qed simp
qed

text \<open>The test as a table, for evaluation.\<close>

lemma has_dependency_from_none: "convert_option_has_dependency opt_none b \<longleftrightarrow> b = opt_none"
  by (subst has_dependency_unfold) (auto simp: option_graph_def CONVERT_OPTION_RELATIONS_def)

lemma has_dependency_leaf:
  "convert_option_has_dependency opt_raw_frame b \<longleftrightarrow> b = opt_raw_frame"
  "convert_option_has_dependency opt_proto b \<longleftrightarrow> b = opt_proto"
  "convert_option_has_dependency opt_proto_frame b \<longleftrightarrow> b = opt_proto_frame"
  using has_dependency_unfold [of opt_raw_frame b] has_dependency_unfold [of opt_proto b]
    has_dependency_unfold [of opt_proto_frame b]
  by (auto simp: option_graph_def CONVERT_OPTION_RELATIONS_def)

lemma has_dependency_stp:
  "convert_option_has_dependency opt_structure_to_proto b \<longleftrightarrow>
     b \<in> {opt_structure_to_proto, opt_proto, opt_proto_frame}"
  by (subst has_dependency_unfold)
    (auto simp: option_graph_def CONVERT_OPTION_RELATIONS_def has_dependency_leaf)

lemma has_dependency_structure:
  "convert_option_has_dependency opt_structure b \<longleftrightarrow>
     b \<in> {opt_structure, opt_structure_to_proto, opt_proto, opt_proto_frame}"
  by (subst has_dependency_unfold)
    (auto simp: option_graph_def CONVERT_OPTION_RELATIONS_def has_dependency_stp)

lemma has_dependency_raw: "convert_option_has_dependency opt_raw b \<longleftrightarrow> b \<noteq> opt_none"
proof (cases b)
  case opt_none
  then show ?thesis
    by (subst has_dependency_unfold)
      (auto simp: option_graph_def CONVERT_OPTION_RELATIONS_def has_dependency_leaf has_dependency_structure)
qed (subst has_dependency_unfold, auto simp: option_graph_def CONVERT_OPTION_RELATIONS_def
    has_dependency_leaf has_dependency_structure)+

lemmas has_dependency_table = has_dependency_from_none has_dependency_leaf has_dependency_stp
  has_dependency_structure has_dependency_raw

end
