(* ===== verification/File_Names.thy ===== *)
theory File_Names
  imports Convert_Options "HOL-Library.Char_ord" "HOL-Library.List_Lexorder"
begin

text \<open>
  Names of outputs: the parts of \<^verbatim>\<open>std::filesystem::path\<close> the program uses on names
  (\<^verbatim>\<open>extension\<close> and \<^verbatim>\<open>replace_extension\<close>), \<^verbatim>\<open>insert_index_to_filename\<close> of
  \<^verbatim>\<open>CommonFunctions.hpp\<close> that names the files of the pipeline lines, the output kind of
  a name (\<^verbatim>\<open>get_filetype_from_filename\<close> of \<^verbatim>\<open>DataWriterOptions.hpp\<close>) and the splitting
  of a socket name in \<^verbatim>\<open>sinks/Manager.cpp\<close>. The lemmas show that the files of different
  lines have different names and the kind of the name they come from.
\<close>

section \<open>Paths\<close>

definition after_last :: "'a \<Rightarrow> 'a list \<Rightarrow> 'a list" where
  "after_last c s = rev (takeWhile (\<lambda>x. x \<noteq> c) (rev s))"

lemma after_last_absent: "c \<notin> set s \<Longrightarrow> after_last c s = s"
proof -
  assume "c \<notin> set s"
  then have "takeWhile (\<lambda>x. x \<noteq> c) (rev s) = rev s"
    by (subst takeWhile_eq_all_conv) auto
  then show ?thesis by (simp only: after_last_def rev_rev_ident)
qed

lemma after_last_split: "c \<notin> set t \<Longrightarrow> after_last c (b @ c # t) = t"
proof -
  assume "c \<notin> set t"
  then have "takeWhile (\<lambda>x. x \<noteq> c) (rev t @ c # rev b) = rev t"
    by (subst takeWhile_append2) auto
  then show ?thesis by (simp add: after_last_def)
qed

definition fs_filename :: "string \<Rightarrow> string" where
  "fs_filename p = after_last (CHR ''/'') p"

text \<open>From the last dot of the last component on; empty for \<^verbatim>\<open>.\<close>, \<^verbatim>\<open>..\<close>, and when the
  only dot is the first character.\<close>

definition name_extension :: "string \<Rightarrow> string" where
  "name_extension f =
     (if f = ''.'' \<or> f = ''..'' \<or> CHR ''.'' \<notin> set f then []
      else
        let tail = after_last (CHR ''.'') f
        in if length f = Suc (length tail) then [] else CHR ''.'' # tail)"

definition fs_extension :: "string \<Rightarrow> string" where
  "fs_extension p = name_extension (fs_filename p)"

definition fs_replace_extension :: "string \<Rightarrow> string" where
  "fs_replace_extension p = take (length p - length (fs_extension p)) p"

section \<open>Numbers in decimal\<close>

definition digit_char :: "nat \<Rightarrow> char" where
  "digit_char d = char_of (48 + d)"

fun format_nat :: "nat \<Rightarrow> string" where
  "format_nat n = (if n < 10 then [digit_char n] else format_nat (n div 10) @ [digit_char (n mod 10)])"

declare format_nat.simps [simp del]

fun parse_digits :: "nat \<Rightarrow> string \<Rightarrow> nat" where
  "parse_digits a [] = a"
| "parse_digits a (c # cs) = parse_digits (10 * a + (of_char c - 48)) cs"

lemma parse_digits_append: "parse_digits a (xs @ ys) = parse_digits (parse_digits a xs) ys"
  by (induction a xs rule: parse_digits.induct) simp_all

lemma of_digit_char: "d < 10 \<Longrightarrow> of_char (digit_char d) = 48 + d"
  by (simp add: digit_char_def)

lemma parse_format_nat: "parse_digits 0 (format_nat n) = n"
proof (induction n rule: format_nat.induct)
  case (1 n)
  then show ?case
    by (subst format_nat.simps) (auto simp: parse_digits_append of_digit_char)
qed

lemma format_nat_inj: "format_nat m = format_nat n \<longleftrightarrow> m = n"
  by (metis parse_format_nat)

lemma set_format_nat: "set (format_nat n) \<subseteq> digit_char ` {..<10}"
proof (induction n rule: format_nat.induct)
  case (1 n)
  then show ?case by (subst format_nat.simps) auto
qed

lemma format_nat_no_special:
  "c \<in> {CHR ''.'', CHR ''/'', CHR '':'', CHR ''?'', CHR ''_''} \<Longrightarrow> c \<notin> set (format_nat n)"
proof
  assume c: "c \<in> {CHR ''.'', CHR ''/'', CHR '':'', CHR ''?'', CHR ''_''}" "c \<in> set (format_nat n)"
  then obtain d where d: "d < 10" "c = digit_char d" using set_format_nat [of n] by auto
  have "(of_char c :: nat) \<notin> {48..<58}" using c(1) by auto
  then show False using d of_digit_char [of d] by simp
qed

section \<open>The files of the lines\<close>

definition insert_index_to_filename :: "string \<Rightarrow> nat \<Rightarrow> string" where
  "insert_index_to_filename native_name idx =
     (let extension = fs_extension native_name;
          file_basename = fs_replace_extension native_name
      in file_basename @ ''_'' @ format_nat idx @ extension)"

lemma insert_index_inj:
  "insert_index_to_filename f i = insert_index_to_filename f j \<longleftrightarrow> i = j"
  by (auto simp: insert_index_to_filename_def Let_def format_nat_inj)

text \<open>The file names a sink with \<open>n\<close> lines opens.\<close>

definition line_filenames :: "string \<Rightarrow> nat \<Rightarrow> string list" where
  "line_filenames filename n =
     map (\<lambda>i. if n = 1 then filename else insert_index_to_filename filename i) [0..<n]"

lemma distinct_line_filenames: "distinct (line_filenames f n)"
  by (auto simp: line_filenames_def distinct_map inj_on_def insert_index_inj)

section \<open>The kind of an output\<close>

datatype DataWriterOption = no_output | w_root | w_json | w_bin | w_udp

definition get_filetype_from_filename :: "string \<Rightarrow> DataWriterOption \<times> DataConvertOptions" where
  "get_filetype_from_filename filename =
     (if CHR '':'' \<in> set filename then
        if CHR ''?'' \<in> set filename then (w_udp, opt_raw) else (w_udp, opt_proto)
      else
        let file_ext = fs_extension filename in
        if file_ext = ''.bin'' \<or> file_ext = ''.lmd'' then (w_bin, opt_raw_frame)
        else if file_ext = ''.binpb'' then (w_bin, opt_proto_frame)
        else if file_ext = ''.root'' then (w_root, opt_structure)
        else if file_ext = ''.json'' then (w_json, opt_structure)
        else (no_output, opt_none))"

text \<open>The conversions a kind can come with, as the wiring relies on it.\<close>

lemma filetype_conversion:
  "get_filetype_from_filename f = (w, c) \<Longrightarrow>
     (w = w_udp \<longrightarrow> c \<in> {opt_raw, opt_proto}) \<and> (w = w_bin \<longrightarrow> c \<in> {opt_raw_frame, opt_proto_frame}) \<and>
     (w = w_json \<or> w = w_root \<longrightarrow> c = opt_structure) \<and> (w = no_output \<longleftrightarrow> c = opt_none)"
  by (auto simp: get_filetype_from_filename_def Let_def split: if_splits)

lemma name_extension_intro:
  assumes "b \<noteq> []" "CHR ''.'' \<notin> set t" "b @ CHR ''.'' # t \<noteq> ''..''"
  shows "name_extension (b @ CHR ''.'' # t) = CHR ''.'' # t"
proof -
  have "b @ CHR ''.'' # t \<noteq> ''.''" using assms(1) by (cases b) simp_all
  then show ?thesis using assms by (simp add: name_extension_def after_last_split)
qed

lemma name_extension_cases:
  assumes "name_extension f \<noteq> []"
  shows "\<exists>b t. f = b @ CHR ''.'' # t \<and> b \<noteq> [] \<and> CHR ''.'' \<notin> set t \<and> name_extension f = CHR ''.'' # t"
proof -
  from assms have "CHR ''.'' \<in> set f" by (auto simp: name_extension_def split: if_splits)
  then obtain b t where f: "f = b @ CHR ''.'' # t" "CHR ''.'' \<notin> set t"
    by (meson split_list_last)
  moreover have "b \<noteq> []" "name_extension f = CHR ''.'' # t"
    using assms f by (auto simp: name_extension_def after_last_split Let_def split: if_splits)
  ultimately show ?thesis by blast
qed

lemma fs_filename_split:
  "\<exists>d. p = d @ fs_filename p \<and> (d = [] \<or> last d = CHR ''/'') \<and> CHR ''/'' \<notin> set (fs_filename p)"
proof (cases "CHR ''/'' \<in> set p")
  case True
  then obtain d f where "p = d @ CHR ''/'' # f" "CHR ''/'' \<notin> set f" by (meson split_list_last)
  then show ?thesis
    by (intro exI [of _ "d @ ''/''"]) (simp add: fs_filename_def after_last_split)
qed (simp add: fs_filename_def after_last_absent)

lemma fs_filename_append:
  assumes "CHR ''/'' \<notin> set f" "d = [] \<or> last d = CHR ''/''"
  shows "fs_filename (d @ f) = f"
proof (cases d rule: rev_cases)
  case Nil
  then show ?thesis using assms(1) by (simp add: fs_filename_def after_last_absent)
next
  case (snoc d' c)
  then show ?thesis using assms by (simp add: fs_filename_def after_last_split)
qed

text \<open>Inserting the index of a line keeps the extension, and with it the kind of the file.\<close>

lemma fs_extension_insert_index:
  assumes "fs_extension f \<noteq> []"
  shows "fs_extension (insert_index_to_filename f i) = fs_extension f"
proof -
  obtain d where d: "f = d @ fs_filename f" "d = [] \<or> last d = CHR ''/''" "CHR ''/'' \<notin> set (fs_filename f)"
    using fs_filename_split [of f] by blast
  obtain b t where b: "fs_filename f = b @ CHR ''.'' # t" "b \<noteq> []" "CHR ''.'' \<notin> set t"
    "fs_extension f = CHR ''.'' # t"
    using name_extension_cases [of "fs_filename f"] assms by (auto simp: fs_extension_def)
  have f: "f = (d @ b) @ CHR ''.'' # t" using d(1) b(1) by simp
  have "insert_index_to_filename f i = d @ (b @ ''_'' @ format_nat i) @ CHR ''.'' # t"
    using f b(4) by (simp add: insert_index_to_filename_def fs_replace_extension_def Let_def)
  moreover have "CHR ''/'' \<notin> set ((b @ ''_'' @ format_nat i) @ CHR ''.'' # t)"
    using d(3) b(1) format_nat_no_special [of "CHR ''/''" i] by simp
  ultimately have "fs_filename (insert_index_to_filename f i) = (b @ ''_'' @ format_nat i) @ CHR ''.'' # t"
    using fs_filename_append [of _ d] d(2) by simp
  moreover have "(b @ ''_'' @ format_nat i) @ CHR ''.'' # t \<noteq> ''..''"
    using b(2) by (cases b) (auto simp: Cons_eq_append_conv)
  ultimately show ?thesis
    using name_extension_intro [of "b @ ''_'' @ format_nat i" t] b by (simp add: fs_extension_def)
qed

lemma colon_insert_index:
  assumes "c \<in> {CHR '':'', CHR ''?''}"
  shows "c \<in> set (insert_index_to_filename f i) \<longleftrightarrow> c \<in> set f"
proof -
  obtain u where u: "f = u @ fs_extension f"
  proof (cases "fs_extension f = []")
    case False
    then show ?thesis
      using fs_filename_split [of f] name_extension_cases [of "fs_filename f"] that
      by (auto simp: fs_extension_def)
  qed (use that [of f] in simp)
  have "length f - length (fs_extension f) = length u"
    using arg_cong [OF u, of length] by simp
  then have "fs_replace_extension f = u"
    using arg_cong [OF u, of "take (length u)"] by (simp add: fs_replace_extension_def)
  then show ?thesis using arg_cong [OF u, of set] assms format_nat_no_special [of c i]
    by (auto simp: insert_index_to_filename_def Let_def)
qed

text \<open>
  The files a sink opens for the lines of the pipeline have pairwise different names, and
  each has the extension and the output kind of the name the user gave.\<close>

theorem line_files_distinct_same_kind:
  assumes "fst (get_filetype_from_filename f) \<in> {w_bin, w_json, w_root}"
  shows "distinct (line_filenames f n) \<and> length (line_filenames f n) = n \<and>
    (\<forall>g \<in> set (line_filenames f n).
       fs_extension g = fs_extension f \<and> get_filetype_from_filename g = get_filetype_from_filename f)"
proof -
  have colon: "CHR '':'' \<notin> set f" and ext: "fs_extension f \<noteq> []"
    using assms by (auto simp: get_filetype_from_filename_def Let_def split: if_splits)
  have "get_filetype_from_filename (insert_index_to_filename f i) = get_filetype_from_filename f" for i
    using colon ext by (simp add: get_filetype_from_filename_def fs_extension_insert_index colon_insert_index)
  then show ?thesis using ext distinct_line_filenames [of f n]
    by (auto simp: fs_extension_insert_index line_filenames_def)
qed

lemma line_files_distinct_same_kind_witness:
  "distinct (line_filenames ''out/run.v1.binpb'' 12) \<and>
    insert_index_to_filename ''out/run.v1.binpb'' 3 \<in> set (line_filenames ''out/run.v1.binpb'' 12) \<and>
    get_filetype_from_filename (insert_index_to_filename ''out/run.v1.binpb'' 3) =
      get_filetype_from_filename ''out/run.v1.binpb''"
proof -
  have k: "fst (get_filetype_from_filename ''out/run.v1.binpb'') \<in> {w_bin, w_json, w_root}"
    by (simp add: get_filetype_from_filename_def fs_extension_def fs_filename_def name_extension_def
        after_last_def)
  have m: "insert_index_to_filename ''out/run.v1.binpb'' 3 \<in> set (line_filenames ''out/run.v1.binpb'' 12)"
    by (auto simp: line_filenames_def)
  show ?thesis using line_files_distinct_same_kind [OF k, of 12] m by blast
qed

end
