(* ===== verification/Json_Writer.thy ===== *)
theory Json_Writer
  imports Data_Structs Conversion_Task File_Names "HOL-Library.AList"
begin

text \<open>
  The JSON sink of \<^verbatim>\<open>backend/srs/sinks/JsonWriter.{hpp,cpp}\<close>: every structure is
  transposed into columns (\<^verbatim>\<open>CompactExportData\<close>) and written as an element of one JSON
  array per line. The text of an element is made by the library \<^verbatim>\<open>glaze\<close>, a parameter
  \<open>glz\<close> that may fail. The column maps are association lists over the keys of the source;
  \<^verbatim>\<open>at\<close> of a key that is missing is the exception \<open>OutOfRange\<close>, which the lemmas rule
  out.
\<close>

datatype json_error = OutOfRange | CannotInterpret | CannotOpen string

record CompactExportData =
  ced_header :: ReceiveDataHeader
  ced_marker_size :: nat
  ced_hit_size :: nat
  ced_marker_data :: "(string \<times> u64 list) list"
  ced_hit_data :: "(string \<times> u16 list) list"

definition default_CompactExportData :: CompactExportData where
  "default_CompactExportData = \<lparr>ced_header = default_header, ced_marker_size = 0, ced_hit_size = 0,
     ced_marker_data = [(''srs_timestamp'', []), (''vmm_id'', [])],
     ced_hit_data = [(''adc'', []), (''bc_id'', []), (''channel_num'', []), (''is_over_threshold'', []),
       (''offset'', []), (''tdc'', []), (''vmm_id'', [])]\<rparr>"

text \<open>\<^verbatim>\<open>m.at(key).push_back(v)\<close>.\<close>

definition at_push_back ::
  "string \<Rightarrow> 'v \<Rightarrow> (string \<times> 'v list) list \<Rightarrow> json_error + (string \<times> 'v list) list" where
  "at_push_back key v m =
     (case map_of m key of None \<Rightarrow> Inl OutOfRange | Some vs \<Rightarrow> Inr (AList.update key (vs @ [v]) m))"

fun push_hits :: "HitData list \<Rightarrow> (string \<times> u16 list) list \<Rightarrow> json_error + (string \<times> u16 list) list" where
  "push_hits [] m = Inr m"
| "push_hits (h # hs) m =
     and_then (and_then (and_then (and_then (and_then (and_then (and_then
       (at_push_back ''is_over_threshold'' (of_bool (is_over_threshold h)) m)
       (at_push_back ''channel_num'' (ucast (channel_num h))))
       (at_push_back ''tdc'' (ucast (tdc h))))
       (at_push_back ''offset'' (ucast (offset h))))
       (at_push_back ''vmm_id'' (ucast (vmm_id h))))
       (at_push_back ''adc'' (adc h)))
       (at_push_back ''bc_id'' (bc_id h)))
       (push_hits hs)"

fun push_markers :: "MarkerData list \<Rightarrow> (string \<times> u64 list) list \<Rightarrow> json_error + (string \<times> u64 list) list" where
  "push_markers [] m = Inr m"
| "push_markers (x # xs) m =
     and_then (and_then
       (at_push_back ''vmm_id'' (ucast (marker_vmm_id x)) m)
       (at_push_back ''srs_timestamp'' (srs_timestamp x)))
       (push_markers xs)"

definition clear_columns :: "(string \<times> 'v list) list \<Rightarrow> (string \<times> 'v list) list" where
  "clear_columns m = map (\<lambda>(key, vs). (key, [])) m"

definition fill_hit_data :: "HitData list \<Rightarrow> CompactExportData \<Rightarrow> json_error + CompactExportData" where
  "fill_hit_data hits d =
     (let d = d\<lparr>ced_hit_size := length hits\<rparr>;
          d = d\<lparr>ced_hit_data := clear_columns (ced_hit_data d)\<rparr>
      in and_then (push_hits hits (ced_hit_data d)) (\<lambda>m. Inr (d\<lparr>ced_hit_data := m\<rparr>)))"

definition fill_marker_data :: "MarkerData list \<Rightarrow> CompactExportData \<Rightarrow> json_error + CompactExportData" where
  "fill_marker_data markers d =
     (let d = d\<lparr>ced_marker_size := length markers\<rparr>;
          d = d\<lparr>ced_marker_data := clear_columns (ced_marker_data d)\<rparr>
      in and_then (push_markers markers (ced_marker_data d)) (\<lambda>m. Inr (d\<lparr>ced_marker_data := m\<rparr>)))"

definition ced_set_value :: "StructData \<Rightarrow> CompactExportData \<Rightarrow> json_error + CompactExportData" where
  "ced_set_value s d =
     and_then (fill_hit_data (hit_data s) (d\<lparr>ced_header := header s\<rparr>)) (fill_marker_data (marker_data s))"

section \<open>The sink\<close>

record Json =
  js_is_first_item :: "bool list"
  js_output_data :: "nat list"
  js_file_streams :: "string list"
  js_data_buffers :: "CompactExportData list"
  js_string_buffers :: "string list"

text \<open>The constructor opens all files, then writes the opening bracket to each in turn; a
  file that is not open is an exception. \<open>can_open\<close> says which names can be opened.\<close>

definition mk_Json :: "(string \<Rightarrow> bool) \<Rightarrow> string \<Rightarrow> nat \<Rightarrow> json_error + Json" where
  "mk_Json can_open filename n_lines =
     (if list_all can_open (line_filenames filename n_lines)
      then Inr \<lparr>js_is_first_item = replicate n_lines True, js_output_data = replicate n_lines 0,
        js_file_streams = replicate n_lines ''[\<newline>'',
        js_data_buffers = replicate n_lines default_CompactExportData,
        js_string_buffers = replicate n_lines []\<rparr>
      else Inl (CannotOpen filename))"

definition js_write :: "nat \<Rightarrow> string \<Rightarrow> Json \<Rightarrow> Json" where
  "js_write line text js =
     js\<lparr>js_file_streams := (js_file_streams js)[line := js_file_streams js ! line @ text]\<rparr>"

definition write_json ::
  "(CompactExportData \<Rightarrow> string option) \<Rightarrow> Json \<Rightarrow> StructData \<Rightarrow> nat \<Rightarrow> (json_error + unit) \<times> Json" where
  "write_json glz js s line =
     (let js = (if \<not> js_is_first_item js ! line then js_write line '', '' js
                else js\<lparr>js_is_first_item := (js_is_first_item js)[line := False]\<rparr>)
      in case ced_set_value s (js_data_buffers js ! line) of
           Inl e \<Rightarrow> (Inl e, js)
         | Inr d \<Rightarrow>
             let js = js\<lparr>js_data_buffers := (js_data_buffers js)[line := d]\<rparr>
             in case glz d of
                  None \<Rightarrow> (Inl CannotInterpret, js)
                | Some text \<Rightarrow>
                    let js = js\<lparr>js_string_buffers := (js_string_buffers js)[line := text]\<rparr>;
                        js = js\<lparr>js_output_data := (js_output_data js)[line := length text]\<rparr>;
                        js = js_write line text js
                    in (Inr (), js\<lparr>js_string_buffers := (js_string_buffers js)[line := []]\<rparr>))"

definition js_run ::
  "(CompactExportData \<Rightarrow> string option) \<Rightarrow> Json \<Rightarrow> StructData \<Rightarrow> nat \<Rightarrow> (json_error + nat) \<times> Json" where
  "js_run glz js s line =
     (case write_json glz js s line of
        (Inl e, js) \<Rightarrow> (Inl e, js)
      | (Inr _, js) \<Rightarrow> (Inr (js_output_data js ! line), js))"

text \<open>The destructor closes the array of every line.\<close>

definition js_close :: "Json \<Rightarrow> string list" where
  "js_close js = map (\<lambda>text. text @ '']\<newline>'') (js_file_streams js)"

section \<open>Columns\<close>

definition hit_columns :: "HitData list \<Rightarrow> (string \<times> u16 list) list" where
  "hit_columns hs = [(''adc'', map adc hs), (''bc_id'', map bc_id hs),
     (''channel_num'', map (\<lambda>h. ucast (channel_num h)) hs),
     (''is_over_threshold'', map (\<lambda>h. of_bool (is_over_threshold h)) hs),
     (''offset'', map (\<lambda>h. ucast (offset h)) hs), (''tdc'', map (\<lambda>h. ucast (tdc h)) hs),
     (''vmm_id'', map (\<lambda>h. ucast (vmm_id h)) hs)]"

definition marker_columns :: "MarkerData list \<Rightarrow> (string \<times> u64 list) list" where
  "marker_columns ms = [(''srs_timestamp'', map srs_timestamp ms),
     (''vmm_id'', map (\<lambda>m. ucast (marker_vmm_id m)) ms)]"

definition export_of :: "StructData \<Rightarrow> CompactExportData" where
  "export_of s = \<lparr>ced_header = header s, ced_marker_size = length (marker_data s),
     ced_hit_size = length (hit_data s), ced_marker_data = marker_columns (marker_data s),
     ced_hit_data = hit_columns (hit_data s)\<rparr>"

definition ced_keys_ok :: "CompactExportData \<Rightarrow> bool" where
  "ced_keys_ok d \<longleftrightarrow> map fst (ced_hit_data d) = map fst (hit_columns []) \<and>
     map fst (ced_marker_data d) = map fst (marker_columns [])"

lemma push_hit_columns: "push_hits (h # hs) (hit_columns us) = push_hits hs (hit_columns (us @ [h]))"
  by (simp add: hit_columns_def at_push_back_def)

lemma push_hits_columns: "push_hits hs (hit_columns us) = Inr (hit_columns (us @ hs))"
  by (induction hs arbitrary: us) (simp_all add: push_hit_columns del: push_hits.simps(2))

lemma push_marker_columns:
  "push_markers (m # ms) (marker_columns us) = push_markers ms (marker_columns (us @ [m]))"
  by (simp add: marker_columns_def at_push_back_def)

lemma push_markers_columns: "push_markers ms (marker_columns us) = Inr (marker_columns (us @ ms))"
  by (induction ms arbitrary: us) (simp_all add: push_marker_columns del: push_markers.simps(2))

lemma clear_columns_keys: "clear_columns m = map (\<lambda>key. (key, [])) (map fst m)"
  by (induction m) (auto simp: clear_columns_def)

lemma clear_hit_columns: "map fst m = map fst (hit_columns []) \<Longrightarrow> clear_columns m = hit_columns []"
  by (simp add: clear_columns_keys hit_columns_def del: map_map)

lemma clear_marker_columns:
  "map fst m = map fst (marker_columns []) \<Longrightarrow> clear_columns m = marker_columns []"
  by (simp add: clear_columns_keys marker_columns_def del: map_map)

lemma ced_set_value_eq: "ced_keys_ok d \<Longrightarrow> ced_set_value s d = Inr (export_of s)"
  using push_hits_columns [of "hit_data s" "[]"] push_markers_columns [of "marker_data s" "[]"]
  by (cases d) (simp add: ced_keys_ok_def ced_set_value_def fill_hit_data_def fill_marker_data_def
      clear_hit_columns clear_marker_columns export_of_def Let_def)

lemma export_keys_ok: "ced_keys_ok (export_of s)"
  by (simp add: ced_keys_ok_def export_of_def hit_columns_def marker_columns_def)


section \<open>The file of a line\<close>

definition js_n_lines :: "Json \<Rightarrow> nat" where
  "js_n_lines js = min (min (length (js_is_first_item js)) (length (js_output_data js)))
     (min (length (js_file_streams js)) (min (length (js_data_buffers js)) (length (js_string_buffers js))))"

definition js_slot :: "Json \<Rightarrow> nat \<Rightarrow> bool \<times> nat \<times> string \<times> CompactExportData \<times> string" where
  "js_slot js k = (js_is_first_item js ! k, js_output_data js ! k, js_file_streams js ! k,
     js_data_buffers js ! k, js_string_buffers js ! k)"

lemma js_write_simps [simp]:
  "js_is_first_item (js_write k t js) = js_is_first_item js"
  "js_output_data (js_write k t js) = js_output_data js"
  "js_file_streams (js_write k t js) = (js_file_streams js)[k := js_file_streams js ! k @ t]"
  "js_data_buffers (js_write k t js) = js_data_buffers js"
  "js_string_buffers (js_write k t js) = js_string_buffers js"
  by (simp_all add: js_write_def)

text \<open>A run, read off the slot of its line.\<close>

definition js_run_slot ::
  "(CompactExportData \<Rightarrow> string option) \<Rightarrow> StructData \<Rightarrow> bool \<times> nat \<times> string \<times> CompactExportData \<times> string \<Rightarrow>
     (json_error + nat) \<times> bool \<times> nat \<times> string \<times> CompactExportData \<times> string" where
  "js_run_slot glz s slot = (case slot of (first, out, text, d, buf) \<Rightarrow>
     let text = (if first then text else text @ '', '') in
     case ced_set_value s d of
       Inl e \<Rightarrow> (Inl e, False, out, text, d, buf)
     | Inr d \<Rightarrow> (case glz d of
         None \<Rightarrow> (Inl CannotInterpret, False, out, text, d, buf)
       | Some item \<Rightarrow> (Inr (length item), False, length item, text @ item, d, [])))"

lemma js_run_cases:
  assumes "k < js_n_lines js"
  shows "js_n_lines (snd (js_run glz js s k)) = js_n_lines js \<and>
    fst (js_run glz js s k) = fst (js_run_slot glz s (js_slot js k)) \<and>
    js_slot (snd (js_run glz js s k)) j =
      (if j = k then snd (js_run_slot glz s (js_slot js k)) else js_slot js j)"
proof (cases "ced_set_value s (js_data_buffers js ! k)")
  case (Inl e)
  then show ?thesis using assms
    by (cases "js_is_first_item js ! k")
      (simp_all add: js_run_def write_json_def js_run_slot_def js_slot_def js_n_lines_def)
next
  case (Inr d)
  then show ?thesis using assms
    by (cases "js_is_first_item js ! k"; cases "glz d")
      (simp_all add: js_run_def write_json_def js_run_slot_def js_slot_def js_n_lines_def)
qed

lemma js_n_lines_run: "js_n_lines (snd (js_run glz js s k)) = js_n_lines js"
proof (cases "ced_set_value s (js_data_buffers js ! k)")
  case (Inl e)
  then show ?thesis
    by (cases "js_is_first_item js ! k") (simp_all add: js_run_def write_json_def js_n_lines_def)
next
  case (Inr d)
  then show ?thesis
    by (cases "js_is_first_item js ! k"; cases "glz d")
      (simp_all add: js_run_def write_json_def js_n_lines_def)
qed

lemma js_run_slot_view: "fst (js_run_slot glz s slot) = Inr n \<Longrightarrow> fst (snd (snd (js_run_slot glz s slot))) = n"
  by (auto simp: js_run_slot_def split: prod.splits sum.splits option.splits)

interpretation json: line_task js_n_lines js_slot "js_run glz" "\<lambda>slot. fst (snd slot)" for glz
  by unfold_locales
    (auto simp: js_n_lines_run js_run_cases dest: js_run_slot_view)

text \<open>The buffers of every line have their columns, so a run throws exactly when glaze does not
  write the structure.\<close>

definition js_keys_ok :: "Json \<Rightarrow> bool" where
  "js_keys_ok js \<longleftrightarrow> (\<forall>k < js_n_lines js. ced_keys_ok (js_data_buffers js ! k))"

lemma js_run_outcome:
  assumes "js_keys_ok js" "k < js_n_lines js"
  shows "fst (js_run glz js s k) = (case glz (export_of s) of None \<Rightarrow> Inl CannotInterpret | Some text \<Rightarrow> Inr (length text))"
  using assms js_run_cases [OF assms(2), of glz s k]
  by (auto simp: js_keys_ok_def js_run_slot_def js_slot_def ced_set_value_eq split: option.split)

lemma js_run_buffers:
  "js_data_buffers (snd (js_run glz js s k)) = js_data_buffers js \<or>
   (\<exists>d. ced_set_value s (js_data_buffers js ! k) = Inr d \<and>
      js_data_buffers (snd (js_run glz js s k)) = (js_data_buffers js)[k := d])"
proof (cases "ced_set_value s (js_data_buffers js ! k)")
  case (Inr d)
  then show ?thesis by (cases "js_is_first_item js ! k"; cases "glz d") (simp_all add: js_run_def write_json_def)
qed (cases "js_is_first_item js ! k"; simp add: js_run_def write_json_def)

lemma js_keys_ok_run:
  assumes "js_keys_ok js"
  shows "js_keys_ok (snd (js_run glz js s k))"
proof -
  have len: "j < js_n_lines js \<Longrightarrow> j < length (js_data_buffers js)" for j by (simp add: js_n_lines_def)
  have "ced_keys_ok d" if "k < js_n_lines js" "ced_set_value s (js_data_buffers js ! k) = Inr d" for d
    using assms that export_keys_ok [of s] by (simp add: js_keys_ok_def ced_set_value_eq)
  then have "ced_keys_ok (js_data_buffers (snd (js_run glz js s k)) ! j)" if "j < js_n_lines js" for j
    using js_run_buffers [of glz js s k] assms that len by (cases "j = k") (auto simp: js_keys_ok_def)
  then show ?thesis using js_n_lines_run by (simp add: js_keys_ok_def)
qed

text \<open>The text of a line: the elements, separated, after the opening bracket.\<close>

fun join_items :: "string list \<Rightarrow> string" where
  "join_items [] = []"
| "join_items [x] = x"
| "join_items (x # y # xs) = x @ '', '' @ join_items (y # xs)"

lemma join_items_snoc: "join_items (xs @ [x]) = (if xs = [] then x else join_items xs @ '', '' @ x)"
  by (induction xs rule: join_items.induct) simp_all

definition js_holds :: "Json \<Rightarrow> nat \<Rightarrow> string list \<Rightarrow> bool" where
  "js_holds js line texts \<longleftrightarrow> line < js_n_lines js \<and>
     (js_is_first_item js ! line \<longleftrightarrow> texts = []) \<and>
     js_file_streams js ! line = ''[\<newline>'' @ join_items texts \<and> ced_keys_ok (js_data_buffers js ! line)"

lemma js_holds_mk: "mk_Json can_open f n = Inr js \<Longrightarrow> line < n \<Longrightarrow> js_holds js line []"
  by (auto simp: mk_Json_def js_holds_def js_n_lines_def default_CompactExportData_def ced_keys_ok_def
      hit_columns_def marker_columns_def split: if_splits)

lemma js_keys_ok_mk: "mk_Json can_open f n = Inr js \<Longrightarrow> js_keys_ok js"
  by (auto simp: mk_Json_def js_keys_ok_def js_n_lines_def default_CompactExportData_def ced_keys_ok_def
      hit_columns_def marker_columns_def split: if_splits)

lemma js_holds_run:
  assumes "js_holds js line texts" "glz (export_of s) = Some text"
  shows "fst (js_run glz js s line) = Inr (length text) \<and>
    js_holds (snd (js_run glz js s line)) line (texts @ [text])"
  using assms by (simp add: js_holds_def js_run_def write_json_def js_write_def js_n_lines_def
      ced_set_value_eq export_keys_ok join_items_snoc Let_def)

text \<open>Writing a sequence of structures, stopping at the first exception.\<close>

fun js_run_list ::
  "(CompactExportData \<Rightarrow> string option) \<Rightarrow> Json \<Rightarrow> StructData list \<Rightarrow> nat \<Rightarrow> (json_error + unit) \<times> Json" where
  "js_run_list glz js [] line = (Inr (), js)"
| "js_run_list glz js (s # ss) line =
     (case js_run glz js s line of
        (Inl e, js) \<Rightarrow> (Inl e, js)
      | (Inr _, js) \<Rightarrow> js_run_list glz js ss line)"

lemma js_run_list_holds:
  assumes "js_holds js line texts" "\<forall>s \<in> set ss. glz (export_of s) = Some (f s)"
  shows "\<exists>js'. js_run_list glz js ss line = (Inr (), js') \<and> js_holds js' line (texts @ map f ss)"
  using assms
proof (induction ss arbitrary: js texts)
  case Nil
  then show ?case by simp
next
  case (Cons s ss)
  obtain js1 where js1: "js_run glz js s line = (Inr (length (f s)), js1)" "js_holds js1 line (texts @ [f s])"
    using js_holds_run [OF Cons.prems(1), of glz s "f s"] Cons.prems(2)
    by (cases "js_run glz js s line") auto
  then show ?case using Cons.IH [OF js1(2)] Cons.prems(2) by auto
qed

section \<open>Properties\<close>

text \<open>
  C14. The JSON file of a line is one well-bracketed array: after any sequence of structures the
  closed file holds their elements in order, separated by commas, and nothing else. Each element
  is the transposition of its structure, one column per field, whatever was written before; no
  column look-up fails.\<close>

theorem json_file_content:
  assumes "mk_Json can_open filename n_lines = Inr js" "line < n_lines"
    "\<forall>s \<in> set ss. glz (export_of s) = Some (f s)"
  shows "\<exists>js'. js_run_list glz js ss line = (Inr (), js') \<and>
    js_close js' ! line = ''[\<newline>'' @ join_items (map f ss) @ '']\<newline>''"
proof -
  obtain js' where "js_run_list glz js ss line = (Inr (), js')" "js_holds js' line (map f ss)"
    using js_run_list_holds [OF js_holds_mk [OF assms(1,2)] assms(3)] by auto
  then show ?thesis by (auto simp: js_holds_def js_close_def js_n_lines_def)
qed

lemma json_file_content_witness:
  "\<exists>js'. js_run_list (\<lambda>d. Some (format_nat (ced_hit_size d)))
      (case mk_Json (\<lambda>_. True) ''a.json'' 2 of Inr js \<Rightarrow> js)
      [sample_struct, default_struct] 1 = (Inr (), js') \<and>
    js_close js' ! 1 = ''[\<newline>'' @ join_items (map (\<lambda>s. format_nat (length (hit_data s)))
      [sample_struct, default_struct]) @ '']\<newline>''"
  by (rule json_file_content [where can_open = "\<lambda>_. True" and filename = "''a.json''" and n_lines = 2])
    (simp_all add: mk_Json_def export_of_def list_all_iff)

end
