(* ===== verification/Root_Writer.thy ===== *)
theory Root_Writer
  imports Data_Structs File_Names Conversion_Task
begin

text \<open>
  The ROOT sink, \<^verbatim>\<open>sink::RootFile\<close> of \<^verbatim>\<open>sinks/RootFileWriter.{hpp,cpp}\<close>, in a build with ROOT: a
  file with one tree for every pipeline line. Trees belong to the library and are a parameter:
  \<open>root_documented\<close> states that a new tree has no entries, and that \<^verbatim>\<open>TTree::Fill\<close> appends what
  is at the address of its branch unless it returns a negative number. Files are what has been
  written to them, by key. The lemmas give the content of every file, and what the sink makes of
  a fill that fails. The manager of the sinks keeps trees as \<open>TTree\<close>, the list of their entries.
\<close>

section \<open>Trees and files\<close>

record 't root_trees =
  rt_new :: 't
  rt_fill :: "StructData \<Rightarrow> 't \<Rightarrow> int \<times> 't"
  rt_entries :: "'t \<Rightarrow> StructData list"

definition root_documented :: "'t root_trees \<Rightarrow> bool" where
  "root_documented lib \<longleftrightarrow> rt_entries lib (rt_new lib) = [] \<and>
     (\<forall>s t. 0 \<le> fst (rt_fill lib s t) \<longrightarrow> rt_entries lib (snd (rt_fill lib s t)) = rt_entries lib t @ [s])"

type_synonym TTree = "StructData list"

record 't TFile =
  tf_name :: string
  tf_keys :: "(string \<times> 't) list"
  tf_is_open :: bool

record 't RootFile =
  rf_files :: "'t TFile list"
  rf_trees :: "'t list"
  rf_data_struct_buffers :: "StructData list"
  rf_output_data :: "u64 list"

definition mk_RootFile :: "'t root_trees \<Rightarrow> string \<Rightarrow> nat \<Rightarrow> 't RootFile" where
  "mk_RootFile lib filename n_lines =
     \<lparr>rf_files = map (\<lambda>full_filename. \<lparr>tf_name = full_filename, tf_keys = [], tf_is_open = True\<rparr>)
        (line_filenames filename n_lines),
      rf_trees = replicate n_lines (rt_new lib), rf_data_struct_buffers = replicate n_lines default_struct,
      rf_output_data = replicate n_lines 0\<rparr>"

text \<open>The branch of a tree points at the buffer of its line. The \<^verbatim>\<open>Int_t\<close> of \<^verbatim>\<open>Fill\<close> is cast to
  \<^verbatim>\<open>size_t\<close>.\<close>

definition rf_run :: "'t root_trees \<Rightarrow> 't RootFile \<Rightarrow> StructData \<Rightarrow> nat \<Rightarrow> ('e + u64) \<times> 't RootFile" where
  "rf_run lib rf input_data line =
     (let rf = rf\<lparr>rf_data_struct_buffers := (rf_data_struct_buffers rf)[line := input_data]\<rparr>;
          (filled, tree) = rt_fill lib (rf_data_struct_buffers rf ! line) (rf_trees rf ! line);
          rf = rf\<lparr>rf_trees := (rf_trees rf)[line := tree]\<rparr>;
          rf = rf\<lparr>rf_output_data := (rf_output_data rf)[line := word_of_int filled]\<rparr>
      in (Inr (rf_output_data rf ! line), rf))"

text \<open>The destructor writes the tree of every line to its file under the tree's name and closes
  the file.\<close>

definition tree_name :: string where "tree_name = ''srs_data_tree''"

definition destroy_RootFile :: "'t RootFile \<Rightarrow> 't TFile list" where
  "destroy_RootFile rf = map (\<lambda>(root_file, tree).
     let root_file = root_file\<lparr>tf_keys := tf_keys root_file @ [(tree_name, tree)]\<rparr>
     in root_file\<lparr>tf_is_open := False\<rparr>) (zip (rf_files rf) (rf_trees rf))"

text \<open>Trees as the lists of their entries.\<close>

definition root_ref :: "StructData list root_trees" where
  "root_ref = \<lparr>rt_new = [], rt_fill = (\<lambda>s t. (1, t @ [s])), rt_entries = id\<rparr>"

section \<open>The lines\<close>

definition rf_n_lines :: "'t RootFile \<Rightarrow> nat" where
  "rf_n_lines rf = min (length (rf_trees rf)) (min (length (rf_data_struct_buffers rf)) (length (rf_output_data rf)))"

interpretation root_file: line_task rf_n_lines
  "\<lambda>rf k. (rf_trees rf ! k, rf_data_struct_buffers rf ! k, rf_output_data rf ! k)" "rf_run lib" "\<lambda>x. snd (snd x)" for lib
  by unfold_locales (auto simp: rf_run_def rf_n_lines_def split_def Let_def)

lemma rf_n_lines_mk: "rf_n_lines (mk_RootFile lib f n) = n"
  by (simp add: rf_n_lines_def mk_RootFile_def)

lemma rf_run_fields:
  "rf_files (snd (rf_run lib rf s k)) = rf_files rf"
  "rf_trees (snd (rf_run lib rf s k)) = (rf_trees rf)[k := snd (rt_fill lib ((rf_data_struct_buffers rf)[k := s] ! k) (rf_trees rf ! k))]"
  "length (rf_data_struct_buffers (snd (rf_run lib rf s k))) = length (rf_data_struct_buffers rf)"
  "length (rf_output_data (snd (rf_run lib rf s k))) = length (rf_output_data rf)"
  by (simp_all add: rf_run_def split_def Let_def)

text \<open>The structures of a line in a sequence of runs.\<close>

definition structs_of :: "nat \<Rightarrow> (nat \<times> StructData) list \<Rightarrow> StructData list" where
  "structs_of k runs = map snd (filter (\<lambda>r. fst r = k) runs)"

definition run_root :: "'t root_trees \<Rightarrow> (nat \<times> StructData) list \<Rightarrow> 't RootFile \<Rightarrow> 't RootFile" where
  "run_root lib runs rf = fold (\<lambda>(k, s) rf. snd (rf_run lib rf s k :: (unit + u64) \<times> _)) runs rf"

lemma run_root_entries:
  assumes "root_documented lib" "\<And>s t. 0 \<le> fst (rt_fill lib s t)" "\<forall>(k, s) \<in> set runs. k < rf_n_lines rf"
    and "k < rf_n_lines rf"
  shows "rt_entries lib (rf_trees (run_root lib runs rf) ! k) = rt_entries lib (rf_trees rf ! k) @ structs_of k runs \<and>
    rf_files (run_root lib runs rf) = rf_files rf \<and> length (rf_trees (run_root lib runs rf)) = length (rf_trees rf)"
  using assms(3,4)
proof (induction runs arbitrary: rf)
  case Nil
  then show ?case by (simp add: run_root_def structs_of_def)
next
  case (Cons r runs)
  obtain j s where r: "r = (j, s)" by (cases r)
  let ?rf = "snd (rf_run lib rf s j :: (unit + u64) \<times> _)"
  have n: "rf_n_lines ?rf = rf_n_lines rf" by (rule root_file.n_lines_run)
  have j: "j < rf_n_lines rf" "j < length (rf_trees rf)" "j < length (rf_data_struct_buffers rf)"
    using Cons.prems(1) by (simp_all add: r rf_n_lines_def)
  have "rt_entries lib (rf_trees ?rf ! k) = rt_entries lib (rf_trees rf ! k) @ (if j = k then [s] else [])"
    using assms(1,2) j by (auto simp: rf_run_fields root_documented_def)
  then show ?case using Cons.IH [of ?rf] Cons.prems n
    by (simp add: r run_root_def structs_of_def rf_run_fields)
qed

text \<open>A fill that fails is reported as a success, with an enormous size.\<close>

lemma failed_fill:
  "fst (rt_fill lib s (rf_trees rf ! k)) = -1 \<Longrightarrow> k < rf_n_lines rf \<Longrightarrow> fst (rf_run lib rf s k) = Inr (2 ^ 64 - 1)"
  by (simp add: rf_run_def rf_n_lines_def split_def Let_def)

section \<open>Properties\<close>

text \<open>
  The ROOT files of a run: whatever the order of the runs on the lines, each line has a file
  of its own, closed at the end, with exactly one object, the tree, whose entries are the
  structures of this line in their order.\<close>

theorem root_files_content:
  assumes "root_documented lib" "\<And>s t. 0 \<le> fst (rt_fill lib s t)" "\<forall>(k, s) \<in> set runs. k < n"
  shows "map tf_name (destroy_RootFile (run_root lib runs (mk_RootFile lib filename n))) = line_filenames filename n \<and>
    distinct (line_filenames filename n) \<and>
    (\<forall>k < n. \<exists>tree. destroy_RootFile (run_root lib runs (mk_RootFile lib filename n)) ! k =
       \<lparr>tf_name = line_filenames filename n ! k, tf_keys = [(tree_name, tree)], tf_is_open = False\<rparr> \<and>
       rt_entries lib tree = structs_of k runs)"
proof -
  let ?rf = "mk_RootFile lib filename n" let ?fin = "run_root lib runs ?rf"
  have rf: "rf_n_lines ?rf = n" "length (line_filenames filename n) = n" "length (rf_trees ?rf) = n"
    "length (rf_files ?rf) = n"
    by (simp_all add: rf_n_lines_def mk_RootFile_def line_filenames_def)
  note run = run_root_entries [OF assms(1,2), of runs ?rf]
  have len: "length (rf_files ?fin) = n \<and> length (rf_trees ?fin) = n"
  proof (cases "n = 0")
    case True
    then have "runs = []" using assms(3) by (cases runs) auto
    then show ?thesis using rf by (simp add: run_root_def)
  next
    case False
    then show ?thesis using run [of 0] assms(3) rf by simp
  qed
  have files: "\<exists>tree. destroy_RootFile ?fin ! k =
       \<lparr>tf_name = line_filenames filename n ! k, tf_keys = [(tree_name, tree)], tf_is_open = False\<rparr> \<and>
       rt_entries lib tree = structs_of k runs" if "k < n" for k
  proof -
    have "rf_files ?fin ! k = \<lparr>tf_name = line_filenames filename n ! k, tf_keys = [], tf_is_open = True\<rparr>"
      using run [of k] that assms(3) rf by (simp add: mk_RootFile_def)
    moreover have "rt_entries lib (rf_trees ?fin ! k) = structs_of k runs"
      using run [of k] that assms(1,3) rf by (simp add: mk_RootFile_def root_documented_def)
    ultimately show ?thesis using len that by (simp add: destroy_RootFile_def Let_def)
  qed
  have "length (destroy_RootFile ?fin) = n" using len by (simp add: destroy_RootFile_def)
  then have "map tf_name (destroy_RootFile ?fin) = line_filenames filename n"
    using rf(2) by (intro nth_equalityI) (auto dest!: files)
  then show ?thesis using files distinct_line_filenames by blast
qed

lemma root_files_content_witness:
  "destroy_RootFile (run_root root_ref [(1, default_struct), (0, s), (1, s)] (mk_RootFile root_ref ''a.root'' 2)) ! 1 =
     \<lparr>tf_name = ''a_1.root'', tf_keys = [(tree_name, [default_struct, s])], tf_is_open = False\<rparr>"
proof -
  have "root_documented root_ref" "\<And>s t. 0 \<le> fst (rt_fill root_ref s t)" "rt_entries root_ref = id"
    by (simp_all add: root_documented_def root_ref_def)
  moreover have "line_filenames ''a.root'' 2 ! 1 = ''a_1.root''" by code_simp
  ultimately show ?thesis
    using root_files_content [of root_ref "[(1, default_struct), (0, s), (1, s)]" 2 "''a.root''"]
    by (auto simp: structs_of_def)
qed

end
