(* ===== verification/Struct_Serializer.thy ===== *)
theory Struct_Serializer
  imports Data_Structs Zpp_Archive
begin

text \<open>
  \<^verbatim>\<open>StructSerializer\<close> of \<^verbatim>\<open>backend/srs/converters/StructSerializer.{hpp,cpp}\<close>: a
  \<^verbatim>\<open>StructData\<close> becomes the byte frame an FEC sends, sixteen bytes of header followed by
  six bytes per hit and per marker. The state is the vector of output buffers and the vector
  of scratch buffers, one of each per line. The hit loop of the source writes the whole
  scratch vector \<^verbatim>\<open>compact_data_buffer_\<close>, the marker loop only its own buffer; the model
  keeps that difference, and the theorems say when it is visible.
\<close>

unbundle bit_operations_syntax

datatype conv_error = SizeLimitExceeded | DataTooSmall | HeaderUnreadable | ArchiveError

section \<open>Compact forms\<close>

definition check_compact_max_size :: "'a::len word \<Rightarrow> nat \<Rightarrow> conv_error + unit" where
  "check_compact_max_size val bits =
     (if push_bit bits 1 \<le> (ucast val :: u64) then Inl SizeLimitExceeded else Inr ())"

definition marker_to_compact :: "MarkerData \<Rightarrow> conv_error + MarkerDataCompact" where
  "marker_to_compact m =
     and_then (and_then (check_compact_max_size (marker_vmm_id m) VMM_ID_BIT_LENGTH)
         (\<lambda>_. check_compact_max_size (srs_timestamp m) SRS_TIMESTAMP_BIT_LENGTH))
       (\<lambda>_. let timestamp_bits = ucast (srs_timestamp m) :: 42 word in
          Inr \<lparr>mc_timestamp_low_bits = get_low_bits timestamp_bits,
               mc_vmm_id = ucast (marker_vmm_id m), mc_flag = 0,
               mc_timestamp_high_bits = get_high_bits timestamp_bits\<rparr>)"

definition hit_to_compact :: "HitData \<Rightarrow> conv_error + HitDataCompact" where
  "hit_to_compact h =
     and_then (and_then (and_then (and_then (and_then
       (check_compact_max_size (channel_num h) CHANNEL_NUM_BIT_LENGTH)
       (\<lambda>_. check_compact_max_size (bc_id h) BC_ID_BIT_LENGTH))
       (\<lambda>_. check_compact_max_size (adc h) ADC_BIT_LENGTH))
       (\<lambda>_. check_compact_max_size (vmm_id h) VMM_ID_BIT_LENGTH))
       (\<lambda>_. check_compact_max_size (offset h) OFFSET_BIT_LENGTH))
       (\<lambda>_. let bc = ucast (bc_id h) :: 12 word;
                bc = ucast (binary_to_gray (ucast bc :: u32)) :: 12 word
         in Inr \<lparr>hc_tdc = ucast (tdc h), hc_channel_num = ucast (channel_num h),
              hc_is_over_threshold = of_bool (is_over_threshold h), hc_flag = 1,
              hc_bc_id = bc, hc_adc = ucast (adc h), hc_vmm_id = ucast (vmm_id h),
              hc_offset = ucast (offset h)\<rparr>)"

text \<open>\<^verbatim>\<open>compact_to_vector\<close>: eight bytes from the archive, the two of the unnamed field
  erased, the remaining six reversed.\<close>

definition compact_to_vector :: "zpp_bits \<Rightarrow> u64 \<Rightarrow> bytes \<Rightarrow> bytes" where
  "compact_to_vector z compact_bits out =
     (let out = vec_resize out 8 0;
          out = arc_data (arc_write z (zpp_bitset64 z compact_bits) (arc_open out))
      in rev (drop 2 out))"

section \<open>The conversion\<close>

record StructSerializer =
  ss_output_data :: "bytes list"
  ss_compact_data_buffer :: "bytes list"

definition mk_StructSerializer :: "nat \<Rightarrow> StructSerializer" where
  "mk_StructSerializer n_lines =
     \<lparr>ss_output_data = replicate n_lines [], ss_compact_data_buffer = replicate n_lines []\<rparr>"

definition zpp_header :: "zpp_bits \<Rightarrow> ReceiveDataHeader \<Rightarrow> bytes" where
  "zpp_header z h =
     (case vmm_tag h of (t0, t1, t2) \<Rightarrow>
        zpp_u32 z (frame_counter h) @ zpp_chars z [t0, t1, t2] @ zpp_u8 z (fec_id h) @
        zpp_u32 z (udp_timestamp h) @ zpp_u32 z (overflow h))"

text \<open>The two loops. \<open>bufs\<close> is the scratch vector and \<open>line\<close> the slot the caller passed as
  \<^verbatim>\<open>compact_data_buffer\<close>; the hit loop serialises \<open>bufs\<close>, the marker loop
  \<open>bufs ! line\<close>. The first element out of range ends the conversion.\<close>

fun ser_hits :: "zpp_bits \<Rightarrow> nat \<Rightarrow> HitData list \<Rightarrow> archive \<Rightarrow> bytes list \<Rightarrow>
    (conv_error + unit) \<times> archive \<times> bytes list" where
  "ser_hits z line [] arc bufs = (Inr (), arc, bufs)"
| "ser_hits z line (h # hs) arc bufs =
     (let bufs = bufs[line := replicate (length (bufs ! line)) 0] in
      case hit_to_compact h of
        Inl e \<Rightarrow> (Inl e, arc, bufs)
      | Inr c \<Rightarrow>
          let bufs = bufs[line := compact_to_vector z (hit_compact_bits c) (bufs ! line)]
          in ser_hits z line hs (arc_write z (zpp_char_vectors z bufs) arc) bufs)"

fun ser_markers :: "zpp_bits \<Rightarrow> nat \<Rightarrow> MarkerData list \<Rightarrow> archive \<Rightarrow> bytes list \<Rightarrow>
    (conv_error + unit) \<times> archive \<times> bytes list" where
  "ser_markers z line [] arc bufs = (Inr (), arc, bufs)"
| "ser_markers z line (m # ms) arc bufs =
     (let bufs = bufs[line := replicate (length (bufs ! line)) 0] in
      case marker_to_compact m of
        Inl e \<Rightarrow> (Inl e, arc, bufs)
      | Inr c \<Rightarrow>
          let bufs = bufs[line := compact_to_vector z (marker_compact_bits c) (bufs ! line)]
          in ser_markers z line ms (arc_write z (zpp_chars z (bufs ! line)) arc) bufs)"

definition ser_convert ::
  "zpp_bits \<Rightarrow> StructSerializer \<Rightarrow> StructData \<Rightarrow> nat \<Rightarrow> (conv_error + nat) \<times> StructSerializer" where
  "ser_convert z ss input line =
     (let bufs = (ss_compact_data_buffer ss)[line := []];
          arc = arc_open (ss_output_data ss ! line);
          arc = arc_write z (zpp_header z (header input)) arc;
          (r, arc, bufs) = ser_hits z line (hit_data input) arc bufs
      in case r of
           Inl e \<Rightarrow> (Inl e, \<lparr>ss_output_data = (ss_output_data ss)[line := arc_data arc],
                             ss_compact_data_buffer = bufs\<rparr>)
         | Inr _ \<Rightarrow>
             let (r, arc, bufs) = ser_markers z line (marker_data input) arc bufs;
                 ss = \<lparr>ss_output_data = (ss_output_data ss)[line := arc_data arc],
                       ss_compact_data_buffer = bufs\<rparr>
             in (case r of Inl e \<Rightarrow> (Inl e, ss)
                 | Inr _ \<Rightarrow> (Inr (length (marker_data input) + length (hit_data input)), ss)))"

definition ser_view :: "StructSerializer \<Rightarrow> nat \<Rightarrow> bytes" where
  "ser_view ss line = ss_output_data ss ! line"

definition ser_run ::
  "zpp_bits \<Rightarrow> StructSerializer \<Rightarrow> StructData \<Rightarrow> nat \<Rightarrow> (conv_error + bytes) \<times> StructSerializer" where
  "ser_run z ss input line =
     (let (r, ss) = ser_convert z ss input line
      in (map_sum id (\<lambda>_. ser_view ss line) r, ss))"

section \<open>Range checks\<close>

definition hit_in_range :: "HitData \<Rightarrow> bool" where
  "hit_in_range h \<longleftrightarrow> channel_num h < 2 ^ 6 \<and> bc_id h < 2 ^ 12 \<and> adc h < 2 ^ 10 \<and>
     vmm_id h < 2 ^ 5 \<and> offset h < 2 ^ 5"

definition marker_in_range :: "MarkerData \<Rightarrow> bool" where
  "marker_in_range m \<longleftrightarrow> marker_vmm_id m < 2 ^ 5 \<and> srs_timestamp m < 2 ^ 42"

definition struct_in_range :: "StructData \<Rightarrow> bool" where
  "struct_in_range s \<longleftrightarrow> list_all hit_in_range (hit_data s) \<and> list_all marker_in_range (marker_data s)"

lemma check_compact_max_size_iff:
  fixes v :: "'a::len word"
  assumes "LENGTH('a) \<le> 64" "n < LENGTH('a)"
  shows "check_compact_max_size v n = (if v < 2 ^ n then Inr () else Inl SizeLimitExceeded)"
proof -
  have "unat (push_bit n (1 :: u64)) = 2 ^ n" "unat (2 ^ n :: 'a word) = 2 ^ n"
    "unat (ucast v :: u64) = unat v"
    using assms by (simp_all only: unat_push_bit_1 unat_2p unat_ucast_up len_num0 len_bit0 len_num1)
  then show ?thesis
    by (simp add: check_compact_max_size_def word_le_nat_alt word_less_nat_alt not_le)
qed

definition hit_compact :: "HitData \<Rightarrow> HitDataCompact" where
  "hit_compact h = \<lparr>hc_tdc = tdc h, hc_channel_num = ucast (channel_num h),
     hc_is_over_threshold = of_bool (is_over_threshold h), hc_flag = 1,
     hc_bc_id = ucast (binary_to_gray (ucast (ucast (bc_id h) :: 12 word) :: u32)),
     hc_adc = ucast (adc h), hc_vmm_id = ucast (vmm_id h), hc_offset = ucast (offset h)\<rparr>"

definition marker_compact :: "MarkerData \<Rightarrow> MarkerDataCompact" where
  "marker_compact m = \<lparr>mc_timestamp_low_bits = get_low_bits (ucast (srs_timestamp m) :: 42 word),
     mc_vmm_id = ucast (marker_vmm_id m), mc_flag = 0,
     mc_timestamp_high_bits = get_high_bits (ucast (srs_timestamp m) :: 42 word)\<rparr>"

lemma hit_to_compact_eq:
  "hit_to_compact h = (if hit_in_range h then Inr (hit_compact h) else Inl SizeLimitExceeded)"
  by (simp add: hit_to_compact_def hit_in_range_def hit_compact_def check_compact_max_size_iff
      bit_length_defs Let_def)

lemma marker_to_compact_eq:
  "marker_to_compact m =
     (if marker_in_range m then Inr (marker_compact m) else Inl SizeLimitExceeded)"
  by (simp add: marker_to_compact_def marker_in_range_def marker_compact_def
      check_compact_max_size_iff bit_length_defs Let_def)

section \<open>The bytes of an element\<close>

text \<open>The 48 bits of an element, and the six bytes they make in network order.\<close>

definition hit_word :: "HitData \<Rightarrow> 48 word" where
  "hit_word h = ucast (drop_bit 16 (hit_compact_bits (hit_compact h)))"

definition marker_word :: "MarkerData \<Rightarrow> 48 word" where
  "marker_word m = ucast (drop_bit 16 (marker_compact_bits (marker_compact m)))"

definition element_bytes_of :: "48 word \<Rightarrow> bytes" where
  "element_bytes_of w = be_bytes 6 w"

lemma length_element_bytes_of [simp]: "length (element_bytes_of w) = 6"
  by (simp add: element_bytes_of_def)

lemma drop_le_bytes: "drop 2 (le_bytes 8 w) = le_bytes 6 (ucast (drop_bit 16 w) :: 48 word)"
proof (rule nth_equalityI)
  fix i assume "i < length (drop 2 (le_bytes 8 w))"
  then have i: "i < 6" by simp
  show "drop 2 (le_bytes 8 w) ! i = le_bytes 6 (ucast (drop_bit 16 w) :: 48 word) ! i"
    using i by (intro bit_word_eqI) (auto simp: bit_simps add.assoc)
qed simp

lemma compact_to_vector_eq:
  assumes "zpp_documented z"
  shows "compact_to_vector z w out = element_bytes_of (ucast (drop_bit 16 w))"
  using assms by (simp add: compact_to_vector_def Let_def arc_write_def arc_open_def
      zpp_encoders zpp_store_whole drop_le_bytes element_bytes_of_def be_bytes_def)

section \<open>The frame a conversion writes\<close>

definition header_bytes_of :: "ReceiveDataHeader \<Rightarrow> bytes" where
  "header_bytes_of h =
     (case vmm_tag h of (t0, t1, t2) \<Rightarrow>
        be_bytes 4 (frame_counter h) @ [t0, t1, t2] @ [fec_id h] @
        be_bytes 4 (udp_timestamp h) @ be_bytes 4 (overflow h))"

lemma zpp_header_eq [wire_simps]: "zpp_documented z \<Longrightarrow> zpp_header z h = header_bytes_of h"
  by (simp add: zpp_header_def header_bytes_of_def wire_simps split: prod.split)

lemma length_header_bytes_of [simp]: "length (header_bytes_of h) = 16"
  by (simp add: header_bytes_of_def split: prod.split)

text \<open>What the hit loop adds around the six bytes of a hit: the scratch buffers of the
  lines before and after its own.\<close>

definition hit_chunk :: "bytes list \<Rightarrow> nat \<Rightarrow> HitData \<Rightarrow> bytes" where
  "hit_chunk bufs line h =
     concat (take line bufs) @ element_bytes_of (hit_word h) @ concat (drop (Suc line) bufs)"

definition struct_chunks :: "bytes list \<Rightarrow> nat \<Rightarrow> StructData \<Rightarrow> bytes list" where
  "struct_chunks bufs line s =
     header_bytes_of (header s) # map (hit_chunk bufs line) (hit_data s) @
     map (\<lambda>m. element_bytes_of (marker_word m)) (marker_data s)"

text \<open>The frame of the wire format: header, hits, markers.\<close>

definition frame_bytes :: "StructData \<Rightarrow> bytes" where
  "frame_bytes s = header_bytes_of (header s) @
     concat (map element_bytes_of (map hit_word (hit_data s) @ map marker_word (marker_data s)))"

lemma concat_update:
  "k < length bs \<Longrightarrow> concat (bs[k := x]) = concat (take k bs) @ x @ concat (drop (Suc k) bs)"
  by (simp add: upd_conv_take_nth_drop)

lemma hit_chunk_update [simp]: "hit_chunk (bufs[line := x]) line = hit_chunk bufs line"
  by (rule ext) (simp add: hit_chunk_def)

lemma ser_hits_ok:
  assumes "zpp_documented z" "line < length bufs" "list_all hit_in_range hs"
  shows "\<exists>x. ser_hits z line hs a bufs =
    (Inr (), arc_writes z (map (hit_chunk bufs line) hs) a, bufs[line := x])"
  using assms(2,3)
proof (induction hs arbitrary: a bufs)
  case Nil
  then show ?case by (auto intro: exI [of _ "bufs ! line"])
next
  case (Cons h hs)
  let ?b = "bufs[line := element_bytes_of (hit_word h)]"
  have "zpp_char_vectors z ?b = hit_chunk bufs line h"
    using assms(1) Cons.prems by (simp add: zpp_char_vectors_eq concat_update hit_chunk_def)
  moreover obtain x where "ser_hits z line hs (arc_write z (hit_chunk bufs line h) a) ?b =
      (Inr (), arc_writes z (map (hit_chunk ?b line) hs) (arc_write z (hit_chunk bufs line h) a),
       ?b[line := x])"
    using Cons.IH [of ?b] Cons.prems by auto
  ultimately show ?case using assms(1) Cons.prems
    by (auto simp: Let_def hit_to_compact_eq compact_to_vector_eq hit_word_def [symmetric])
qed

lemma ser_markers_ok:
  assumes "zpp_documented z" "line < length bufs" "list_all marker_in_range ms"
  shows "\<exists>x. ser_markers z line ms a bufs =
    (Inr (), arc_writes z (map (\<lambda>m. element_bytes_of (marker_word m)) ms) a, bufs[line := x])"
  using assms(2,3)
proof (induction ms arbitrary: a bufs)
  case Nil
  then show ?case by (auto intro: exI [of _ "bufs ! line"])
next
  case (Cons m ms)
  let ?e = "element_bytes_of (marker_word m)"
  obtain x where "ser_markers z line ms (arc_write z ?e a) (bufs[line := ?e]) =
      (Inr (), arc_writes z (map (\<lambda>m. element_bytes_of (marker_word m)) ms) (arc_write z ?e a),
       bufs[line := ?e, line := x])"
    using Cons.IH [of "bufs[line := ?e]"] Cons.prems by auto
  then show ?case using assms(1) Cons.prems
    by (auto simp: Let_def marker_to_compact_eq compact_to_vector_eq marker_word_def [symmetric]
        zpp_chars_eq)
qed

lemma ser_hits_bad:
  "\<not> list_all hit_in_range hs \<Longrightarrow> fst (ser_hits z line hs a bufs) = Inl SizeLimitExceeded"
  by (induction hs arbitrary: a bufs) (auto simp: Let_def hit_to_compact_eq)

lemma ser_hits_result:
  "fst (ser_hits z line hs a bufs) = Inl SizeLimitExceeded \<or> (\<exists>u. fst (ser_hits z line hs a bufs) = Inr u)"
  by (induction hs arbitrary: a bufs) (auto simp: Let_def hit_to_compact_eq)

lemma ser_markers_bad:
  "\<not> list_all marker_in_range ms \<Longrightarrow> fst (ser_markers z line ms a bufs) = Inl SizeLimitExceeded"
  by (induction ms arbitrary: a bufs) (auto simp: Let_def marker_to_compact_eq)

lemma ser_convert_ok:
  assumes "zpp_documented z" "line < length (ss_output_data ss)"
    "line < length (ss_compact_data_buffer ss)" "struct_in_range s"
  shows "\<exists>x. ser_convert z ss s line =
    (Inr (length (marker_data s) + length (hit_data s)),
     \<lparr>ss_output_data = (ss_output_data ss)[line := arc_data
        (arc_writes z (struct_chunks (ss_compact_data_buffer ss) line s)
          (arc_open (ss_output_data ss ! line)))],
      ss_compact_data_buffer = (ss_compact_data_buffer ss)[line := x]\<rparr>)"
proof -
  let ?bufs = "(ss_compact_data_buffer ss)[line := []]"
  let ?arc = "arc_write z (zpp_header z (header s)) (arc_open (ss_output_data ss ! line))"
  have r: "list_all hit_in_range (hit_data s)" "list_all marker_in_range (marker_data s)"
    using assms(4) by (simp_all add: struct_in_range_def)
  obtain x where x: "ser_hits z line (hit_data s) ?arc ?bufs =
      (Inr (), arc_writes z (map (hit_chunk ?bufs line) (hit_data s)) ?arc, ?bufs[line := x])"
    using ser_hits_ok [OF assms(1) _ r(1), of line ?bufs] assms(3) by auto
  let ?arc2 = "arc_writes z (map (hit_chunk ?bufs line) (hit_data s)) ?arc"
  obtain y where y: "ser_markers z line (marker_data s) ?arc2 (?bufs[line := x]) =
      (Inr (), arc_writes z (map (\<lambda>m. element_bytes_of (marker_word m)) (marker_data s)) ?arc2,
       ?bufs[line := x, line := y])"
    using ser_markers_ok [OF assms(1) _ r(2), of line "?bufs[line := x]"] assms(3) by auto
  show ?thesis using x y assms(1)
    by (auto simp: ser_convert_def Let_def struct_chunks_def arc_writes_append zpp_header_eq)
qed

lemma ser_convert_bad:
  assumes "\<not> struct_in_range s"
  shows "fst (ser_convert z ss s line) = Inl SizeLimitExceeded"
proof -
  let ?arc = "arc_write z (zpp_header z (header s)) (arc_open (ss_output_data ss ! line))"
  obtain r a b where h: "ser_hits z line (hit_data s) ?arc ((ss_compact_data_buffer ss)[line := []])
      = (r, a, b)" by (metis prod_cases3)
  obtain r' a' b' where m: "ser_markers z line (marker_data s) a b = (r', a', b')"
    by (metis prod_cases3)
  show ?thesis
  proof (cases "list_all hit_in_range (hit_data s)")
    case True
    with assms have "\<not> list_all marker_in_range (marker_data s)" by (simp add: struct_in_range_def)
    then have "r' = Inl SizeLimitExceeded" using ser_markers_bad [of "marker_data s"] m by (metis fst_conv)
    moreover have "r = Inl SizeLimitExceeded \<or> (\<exists>u. r = Inr u)"
      using ser_hits_result [of z line "hit_data s"] h by (metis fst_conv)
    ultimately show ?thesis using h m by (auto simp: ser_convert_def Let_def)
  next
    case False
    then have "r = Inl SizeLimitExceeded" using ser_hits_bad [OF False] h by (metis fst_conv)
    then show ?thesis using h by (simp add: ser_convert_def Let_def)
  qed
qed


lemma struct_chunks_empty:
  assumes "\<forall>j < length bufs. j \<noteq> line \<longrightarrow> bufs ! j = []"
  shows "concat (struct_chunks bufs line s) = frame_bytes s"
proof -
  have "\<forall>b \<in> set (take line bufs). b = []" "\<forall>b \<in> set (drop (Suc line) bufs). b = []"
    using assms by (auto simp: in_set_conv_nth)
  then have "concat (take line bufs) = []" "concat (drop (Suc line) bufs) = []"
    by (simp_all only: concat_eq_Nil_conv)
  then have "hit_chunk bufs line = (\<lambda>h. element_bytes_of (hit_word h))"
    by (intro ext) (simp only: hit_chunk_def append_Nil append_Nil2)
  then show ?thesis by (simp add: struct_chunks_def frame_bytes_def comp_def)
qed

lemma struct_chunks_single: "concat (struct_chunks [[]] 0 s) = frame_bytes s"
  by (rule struct_chunks_empty) simp


section \<open>Results of a run\<close>

lemma ser_run_single:
  assumes "zpp_documented z"
  shows "fst (ser_run z (mk_StructSerializer 1) s 0) =
    (if struct_in_range s then Inr (frame_bytes s) else Inl SizeLimitExceeded)"
proof (cases "struct_in_range s")
  case True
  obtain x where "ser_convert z (mk_StructSerializer 1) s 0 =
    (Inr (length (marker_data s) + length (hit_data s)),
     \<lparr>ss_output_data = [arc_data (arc_writes z (struct_chunks [[]] 0 s) (arc_open []))],
      ss_compact_data_buffer = [x]\<rparr>)"
    using ser_convert_ok [OF assms _ _ True, of 0 "mk_StructSerializer 1"]
    by (auto simp: mk_StructSerializer_def)
  then show ?thesis
    using assms True by (simp add: ser_run_def ser_view_def arc_writes_of struct_chunks_single)
next
  case False
  then show ?thesis using ser_convert_bad [OF False, of z "mk_StructSerializer 1" 0]
    by (cases "ser_convert z (mk_StructSerializer 1) s 0") (simp add: ser_run_def)
qed

lemma ser_run_exact:
  assumes "zpp_documented z" "line < length (ss_output_data ss)"
    "line < length (ss_compact_data_buffer ss)" "struct_in_range s"
  shows "fst (ser_run z ss s line) = Inr (arc_data
    (arc_writes z (struct_chunks (ss_compact_data_buffer ss) line s)
      (arc_open (ss_output_data ss ! line))))"
  using ser_convert_ok [OF assms] assms(2) by (auto simp: ser_run_def ser_view_def)

lemma ser_run_output:
  assumes "zpp_documented z" "line < length (ss_output_data ss)"
    "line < length (ss_compact_data_buffer ss)" "struct_in_range s"
  shows "\<exists>out. fst (ser_run z ss s line) = Inr out \<and>
    (let w = concat (struct_chunks (ss_compact_data_buffer ss) line s) in take (length w) out = w)"
  using arc_written_writes [OF assms(1) arc_written_open, of
      "struct_chunks (ss_compact_data_buffer ss) line s" "ss_output_data ss ! line"]
  by (simp add: ser_run_exact [OF assms] arc_written_def Let_def)

lemma ser_run_empty:
  assumes "zpp_documented z" "line < length (ss_output_data ss)"
    "line < length (ss_compact_data_buffer ss)" "struct_in_range s" "ss_output_data ss ! line = []"
  shows "fst (ser_run z ss s line) =
    Inr (concat (struct_chunks (ss_compact_data_buffer ss) line s))"
  using assms by (simp add: ser_run_exact arc_writes_of)

lemma ser_run_bad:
  "\<not> struct_in_range s \<Longrightarrow> fst (ser_run z ss s line) = Inl SizeLimitExceeded"
  using ser_convert_bad [of s z ss line]
  by (cases "ser_convert z ss s line") (simp add: ser_run_def)

end
