(* ===== verification/Struct_Deserializer.thy ===== *)
theory Struct_Deserializer
  imports Struct_Serializer Conversion_Task
begin

text \<open>
  \<^verbatim>\<open>StructDeserializer\<close> of \<^verbatim>\<open>backend/srs/converters/StructDeserializer.{hpp,cpp}\<close>:
  the frame of an FEC becomes a \<^verbatim>\<open>StructData\<close>. An element of the frame body is read as a
  48-bit set, brought into the right byte order, and turned into a hit or a marker by its
  flag bit. The lemmas show that the element decoders invert the encoders of the serialiser
  in both directions and give the result of a conversion for every length of the input.
\<close>

unbundle bit_operations_syntax

section \<open>Elements\<close>

definition convert_to_bits :: "48 word \<Rightarrow> u64" where
  "convert_to_bits raw_data = push_bit (8 * 8 - HIT_DATA_BIT_LENGTH) (ucast raw_data)"

definition array_to_marker :: "48 word \<Rightarrow> MarkerData" where
  "array_to_marker raw_data =
     (let c = bits_marker_compact (convert_to_bits raw_data);
          timestamp = merge_bits (mc_timestamp_high_bits c) (mc_timestamp_low_bits c) :: 42 word
      in \<lparr>marker_vmm_id = ucast (mc_vmm_id c), srs_timestamp = ucast timestamp\<rparr>)"

definition array_to_hit :: "48 word \<Rightarrow> HitData" where
  "array_to_hit raw_data =
     (let c = bits_hit_compact (convert_to_bits raw_data)
      in \<lparr>is_over_threshold = (hc_is_over_threshold c \<noteq> 0),
          channel_num = ucast (hc_channel_num c), tdc = ucast (hc_tdc c),
          offset = ucast (hc_offset c), vmm_id = ucast (hc_vmm_id c), adc = ucast (hc_adc c),
          bc_id = gray_to_binary (ucast (hc_bc_id c))\<rparr>)"

definition check_is_hit :: "48 word \<Rightarrow> bool" where
  "check_is_hit element = bit element FLAG_BIT_POSITION"

section \<open>The conversion\<close>

fun translate_raw_data :: "StructData \<Rightarrow> 48 word list \<Rightarrow> StructData" where
  "translate_raw_data s [] = s"
| "translate_raw_data s (e # es) =
     (if check_is_hit e
      then translate_raw_data (s\<lparr>hit_data := hit_data s @ [array_to_hit e]\<rparr>) es
      else translate_raw_data (s\<lparr>marker_data := marker_data s @ [array_to_marker e]\<rparr>) es)"

definition byte_reverse_data_sq :: "48 word list \<Rightarrow> 48 word list" where
  "byte_reverse_data_sq es = map byte_swap es"

fun zpp_get_list :: "(bytes \<Rightarrow> ('a \<times> bytes) option) \<Rightarrow> nat \<Rightarrow> bytes \<Rightarrow> ('a list \<times> bytes) option" where
  "zpp_get_list get 0 bs = Some ([], bs)"
| "zpp_get_list get (Suc n) bs =
     (case get bs of None \<Rightarrow> None
      | Some (x, r) \<Rightarrow> map_option (\<lambda>(xs, r). (x # xs, r)) (zpp_get_list get n r))"

definition zpp_get_header :: "zpp_bits \<Rightarrow> bytes \<Rightarrow> (ReceiveDataHeader \<times> bytes) option" where
  "zpp_get_header z bs =
     Option.bind (zpp_get_u32 z bs) (\<lambda>(frame_counter, bs).
     Option.bind (zpp_get_u8 z bs) (\<lambda>(t0, bs).
     Option.bind (zpp_get_u8 z bs) (\<lambda>(t1, bs).
     Option.bind (zpp_get_u8 z bs) (\<lambda>(t2, bs).
     Option.bind (zpp_get_u8 z bs) (\<lambda>(fec_id, bs).
     Option.bind (zpp_get_u32 z bs) (\<lambda>(udp_timestamp, bs).
     Option.bind (zpp_get_u32 z bs) (\<lambda>(overflow, bs).
       Some (\<lparr>frame_counter = frame_counter, vmm_tag = (t0, t1, t2), fec_id = fec_id,
              udp_timestamp = udp_timestamp, overflow = overflow\<rparr>, bs))))))))"

text \<open>\<^verbatim>\<open>convert\<close> works on the output structure and the scratch vector of one line. A
  failed read of the archive is the exception of \<^verbatim>\<open>or_throw\<close>.\<close>

definition deser_convert ::
  "zpp_bits \<Rightarrow> bytes \<Rightarrow> StructData \<Rightarrow> 48 word list \<Rightarrow> (conv_error + nat) \<times> StructData \<times> 48 word list" where
  "deser_convert z binary_data out body =
     (let read_bytes = length binary_data in
      if read_bytes \<le> header_bytes then (Inl DataTooSmall, out, body)
      else
        let vector_size = (read_bytes - header_bytes) div element_bytes in
        if vector_size = 0 then (Inl HeaderUnreadable, out, body)
        else
          let body = map (\<lambda>_. 0) (vec_resize body vector_size 0) in
          case Option.bind (zpp_get_header z binary_data) (\<lambda>(h, r).
                 map_option (\<lambda>(es, _). (h, es)) (zpp_get_list (zpp_get_bitset48 z) (length body) r)) of
            None \<Rightarrow> (Inl ArchiveError, out, body)
          | Some (h, es) \<Rightarrow>
              let body = byte_reverse_data_sq es
              in (Inr (length body), translate_raw_data (out\<lparr>header := h\<rparr>) body, body))"

record StructDeserializer =
  sd_raw_body_part_data :: "48 word list list"
  sd_output_data :: "StructData list"

definition mk_StructDeserializer :: "nat \<Rightarrow> StructDeserializer" where
  "mk_StructDeserializer n_lines =
     \<lparr>sd_raw_body_part_data = replicate n_lines [], sd_output_data = replicate n_lines default_struct\<rparr>"

definition deser_run ::
  "zpp_bits \<Rightarrow> StructDeserializer \<Rightarrow> bytes \<Rightarrow> nat \<Rightarrow> (conv_error + StructData) \<times> StructDeserializer" where
  "deser_run z sd input line =
     (let out = reset_struct_data (sd_output_data sd ! line);
          body = [];
          (r, out, body) = deser_convert z input out body;
          sd = \<lparr>sd_raw_body_part_data = (sd_raw_body_part_data sd)[line := body],
                sd_output_data = (sd_output_data sd)[line := out]\<rparr>
      in (map_sum id (\<lambda>_. sd_output_data sd ! line) r, sd))"

text \<open>The contract of a pipeline task.\<close>

definition sd_n_lines :: "StructDeserializer \<Rightarrow> nat" where
  "sd_n_lines sd = min (length (sd_raw_body_part_data sd)) (length (sd_output_data sd))"

definition sd_slot :: "StructDeserializer \<Rightarrow> nat \<Rightarrow> 48 word list \<times> StructData" where
  "sd_slot sd k = (sd_raw_body_part_data sd ! k, sd_output_data sd ! k)"

interpretation deser: line_task sd_n_lines sd_slot "deser_run z" snd for z
proof unfold_locales
  fix s i k
  show "sd_n_lines (snd (deser_run z s i k)) = sd_n_lines s"
    by (simp add: deser_run_def sd_n_lines_def split: prod.split)
qed (auto simp: deser_run_def sd_n_lines_def sd_slot_def map_sum_def split: prod.splits sum.splits)

section \<open>Element round trips\<close>

lemma convert_to_bits_low: "k < 16 \<Longrightarrow> \<not> bit (convert_to_bits w) k"
  by (simp add: convert_to_bits_def HIT_DATA_BIT_LENGTH_def bit_simps)

lemma convert_to_bits_top:
  assumes "\<And>k. k < 16 \<Longrightarrow> \<not> bit x k"
  shows "convert_to_bits (ucast (drop_bit 16 x)) = x"
proof (rule bit_word_eqI)
  fix k assume "k < LENGTH(64)"
  then show "bit (convert_to_bits (ucast (drop_bit 16 x))) k = bit x k"
    using assms [of k]
    by (cases "k < 16")
      (simp_all add: convert_to_bits_def HIT_DATA_BIT_LENGTH_def bit_simps less_diff_conv2)
qed

lemma top_convert_to_bits: "ucast (drop_bit 16 (convert_to_bits w)) = w"
  by (rule bit_word_eqI) (simp add: convert_to_bits_def HIT_DATA_BIT_LENGTH_def bit_simps)

lemma convert_hit_word: "convert_to_bits (hit_word h) = hit_compact_bits (hit_compact h)"
  unfolding hit_word_def by (rule convert_to_bits_top) (simp add: bit_hit_compact_bits)

lemma convert_marker_word:
  "convert_to_bits (marker_word m) = marker_compact_bits (marker_compact m)"
  unfolding marker_word_def by (rule convert_to_bits_top) (simp add: bit_marker_compact_bits)

lemma gray_12_16:
  "(ucast (ucast (binary_to_gray (ucast (x :: 12 word) :: u32)) :: 12 word) :: u16)
     = binary_to_gray (ucast x)"
  by (simp add: binary_to_gray_ucast ucast_down_up)

lemma array_to_hit_hit_word: "hit_in_range h \<Longrightarrow> array_to_hit (hit_word h) = h"
  using ucast_up_down [of "channel_num h", where 'b = 6] ucast_up_down [of "bc_id h", where 'b = 12]
    ucast_up_down [of "adc h", where 'b = 10] ucast_up_down [of "vmm_id h", where 'b = 5]
    ucast_up_down [of "offset h", where 'b = 5]
  by (cases h) (simp add: array_to_hit_def convert_hit_word bits_hit_compact_bits Let_def
      hit_in_range_def hit_compact_def gray_12_16 gray_to_binary_binary_to_gray)

lemma array_to_marker_marker_word: "marker_in_range m \<Longrightarrow> array_to_marker (marker_word m) = m"
  using ucast_up_down [of "marker_vmm_id m", where 'b = 5]
    ucast_up_down [of "srs_timestamp m", where 'b = 42]
  by (cases m) (simp add: array_to_marker_def convert_marker_word bits_marker_compact_bits Let_def
      marker_in_range_def marker_compact_def merge_split_bits)

lemma hit_word_is_hit: "check_is_hit (hit_word h)"
  by (simp add: check_is_hit_def FLAG_BIT_POSITION_def hit_word_def hit_compact_def bit_simps)

lemma marker_word_is_marker: "\<not> check_is_hit (marker_word m)"
  by (simp add: check_is_hit_def FLAG_BIT_POSITION_def marker_word_def marker_compact_def bit_simps)


text \<open>The other direction: an element read and written again is unchanged.\<close>

lemma bits_hit_convert: "hit_compact_bits (bits_hit_compact (convert_to_bits w)) = convert_to_bits w"
  by (rule hit_compact_bits_bits) (rule convert_to_bits_low)

lemma bits_marker_convert:
  "marker_compact_bits (bits_marker_compact (convert_to_bits w)) = convert_to_bits w"
  by (rule marker_compact_bits_bits) (rule convert_to_bits_low)

lemma one_bit_cases: "(b :: 1 word) = of_bool (bit b 0)"
  by (rule bit_word_eqI) (auto simp: bit_simps)

lemma of_bool_one_bit: "of_bool (b \<noteq> 0) = (b :: 1 word)"
  by (cases "bit b 0") (use one_bit_cases [of b] in auto)

lemma hit_flag_bit: "hc_flag (bits_hit_compact (convert_to_bits w)) = of_bool (check_is_hit w)"
  by (subst one_bit_cases)
    (simp add: bits_hit_compact_def convert_to_bits_def HIT_DATA_BIT_LENGTH_def check_is_hit_def
      FLAG_BIT_POSITION_def bit_simps)

lemma marker_flag_bit:
  "mc_flag (bits_marker_compact (convert_to_bits w)) = of_bool (check_is_hit w)"
  by (subst one_bit_cases)
    (simp add: bits_marker_compact_def convert_to_bits_def HIT_DATA_BIT_LENGTH_def check_is_hit_def
      FLAG_BIT_POSITION_def bit_simps)

lemma hit_compact_array_to_hit:
  "check_is_hit w \<Longrightarrow> hit_compact (array_to_hit w) = bits_hit_compact (convert_to_bits w)"
  using hit_flag_bit [of w]
  by (cases "bits_hit_compact (convert_to_bits w)")
    (simp add: hit_compact_def array_to_hit_def Let_def ucast_down_up of_bool_one_bit
      gray_to_binary_ucast binary_to_gray_ucast binary_to_gray_gray_to_binary)

lemma marker_compact_array_to_marker:
  "\<not> check_is_hit w \<Longrightarrow>
     marker_compact (array_to_marker w) = bits_marker_compact (convert_to_bits w)"
  using marker_flag_bit [of w]
  by (cases "bits_marker_compact (convert_to_bits w)")
    (simp add: marker_compact_def array_to_marker_def Let_def ucast_down_up,
      intro conjI bit_word_eqI; simp add: bit_simps)

lemma hit_word_array_to_hit: "check_is_hit w \<Longrightarrow> hit_word (array_to_hit w) = w"
  by (simp add: hit_word_def hit_compact_array_to_hit bits_hit_convert top_convert_to_bits)

lemma marker_word_array_to_marker: "\<not> check_is_hit w \<Longrightarrow> marker_word (array_to_marker w) = w"
  by (simp add: marker_word_def marker_compact_array_to_marker bits_marker_convert
      top_convert_to_bits)

lemma array_to_hit_in_range: "hit_in_range (array_to_hit w)"
  by (simp add: hit_in_range_def array_to_hit_def Let_def gray_to_binary_ucast
      ucast_less_2p [where 'b = 6, simplified] ucast_less_2p [where 'b = 12, simplified]
      ucast_less_2p [where 'b = 10, simplified] ucast_less_2p [where 'b = 5, simplified])

lemma array_to_marker_in_range: "marker_in_range (array_to_marker w)"
  by (simp add: marker_in_range_def array_to_marker_def Let_def
      ucast_less_2p [where 'b = 42, simplified] ucast_less_2p [where 'b = 5, simplified])


section \<open>The result of a conversion\<close>

text \<open>What a frame says: its header and its elements in the order they stand.\<close>

definition header_of :: "bytes \<Rightarrow> ReceiveDataHeader" where
  "header_of bs = \<lparr>frame_counter = of_be_bytes (take 4 bs),
     vmm_tag = (bs ! 4, bs ! 5, bs ! 6), fec_id = bs ! 7,
     udp_timestamp = of_be_bytes (take 4 (drop 8 bs)),
     overflow = of_be_bytes (take 4 (drop 12 bs))\<rparr>"

fun elements_of :: "nat \<Rightarrow> bytes \<Rightarrow> 48 word list" where
  "elements_of 0 bs = []"
| "elements_of (Suc n) bs = of_be_bytes (take 6 bs) # elements_of n (drop 6 bs)"

definition element_count :: "bytes \<Rightarrow> nat" where
  "element_count bs = (length bs - header_bytes) div element_bytes"

definition frame_elements :: "bytes \<Rightarrow> 48 word list" where
  "frame_elements bs = elements_of (element_count bs) (drop 16 bs)"

lemma length_elements_of [simp]: "length (elements_of n bs) = n"
  by (induction n arbitrary: bs) simp_all

lemma zpp_get_header_eq:
  assumes "zpp_documented z" "16 \<le> length bs"
  shows "zpp_get_header z bs = Some (header_of bs, drop 16 bs)"
proof -
  have c: "n \<le> length bs - k" "k < 16 \<Longrightarrow> k < length bs" if "n + k \<le> 16" for n k
    using assms(2) that by linarith+
  have h: "hd (drop k bs) = bs ! k" if "k < 16" for k
    using assms(2) that by (simp add: hd_drop_conv_nth)
  show ?thesis using assms
    by (simp add: zpp_get_header_def zpp_decoders get_bytes_def header_of_def c h)
qed

lemma zpp_get_list_bitsets:
  assumes "zpp_documented z" "6 * n \<le> length bs"
  shows "map_option (map byte_swap \<circ> fst) (zpp_get_list (zpp_get_bitset48 z) n bs) =
    Some (elements_of n bs)"
  using assms(2)
proof (induction n arbitrary: bs)
  case 0
  then show ?case by simp
next
  case (Suc n)
  then have "map_option (map byte_swap \<circ> fst) (zpp_get_list (zpp_get_bitset48 z) n (drop 6 bs)) =
      Some (elements_of n (drop 6 bs))"
    by simp
  moreover have "byte_swap (of_le_bytes (take 6 bs) :: 48 word) = of_be_bytes (take 6 bs)"
    using Suc.prems by (intro byte_swap_of_le_bytes) simp
  moreover have "zpp_get_bitset48 z bs = Some (of_le_bytes (take 6 bs), drop 6 bs)"
    using assms(1) Suc.prems by (simp add: zpp_decoders get_bytes_def)
  ultimately show ?case by auto
qed

lemma translate_raw_data_eq:
  "translate_raw_data s es =
     s\<lparr>hit_data := hit_data s @ map array_to_hit (filter check_is_hit es),
       marker_data := marker_data s @ map array_to_marker (filter (\<lambda>e. \<not> check_is_hit e) es)\<rparr>"
  by (induction s es rule: translate_raw_data.induct) simp_all

definition struct_of :: "bytes \<Rightarrow> StructData" where
  "struct_of bs =
     \<lparr>header = header_of bs,
      marker_data = map array_to_marker (filter (\<lambda>e. \<not> check_is_hit e) (frame_elements bs)),
      hit_data = map array_to_hit (filter check_is_hit (frame_elements bs))\<rparr>"

lemma deser_convert_eq:
  assumes "zpp_documented z" "22 \<le> length bs"
  shows "deser_convert z bs default_struct body =
    (Inr (element_count bs), struct_of bs, frame_elements bs)"
proof -
  let ?n = "element_count bs"
  have n: "0 < ?n" "6 * ?n \<le> length (drop 16 bs)" using assms(2)
    by (simp_all add: element_count_def div_greater_zero_iff)
  have c: "(length bs - 16) div 6 = ?n" by (simp add: element_count_def)
  obtain es r where es: "zpp_get_list (zpp_get_bitset48 z) ?n (drop 16 bs) = Some (es, r)"
    "map byte_swap es = frame_elements bs"
    using zpp_get_list_bitsets [OF assms(1) n(2)] by (auto simp: frame_elements_def)
  moreover from es(2) have "length es = ?n"
    by (metis length_elements_of length_map frame_elements_def)
  ultimately have "deser_convert z bs default_struct body =
      (Inr ?n, translate_raw_data (default_struct\<lparr>header := header_of bs\<rparr>) (frame_elements bs),
       frame_elements bs)"
    using assms n es by (simp add: deser_convert_def Let_def c zpp_get_header_eq
        byte_reverse_data_sq_def frame_elements_def)
  then show ?thesis by (simp add: translate_raw_data_eq struct_of_def default_struct_def)
qed

lemma deser_convert_small:
  "length bs \<le> 16 \<Longrightarrow> deser_convert z bs out body = (Inl DataTooSmall, out, body)"
  "16 < length bs \<Longrightarrow> length bs < 22 \<Longrightarrow> deser_convert z bs out body = (Inl HeaderUnreadable, out, body)"
  by (simp_all add: deser_convert_def Let_def)

section \<open>Frames\<close>

lemma elements_of_concat:
  "elements_of (length ws) (concat (map element_bytes_of ws) @ r) = ws"
  by (induction ws) (simp_all add: element_bytes_of_def of_be_bytes_be_bytes)

lemma concat_elements_of:
  "length bs = 6 * n \<Longrightarrow> concat (map element_bytes_of (elements_of n bs)) = bs"
proof (induction n arbitrary: bs)
  case (Suc n)
  have "be_bytes (length (take 6 bs)) (of_be_bytes (take 6 bs) :: 48 word) = take 6 bs"
    by (rule be_bytes_of_be_bytes) simp
  then show ?case using Suc by (simp add: element_bytes_of_def)
qed simp

lemma length_concat_elements [simp]: "length (concat (map element_bytes_of ws)) = 6 * length ws"
  by (induction ws) simp_all

lemma header_of_header_bytes_of: "header_of (header_bytes_of h @ r) = h"
  by (cases h) (simp add: header_of_def header_bytes_of_def of_be_bytes_be_bytes nth_append
      split: prod.split)

lemma header_bytes_of_header_of: "16 \<le> length bs \<Longrightarrow> header_bytes_of (header_of bs) = take 16 bs"
proof -
  assume len: "16 \<le> length bs"
  have b: "be_bytes 4 (of_be_bytes (take 4 (drop k bs)) :: u32) = take 4 (drop k bs)"
    if "k \<le> 12" for k
    using be_bytes_of_be_bytes [of "take 4 (drop k bs)", where 'a = 32] len that by simp
  have "take 4 (drop 4 bs) = [bs ! 4, bs ! 5, bs ! 6] @ [bs ! 7]"
    using len by (intro nth_equalityI) (auto simp: less_Suc_eq numeral_eq_Suc)
  moreover have "take 16 bs = take 4 bs @ take 4 (drop 4 bs) @ take 4 (drop 8 bs) @ take 4 (drop 12 bs)"
    using take_add [of 4 12 bs] take_add [of 4 8 "drop 4 bs"] take_add [of 4 4 "drop 8 bs"] by simp
  ultimately have "take 16 bs = take 4 bs @ [bs ! 4, bs ! 5, bs ! 6] @ [bs ! 7] @
      take 4 (drop 8 bs) @ take 4 (drop 12 bs)" by simp
  then show ?thesis using b [of 0] b [of 8] b [of 12]
    by (simp add: header_bytes_of_def header_of_def)
qed

lemma length_frame_bytes [simp]:
  "length (frame_bytes s) = 16 + 6 * (length (hit_data s) + length (marker_data s))"
  by (simp only: frame_bytes_def length_append length_concat_elements length_header_bytes_of length_map)

lemma frame_elements_frame_bytes:
  "frame_elements (frame_bytes s) = map hit_word (hit_data s) @ map marker_word (marker_data s)"
  using elements_of_concat [of "map hit_word (hit_data s) @ map marker_word (marker_data s)" "[]"]
  by (simp add: frame_elements_def element_count_def) (simp add: frame_bytes_def)

lemma struct_of_frame_bytes: "struct_in_range s \<Longrightarrow> struct_of (frame_bytes s) = s"
proof -
  assume r: "struct_in_range s"
  have "map (array_to_hit \<circ> hit_word) (hit_data s) = hit_data s"
    using r by (intro map_idI) (simp add: array_to_hit_hit_word struct_in_range_def list_all_iff)
  moreover have "map (array_to_marker \<circ> marker_word) (marker_data s) = marker_data s"
    using r by (intro map_idI) (simp add: array_to_marker_marker_word struct_in_range_def list_all_iff)
  moreover have "header_of (frame_bytes s) = header s"
    by (simp add: frame_bytes_def header_of_header_bytes_of)
  ultimately show ?thesis
    by (simp add: struct_of_def frame_elements_frame_bytes filter_map comp_def hit_word_is_hit
        marker_word_is_marker)
qed

lemma struct_of_in_range: "struct_in_range (struct_of bs)"
  by (simp add: struct_in_range_def struct_of_def list_all_iff array_to_hit_in_range
      array_to_marker_in_range)

lemma frame_bytes_struct_of:
  assumes "16 \<le> length bs"
  shows "frame_bytes (struct_of bs) = take 16 bs @ concat (map element_bytes_of
    (filter check_is_hit (frame_elements bs) @ filter (\<lambda>e. \<not> check_is_hit e) (frame_elements bs)))"
proof -
  have "map hit_word (map array_to_hit (filter check_is_hit es)) = filter check_is_hit es" for es
    by (simp only: map_map, intro map_idI) (simp add: hit_word_array_to_hit)
  moreover have "map marker_word (map array_to_marker (filter (\<lambda>e. \<not> check_is_hit e) es)) =
      filter (\<lambda>e. \<not> check_is_hit e) es" for es
    by (simp only: map_map, intro map_idI) (simp add: marker_word_array_to_marker)
  ultimately show ?thesis
    using assms by (simp add: frame_bytes_def struct_of_def header_bytes_of_header_of del: map_map)
qed


section \<open>Properties\<close>

lemma sample_struct_in_range: "struct_in_range sample_struct"
  by (simp add: struct_in_range_def sample_struct_def hit_in_range_def marker_in_range_def)

text \<open>
  C1. Serialising a structure and reading the frame back gives the same structure: with a
  serialiser of one line and any deserialiser, every structure whose fields fit their bit
  widths and that has at least one element survives the two conversions unchanged.\<close>

theorem serialize_deserialize:
  assumes "zpp_documented z" "struct_in_range s" "hit_data s \<noteq> [] \<or> marker_data s \<noteq> []"
    "line < sd_n_lines sd"
  shows "\<exists>frame. fst (ser_run z (mk_StructSerializer 1) s 0) = Inr frame \<and>
    fst (deser_run z sd frame line) = Inr s"
proof -
  have "fst (ser_run z (mk_StructSerializer 1) s 0) = Inr (frame_bytes s)"
    using ser_run_single [OF assms(1), of s] assms(2) by simp
  moreover have "22 \<le> length (frame_bytes s)"
    using assms(3) by (auto simp: neq_Nil_conv)
  then have "fst (deser_run z sd (frame_bytes s) line) = Inr s"
    using assms by (simp add: deser_run_def deser_convert_eq struct_of_frame_bytes sd_n_lines_def)
  ultimately show ?thesis by blast
qed

lemma serialize_deserialize_witness:
  "\<exists>frame. fst (ser_run zpp_ref (mk_StructSerializer 1) sample_struct 0) = Inr frame \<and>
    fst (deser_run zpp_ref (mk_StructDeserializer 3) frame 2) = Inr sample_struct"
  by (rule serialize_deserialize)
    (simp_all add: sample_struct_in_range, simp_all add: sample_struct_def sd_n_lines_def
      mk_StructDeserializer_def)


text \<open>
  C8. The outcome of reading a frame is determined for every byte string: up to the sixteen
  bytes of a header it is rejected as too small, without room for one element it is rejected,
  and otherwise the result is the header and the elements in the frame, hits and markers in
  their order, trailing bytes short of an element ignored. The line's slot is reset first, so
  nothing of an earlier frame shows.\<close>

theorem deserialize_every_length:
  assumes "zpp_documented z" "line < sd_n_lines sd"
  shows "fst (deser_run z sd bs line) =
      (if length bs \<le> 16 then Inl DataTooSmall
       else if length bs < 22 then Inl HeaderUnreadable else Inr (struct_of bs)) \<and>
    snd (sd_slot (snd (deser_run z sd bs line)) line) =
      (if length bs < 22 then default_struct else struct_of bs)"
proof (cases "length bs \<le> 16")
  case True
  then show ?thesis
    using assms by (simp add: deser_run_def deser_convert_small sd_n_lines_def sd_slot_def)
next
  case False
  then show ?thesis using assms deser_convert_small(2) [of bs] deser_convert_eq [of z bs]
    by (cases "length bs < 22") (simp_all add: deser_run_def sd_n_lines_def sd_slot_def)
qed

lemma deserialize_every_length_witness:
  "fst (deser_run zpp_ref (mk_StructDeserializer 1) (replicate 21 0) 0) = Inl HeaderUnreadable \<and>
   fst (deser_run zpp_ref (mk_StructDeserializer 1) (replicate 28 0) 0) =
     Inr (struct_of (replicate 28 0))"
  using deserialize_every_length [of zpp_ref 0 "mk_StructDeserializer 1" "replicate 21 0"]
    deserialize_every_length [of zpp_ref 0 "mk_StructDeserializer 1" "replicate 28 0"]
  by (simp add: sd_n_lines_def mk_StructDeserializer_def)

text \<open>
  C10. Reading a frame and writing it again keeps the header and every element bit for bit, the
  hits first and then the markers, each kind in the order of the frame. A frame whose hits
  precede its markers comes back unchanged.\<close>

theorem deserialize_serialize:
  assumes "zpp_documented z" "length bs = 16 + 6 * n" "0 < n" "line < sd_n_lines sd"
    "frame_elements bs = hits @ markers" "list_all check_is_hit hits"
    "list_all (\<lambda>e. \<not> check_is_hit e) markers"
  shows "\<exists>s. fst (deser_run z sd bs line) = Inr s \<and>
    fst (ser_run z (mk_StructSerializer 1) s 0) = Inr bs"
proof -
  have "filter check_is_hit (frame_elements bs) = hits"
    "filter (\<lambda>e. \<not> check_is_hit e) (frame_elements bs) = markers"
    using assms(5-7) by (auto simp: list_all_iff filter_id_conv filter_empty_conv)
  then have "frame_bytes (struct_of bs) = take 16 bs @ concat (map element_bytes_of (frame_elements bs))"
    using assms(2,5) by (simp add: frame_bytes_struct_of)
  also have "\<dots> = bs"
    using assms(2) concat_elements_of [of "drop 16 bs" n]
    by (simp add: frame_elements_def element_count_def)
  finally have "fst (ser_run z (mk_StructSerializer 1) (struct_of bs) 0) = Inr bs"
    using ser_run_single [OF assms(1), of "struct_of bs"] by (simp add: struct_of_in_range)
  moreover have "fst (deser_run z sd bs line) = Inr (struct_of bs)"
    using assms(1-4) by (simp add: deser_run_def deser_convert_eq sd_n_lines_def)
  ultimately show ?thesis by blast
qed

lemma deserialize_serialize_witness:
  "\<exists>s. fst (deser_run zpp_ref (mk_StructDeserializer 2) (frame_bytes sample_struct) 1) = Inr s \<and>
    fst (ser_run zpp_ref (mk_StructSerializer 1) s 0) = Inr (frame_bytes sample_struct)"
  by (rule deserialize_serialize [where n = 2 and hits = "map hit_word (hit_data sample_struct)"
        and markers = "map marker_word (marker_data sample_struct)"])
    (simp_all add: frame_elements_frame_bytes list_all_iff hit_word_is_hit marker_word_is_marker,
     simp_all add: sample_struct_def sd_n_lines_def mk_StructDeserializer_def)

text \<open>
  C9. The serialiser accepts exactly the structures whose fields fit their widths. An accepted
  structure is written as the frame of the wire format at the front of the line's buffer when
  the other lines' scratch buffers are empty, whatever the buffers held before; any other
  structure gives the size error.\<close>

theorem serialize_outcome:
  assumes "zpp_documented z" "line < length (ss_output_data ss)"
    "line < length (ss_compact_data_buffer ss)"
    "\<forall>j < length (ss_compact_data_buffer ss). j \<noteq> line \<longrightarrow> ss_compact_data_buffer ss ! j = []"
  shows "case fst (ser_run z ss s line) of
      Inl e \<Rightarrow> \<not> struct_in_range s \<and> e = SizeLimitExceeded
    | Inr out \<Rightarrow> struct_in_range s \<and> take (length (frame_bytes s)) out = frame_bytes s"
  using ser_run_output [OF assms(1-3), of s] ser_run_bad [of s z ss line]
    struct_chunks_empty [OF assms(4), of s]
  by (cases "struct_in_range s") (auto simp: Let_def)

lemma serialize_outcome_witness:
  "case fst (ser_run zpp_ref \<lparr>ss_output_data = [replicate 40 255], ss_compact_data_buffer = [[1, 2]]\<rparr>
      sample_struct 0) of
      Inl e \<Rightarrow> \<not> struct_in_range sample_struct \<and> e = SizeLimitExceeded
    | Inr out \<Rightarrow> struct_in_range sample_struct \<and>
        take (length (frame_bytes sample_struct)) out = frame_bytes sample_struct"
  by (rule serialize_outcome) simp_all

text \<open>
  With more than one line the hit loop also writes the scratch buffers of the other lines:
  around the six bytes of every hit stand the leftovers of the lines before and after it.\<close>

theorem serialize_other_lines_leak:
  assumes "zpp_documented z" "struct_in_range s" "struct_in_range t" "hit_data t = [h]"
    "marker_data t = []" "hit_data s = [g]" "marker_data s = []"
  shows "let ss = snd (ser_run z (mk_StructSerializer 2) t 1) in
    fst (ser_run z ss s 0) = Inr (header_bytes_of (header s) @ element_bytes_of (hit_word g) @
      element_bytes_of (hit_word h))"
proof -
  let ?e = "element_bytes_of (hit_word h)"
  have r: "hit_in_range g" "hit_in_range h"
    using assms by (simp_all add: struct_in_range_def)
  have "ss_compact_data_buffer (snd (ser_run z (mk_StructSerializer 2) t 1)) = [[], ?e]"
    "ss_output_data (snd (ser_run z (mk_StructSerializer 2) t 1)) ! 0 = []"
    using assms r by (simp_all add: ser_run_def ser_convert_def mk_StructSerializer_def Let_def
        hit_to_compact_eq compact_to_vector_eq hit_word_def numeral_2_eq_2)
  moreover have "length (ss_output_data (snd (ser_run z (mk_StructSerializer 2) t 1))) = 2"
    using assms r by (simp add: ser_run_def ser_convert_def mk_StructSerializer_def Let_def
        hit_to_compact_eq numeral_2_eq_2)
  ultimately show ?thesis using ser_run_empty [OF assms(1) _ _ assms(2),
      of 0 "snd (ser_run z (mk_StructSerializer 2) t 1)"] assms
    by (simp add: Let_def struct_chunks_def hit_chunk_def)
qed

lemma serialize_other_lines_leak_witness:
  "let s = sample_struct\<lparr>marker_data := []\<rparr>; g = hit_data sample_struct ! 0;
       ss = snd (ser_run zpp_ref (mk_StructSerializer 2) s 1) in
    fst (ser_run zpp_ref ss s 0) = Inr (header_bytes_of (header s) @ element_bytes_of (hit_word g) @
      element_bytes_of (hit_word g))"
  using serialize_other_lines_leak [of zpp_ref "sample_struct\<lparr>marker_data := []\<rparr>"
      "sample_struct\<lparr>marker_data := []\<rparr>" "hit_data sample_struct ! 0" "hit_data sample_struct ! 0"]
    sample_struct_in_range
  by (simp add: Let_def struct_in_range_def) (simp add: sample_struct_def)

end
