(* ===== verification/State_Machine.thy ===== *)
theory State_Machine
  imports Main
begin

text \<open>
  Step relations of concurrent or event-driven components: the states reachable from the
  initial ones, and the contract of an invariant, which a component's own invariant
  interprets.
\<close>

inductive reach :: "('s \<Rightarrow> bool) \<Rightarrow> ('s \<Rightarrow> 's \<Rightarrow> bool) \<Rightarrow> 's \<Rightarrow> bool" for init step where
  reach_init: "init s \<Longrightarrow> reach init step s"
| reach_step: "reach init step s \<Longrightarrow> step s t \<Longrightarrow> reach init step t"

inductive steps :: "('s \<Rightarrow> 's \<Rightarrow> bool) \<Rightarrow> 's \<Rightarrow> 's \<Rightarrow> bool" for step where
  steps_refl: "steps step s s"
| steps_step: "step s t \<Longrightarrow> steps step t u \<Longrightarrow> steps step s u"

lemma steps_one: "step s t \<Longrightarrow> steps step s t"
  by (blast intro: steps_step steps_refl)

lemma steps_trans: "steps step s t \<Longrightarrow> steps step t u \<Longrightarrow> steps step s u"
  by (induction rule: steps.induct) (auto intro: steps_step)

lemma reach_steps: "steps step s t \<Longrightarrow> reach init step s \<Longrightarrow> reach init step t"
  by (induction rule: steps.induct) (auto intro: reach_step)

locale invariant_system =
  fixes init :: "'s \<Rightarrow> bool"
    and step :: "'s \<Rightarrow> 's \<Rightarrow> bool"
    and inv :: "'s \<Rightarrow> bool"
  assumes inv_init: "init s \<Longrightarrow> inv s"
    and inv_step: "inv s \<Longrightarrow> step s t \<Longrightarrow> inv t"
begin

lemma inv_reach: "reach init step s \<Longrightarrow> inv s"
  by (induction rule: reach.induct) (auto intro: inv_init inv_step)

lemma inv_steps: "steps step s t \<Longrightarrow> inv s \<Longrightarrow> inv t"
  by (induction rule: steps.induct) (auto intro: inv_step)

end

text \<open>A system that from every state short of its goal can make steps that shrink a measure
  reaches the goal.\<close>

locale terminating_system =
  fixes step :: "'s \<Rightarrow> 's \<Rightarrow> bool"
    and inv :: "'s \<Rightarrow> bool"
    and goal :: "'s \<Rightarrow> bool"
    and size_of :: "'s \<Rightarrow> nat"
  assumes progress: "inv s \<Longrightarrow> \<not> goal s \<Longrightarrow> \<exists>t. steps step s t \<and> inv t \<and> size_of t < size_of s"
begin

lemma reaches_goal: "inv s \<Longrightarrow> \<exists>t. steps step s t \<and> inv t \<and> goal t"
proof (induction "size_of s" arbitrary: s rule: less_induct)
  case less
  show ?case
  proof (cases "goal s")
    case True
    then show ?thesis using less.prems by (blast intro: steps_refl)
  next
    case False
    then obtain t where "steps step s t" "inv t" "size_of t < size_of s"
      using progress less.prems by blast
    then show ?thesis using less.hyps [of t] by (blast intro: steps_trans)
  qed
qed

end

end
