(* ===== verification/Frame_Count.thy ===== *)
theory Frame_Count
  imports Struct_Deserializer State_Machine "HOL-Library.Multiset"
begin

text \<open>
  The frame counter check \<^verbatim>\<open>sink::FrameCountChecker\<close>
  (\<^verbatim>\<open>backend/srs/sinks/FrameCountChecker.{hpp,cpp}\<close>): the frame counter of every frame is
  registered in two atomics, the largest counter seen and the number of frames missed. All
  pipeline lines share them, so \<open>register_frame_counter\<close> is a compare-and-swap loop. It is
  modelled twice: as the function one line computes when no other line interferes, and as a
  step relation in which every line loads, tries its swap (which may fail, spuriously too) and
  then updates the drop counter. \<^verbatim>\<open>int64_t\<close> is modelled by \<^verbatim>\<open>int\<close>: counters are below
  \<open>2 ^ 32\<close>, and by the final theorem the drop counter is the size of a set of counters.
\<close>

record FrameCountChecker =
  last_frame_counter :: int
  frame_drop_counter :: int

definition mk_FrameCountChecker :: FrameCountChecker where
  "mk_FrameCountChecker = \<lparr>last_frame_counter = 0, frame_drop_counter = 0\<rparr>"

datatype checker_error = ChecksDataTooSmall | ChecksHeaderFailed

definition extract_frame_counter :: "zpp_bits \<Rightarrow> bytes \<Rightarrow> checker_error + int" where
  "extract_frame_counter z binary_data =
     (let read_bytes = length binary_data in
      if read_bytes \<le> header_bytes then Inl ChecksDataTooSmall
      else
        case zpp_get_header z binary_data of
          None \<Rightarrow> Inl ChecksHeaderFailed
        | Some (h, _) \<Rightarrow> Inr (uint (frame_counter h)))"

text \<open>The value swapped in, and the change of the drop counter after a swap.\<close>

definition insert_value :: "int \<Rightarrow> int \<Rightarrow> int" where
  "insert_value counter last_value =
     (let diff = counter - last_value in if diff > 0 then counter else last_value)"

definition drop_change :: "int \<Rightarrow> int" where
  "drop_change diff = (if diff > 1 then diff - 1 else if diff < 0 then -1 else 0)"

definition register_frame_counter :: "int \<Rightarrow> FrameCountChecker \<Rightarrow> FrameCountChecker" where
  "register_frame_counter counter c =
     (let last_value = last_frame_counter c;
          diff = counter - last_value;
          c = c\<lparr>last_frame_counter := insert_value counter last_value\<rparr>
      in c\<lparr>frame_drop_counter := frame_drop_counter c + drop_change diff\<rparr>)"

definition analyze_frame_counter ::
  "zpp_bits \<Rightarrow> FrameCountChecker \<Rightarrow> bytes \<Rightarrow> (checker_error + int) \<times> FrameCountChecker" where
  "analyze_frame_counter z c binary_data =
     (let counter = extract_frame_counter z binary_data
      in (counter,
          case counter of Inr n \<Rightarrow> register_frame_counter n c | Inl _ \<Rightarrow> c))"

definition get_frame_drop_count :: "FrameCountChecker \<Rightarrow> int" where
  "get_frame_drop_count c = frame_drop_counter c"

section \<open>Lines sharing the checker\<close>

datatype fc_pc =
    FC_Idle
  | FC_Loaded int int  \<comment> \<open>frame counter, expected value\<close>
  | FC_Swapped int     \<comment> \<open>difference\<close>

record fc_line =
  fc_pc :: fc_pc
  fc_todo :: "int list"

text \<open>\<open>fc_registered\<close> is a history variable: the counters whose swap has succeeded.\<close>

record fc_system =
  fc_checker :: FrameCountChecker
  fc_lines :: "fc_line list"
  fc_registered :: "int list"

definition fc_set :: "fc_system \<Rightarrow> nat \<Rightarrow> fc_line \<Rightarrow> fc_system" where
  "fc_set s k l = s\<lparr>fc_lines := (fc_lines s)[k := l]\<rparr>"

inductive fc_step :: "fc_system \<Rightarrow> fc_system \<Rightarrow> bool" where
  fc_load: "k < length (fc_lines s) \<Longrightarrow> fc_lines s ! k = \<lparr>fc_pc = FC_Idle, fc_todo = n # ns\<rparr> \<Longrightarrow>
    fc_step s (fc_set s k \<lparr>fc_pc = FC_Loaded n (last_frame_counter (fc_checker s)), fc_todo = ns\<rparr>)"
| fc_swap: "k < length (fc_lines s) \<Longrightarrow> fc_lines s ! k = \<lparr>fc_pc = FC_Loaded n v, fc_todo = ns\<rparr> \<Longrightarrow>
    v = last_frame_counter (fc_checker s) \<Longrightarrow>
    fc_step s (fc_set (s\<lparr>fc_checker := (fc_checker s)\<lparr>last_frame_counter := insert_value n v\<rparr>,
        fc_registered := n # fc_registered s\<rparr>) k \<lparr>fc_pc = FC_Swapped (n - v), fc_todo = ns\<rparr>)"
| fc_retry: "k < length (fc_lines s) \<Longrightarrow> fc_lines s ! k = \<lparr>fc_pc = FC_Loaded n v, fc_todo = ns\<rparr> \<Longrightarrow>
    fc_step s (fc_set s k \<lparr>fc_pc = FC_Loaded n (last_frame_counter (fc_checker s)), fc_todo = ns\<rparr>)"
| fc_update: "k < length (fc_lines s) \<Longrightarrow> fc_lines s ! k = \<lparr>fc_pc = FC_Swapped d, fc_todo = ns\<rparr> \<Longrightarrow>
    fc_step s (fc_set (s\<lparr>fc_checker := (fc_checker s)\<lparr>frame_drop_counter :=
        frame_drop_counter (fc_checker s) + drop_change d\<rparr>\<rparr>) k \<lparr>fc_pc = FC_Idle, fc_todo = ns\<rparr>)"

definition fc_start :: "int list list \<Rightarrow> fc_system" where
  "fc_start todo = \<lparr>fc_checker = mk_FrameCountChecker,
     fc_lines = map (\<lambda>ns. \<lparr>fc_pc = FC_Idle, fc_todo = ns\<rparr>) todo, fc_registered = []\<rparr>"

definition fc_done :: "fc_system \<Rightarrow> bool" where
  "fc_done s \<longleftrightarrow> list_all (\<lambda>l. fc_pc l = FC_Idle \<and> fc_todo l = []) (fc_lines s)"

section \<open>The invariant\<close>

text \<open>What a line still has to register, and the change it still owes the drop counter.\<close>

definition line_counters :: "fc_line \<Rightarrow> int multiset" where
  "line_counters l = mset (fc_todo l) + (case fc_pc l of FC_Loaded n v \<Rightarrow> {#n#} | _ \<Rightarrow> {#})"

definition line_owes :: "fc_line \<Rightarrow> int" where
  "line_owes l = (case fc_pc l of FC_Swapped d \<Rightarrow> drop_change d | _ \<Rightarrow> 0)"

lemma line_counters_simps [simp]:
  "line_counters \<lparr>fc_pc = FC_Idle, fc_todo = ns\<rparr> = mset ns"
  "line_counters \<lparr>fc_pc = FC_Loaded n v, fc_todo = ns\<rparr> = add_mset n (mset ns)"
  "line_counters \<lparr>fc_pc = FC_Swapped d, fc_todo = ns\<rparr> = mset ns"
  by (simp_all add: line_counters_def)

lemma line_owes_simps [simp]:
  "line_owes \<lparr>fc_pc = FC_Idle, fc_todo = ns\<rparr> = 0"
  "line_owes \<lparr>fc_pc = FC_Loaded n v, fc_todo = ns\<rparr> = 0"
  "line_owes \<lparr>fc_pc = FC_Swapped d, fc_todo = ns\<rparr> = drop_change d"
  by (simp_all add: line_owes_def)

definition fc_inv :: "int list list \<Rightarrow> fc_system \<Rightarrow> bool" where
  "fc_inv todo s \<longleftrightarrow>
     (\<Sum>l\<leftarrow>fc_lines s. line_counters l) + mset (fc_registered s) = (\<Sum>ns\<leftarrow>todo. mset ns) \<and>
     last_frame_counter (fc_checker s) = Max (insert 0 (set (fc_registered s))) \<and>
     frame_drop_counter (fc_checker s) + (\<Sum>l\<leftarrow>fc_lines s. line_owes l) =
       last_frame_counter (fc_checker s) - int (length (fc_registered s))"

lemma sum_list_map_update_int:
  fixes f :: "'a \<Rightarrow> int"
  shows "k < length xs \<Longrightarrow> (\<Sum>x\<leftarrow>xs[k := y]. f x) = (\<Sum>x\<leftarrow>xs. f x) - f (xs ! k) + f y"
  using sum_list_map_update [of k xs f y] by simp

lemma sum_list_mset_update_same:
  fixes f :: "'a \<Rightarrow> 'b multiset"
  assumes "k < length xs" "f (xs ! k) = f y"
  shows "(\<Sum>x\<leftarrow>xs[k := y]. f x) = (\<Sum>x\<leftarrow>xs. f x)"
  using sum_list_map_update [OF assms(1), of f y] assms(2) by simp

lemma sum_list_mset_update_less:
  fixes f :: "'a \<Rightarrow> 'b multiset"
  assumes "k < length xs" "f (xs ! k) = add_mset n (f y)"
  shows "(\<Sum>x\<leftarrow>xs. f x) = add_mset n (\<Sum>x\<leftarrow>xs[k := y]. f x)"
  using sum_list_map_update [OF assms(1), of f y] assms(2) by simp

definition counters_ok :: "int list list \<Rightarrow> bool" where
  "counters_ok todo \<longleftrightarrow> distinct (concat todo) \<and> (\<forall>n \<in> set (concat todo). 0 < n)"

lemma sum_list_mset: "(\<Sum>ns\<leftarrow>todo. mset ns) = mset (concat todo)"
  by (induction todo) simp_all

lemma registered_new:
  assumes "fc_inv todo s" "counters_ok todo" "k < length (fc_lines s)"
    "n \<in># line_counters (fc_lines s ! k)"
  shows "n \<notin> set (fc_registered s) \<and> 0 < n"
proof -
  let ?r = "\<Sum>l\<leftarrow>(fc_lines s)[k := \<lparr>fc_pc = FC_Idle, fc_todo = []\<rparr>]. line_counters l"
  have "(\<Sum>l\<leftarrow>fc_lines s. line_counters l) = ?r + line_counters (fc_lines s ! k)"
    using sum_list_map_update [OF assms(3), of line_counters "\<lparr>fc_pc = FC_Idle, fc_todo = []\<rparr>"] by simp
  then have all: "mset (concat todo) = ?r + line_counters (fc_lines s ! k) + mset (fc_registered s)"
    using assms(1) by (simp add: fc_inv_def sum_list_mset)
  then have "count (mset (concat todo)) n \<ge>
      count (line_counters (fc_lines s ! k)) n + count (mset (fc_registered s)) n" by simp
  moreover have "count (mset (concat todo)) n \<le> 1"
    using assms(2) by (simp add: counters_ok_def distinct_count_atmost_1)
  moreover have "count (line_counters (fc_lines s ! k)) n \<ge> 1"
    using assms(4) by (metis One_nat_def Suc_leI count_greater_zero_iff)
  ultimately have "count (mset (fc_registered s)) n = 0" by linarith
  then have "n \<notin> set (fc_registered s)" by (metis count_mset_0_iff)
  moreover have "n \<in># mset (concat todo)" using all assms(4) by (metis union_iff)
  ultimately show ?thesis using assms(2) by (auto simp: counters_ok_def)
qed

lemma fc_inv_step:
  assumes "fc_inv todo s" "counters_ok todo" "fc_step s t"
  shows "fc_inv todo t"
  using assms(3)
proof cases
  case (fc_load k n ns)
  then show ?thesis using assms(1)
    by (simp add: fc_inv_def fc_set_def sum_list_mset_update_same sum_list_map_update_int)
next
  case (fc_retry k n v ns)
  then show ?thesis using assms(1)
    by (simp add: fc_inv_def fc_set_def sum_list_mset_update_same sum_list_map_update_int)
next
  case (fc_update k d ns)
  then show ?thesis using assms(1)
    by (simp add: fc_inv_def fc_set_def sum_list_mset_update_same sum_list_map_update_int)
next
  case (fc_swap k n v ns)
  have new: "n \<notin> set (fc_registered s)" "0 < n"
    using registered_new [OF assms(1,2) fc_swap(2), of n] fc_swap(3) by simp_all
  have v: "v = Max (insert 0 (set (fc_registered s)))"
    using assms(1) fc_swap(4) by (simp add: fc_inv_def)
  then have "v \<in> insert 0 (set (fc_registered s))" by (metis Max_in List.finite_set finite_insert insert_not_empty)
  then have ne: "n \<noteq> v" using new by auto
  have "Max (insert n (insert 0 (set (fc_registered s)))) = max n v"
    unfolding v by (intro Max_insert) simp_all
  then have "insert_value n v = Max (insert n (insert 0 (set (fc_registered s))))"
    by (simp add: insert_value_def Let_def)
  then have m: "insert_value n v = Max (insert 0 (insert n (set (fc_registered s))))"
    by (simp add: insert_commute)
  have "insert_value n v - int (Suc (length (fc_registered s))) =
      v - int (length (fc_registered s)) + drop_change (n - v)"
    using ne by (simp add: insert_value_def drop_change_def Let_def)
  note change = this
  let ?l = "\<lparr>fc_pc = FC_Swapped (n - v), fc_todo = ns\<rparr>"
  have t: "fc_lines t = (fc_lines s)[k := ?l]" "fc_registered t = n # fc_registered s"
    "last_frame_counter (fc_checker t) = insert_value n v"
    "frame_drop_counter (fc_checker t) = frame_drop_counter (fc_checker s)"
    using fc_swap(1) by (simp_all add: fc_set_def)
  have "(\<Sum>l\<leftarrow>fc_lines s. line_counters l) = add_mset n (\<Sum>l\<leftarrow>fc_lines t. line_counters l)"
    unfolding t by (rule sum_list_mset_update_less [OF fc_swap(2)]) (simp add: fc_swap(3))
  moreover have "(\<Sum>l\<leftarrow>fc_lines t. line_owes l) = (\<Sum>l\<leftarrow>fc_lines s. line_owes l) + drop_change (n - v)"
    unfolding t by (subst sum_list_map_update_int [OF fc_swap(2)]) (simp add: fc_swap(3))
  ultimately show ?thesis using assms(1) m change fc_swap(4)
    unfolding fc_inv_def t by (simp only: mset.simps list.set list.size) simp
qed

lemma fc_inv_start: "fc_inv todo (fc_start todo)"
proof -
  have "(\<Sum>l\<leftarrow>map (\<lambda>ns. \<lparr>fc_pc = FC_Idle, fc_todo = ns\<rparr>) todo. line_counters l) = (\<Sum>ns\<leftarrow>todo. mset ns)"
    "(\<Sum>l\<leftarrow>map (\<lambda>ns. \<lparr>fc_pc = FC_Idle, fc_todo = ns\<rparr>) todo. line_owes l) = 0"
    by (induction todo) simp_all
  then show ?thesis by (simp add: fc_inv_def fc_start_def mk_FrameCountChecker_def)
qed


interpretation fc: invariant_system "\<lambda>s. counters_ok todo \<and> s = fc_start todo" fc_step
  "\<lambda>s. counters_ok todo \<and> fc_inv todo s" for todo
  by unfold_locales (auto simp: fc_inv_start fc_inv_step)

lemma fc_inv_reach:
  "counters_ok todo \<Longrightarrow> steps fc_step (fc_start todo) s \<Longrightarrow> fc_inv todo s"
  using fc.inv_steps [of "fc_start todo" s todo] by (simp add: fc_inv_start)

section \<open>Progress\<close>

text \<open>Whatever the lines have done so far, some line can finish the counter it is at: it loads
  (or reloads) the expected value, swaps and updates.\<close>

definition line_work :: "fc_line \<Rightarrow> nat" where
  "line_work l = 2 * length (fc_todo l) + (case fc_pc l of FC_Idle \<Rightarrow> 0 | _ \<Rightarrow> 1)"

definition fc_work :: "fc_system \<Rightarrow> nat" where
  "fc_work s = (\<Sum>l\<leftarrow>fc_lines s. line_work l)"

lemma sum_list_nat_less:
  fixes f :: "'a \<Rightarrow> nat"
  assumes "k < length xs" "f y < f (xs ! k)"
  shows "(\<Sum>x\<leftarrow>xs[k := y]. f x) < (\<Sum>x\<leftarrow>xs. f x)"
  using assms by (induction xs arbitrary: k) (auto split: nat.split)

lemma fc_set_set [simp]: "fc_set (fc_set s k a) k b = fc_set s k b"
  by (simp add: fc_set_def)

lemma fc_finish:
  assumes "k < length (fc_lines s)" "fc_pc (fc_lines s ! k) \<noteq> FC_Idle \<or> fc_todo (fc_lines s ! k) \<noteq> []"
  shows "\<exists>t ns. steps fc_step s t \<and> fc_lines t = (fc_lines s)[k := \<lparr>fc_pc = FC_Idle, fc_todo = ns\<rparr>] \<and>
    line_work \<lparr>fc_pc = FC_Idle, fc_todo = ns\<rparr> < line_work (fc_lines s ! k)"
proof -
  have upd: "\<exists>t. fc_step s t \<and> fc_lines t = (fc_lines s)[k := \<lparr>fc_pc = FC_Idle, fc_todo = ns\<rparr>]"
    if "k < length (fc_lines s)" "fc_lines s ! k = \<lparr>fc_pc = FC_Swapped d, fc_todo = ns\<rparr>" for s d ns
    using fc_update [OF that] by (auto simp: fc_set_def)
  have swp: "\<exists>t. steps fc_step s t \<and> fc_lines t = (fc_lines s)[k := \<lparr>fc_pc = FC_Idle, fc_todo = ns\<rparr>]"
    if k: "k < length (fc_lines s)"
      "fc_lines s ! k = \<lparr>fc_pc = FC_Loaded n (last_frame_counter (fc_checker s)), fc_todo = ns\<rparr>"
    for s n ns
  proof -
    obtain u d where u: "fc_step s u" "fc_lines u = (fc_lines s)[k := \<lparr>fc_pc = FC_Swapped d, fc_todo = ns\<rparr>]"
      using fc_swap [OF k refl] by (force simp: fc_set_def)
    moreover obtain t where "fc_step u t" "fc_lines t = (fc_lines u)[k := \<lparr>fc_pc = FC_Idle, fc_todo = ns\<rparr>]"
      using upd [of u d ns] u(2) k(1) by auto
    moreover from calculation have "steps fc_step s t"
      by (meson steps_step steps_refl)
    ultimately show ?thesis by auto
  qed
  obtain p ns where l: "fc_lines s ! k = \<lparr>fc_pc = p, fc_todo = ns\<rparr>" by (cases "fc_lines s ! k")
  show ?thesis
  proof (cases p)
    case FC_Idle
    with assms l obtain n ms where ns: "ns = n # ms" by (cases ns) auto
    obtain u where u: "fc_step s u" "fc_checker u = fc_checker s"
      "fc_lines u = (fc_lines s)[k := \<lparr>fc_pc = FC_Loaded n (last_frame_counter (fc_checker s)), fc_todo = ms\<rparr>]"
      using fc_load [OF assms(1), of n ms] l ns FC_Idle by (auto simp: fc_set_def)
    moreover obtain t where "steps fc_step u t" "fc_lines t = (fc_lines s)[k := \<lparr>fc_pc = FC_Idle, fc_todo = ms\<rparr>]"
      using swp [of u n ms] u(2,3) assms(1) by auto
    ultimately show ?thesis using l ns FC_Idle
      by (intro exI [of _ t] exI [of _ ms]) (auto simp: line_work_def intro: steps_step)
  next
    case (FC_Loaded n v)
    obtain u where u: "fc_step s u" "fc_checker u = fc_checker s"
      "fc_lines u = (fc_lines s)[k := \<lparr>fc_pc = FC_Loaded n (last_frame_counter (fc_checker s)), fc_todo = ns\<rparr>]"
      using fc_retry [OF assms(1), of n v ns] l FC_Loaded by (auto simp: fc_set_def)
    moreover obtain t where "steps fc_step u t" "fc_lines t = (fc_lines s)[k := \<lparr>fc_pc = FC_Idle, fc_todo = ns\<rparr>]"
      using swp [of u n ns] u(2,3) assms(1) by auto
    ultimately show ?thesis using l FC_Loaded
      by (intro exI [of _ t] exI [of _ ns]) (auto simp: line_work_def intro: steps_step)
  next
    case (FC_Swapped d)
    then obtain t where "fc_step s t" "fc_lines t = (fc_lines s)[k := \<lparr>fc_pc = FC_Idle, fc_todo = ns\<rparr>]"
      using upd [OF assms(1), of d ns] l by auto
    then show ?thesis using l FC_Swapped
      by (intro exI [of _ t] exI [of _ ns]) (auto simp: line_work_def intro: steps_step steps_refl)
  qed
qed

interpretation fc_progress: terminating_system fc_step "\<lambda>s. True" fc_done fc_work
proof unfold_locales
  fix s assume "\<not> fc_done s"
  then obtain k where k: "k < length (fc_lines s)"
    "fc_pc (fc_lines s ! k) \<noteq> FC_Idle \<or> fc_todo (fc_lines s ! k) \<noteq> []"
    by (auto simp: fc_done_def list_all_length)
  then obtain t ns where t: "steps fc_step s t"
    "fc_lines t = (fc_lines s)[k := \<lparr>fc_pc = FC_Idle, fc_todo = ns\<rparr>]"
    "line_work \<lparr>fc_pc = FC_Idle, fc_todo = ns\<rparr> < line_work (fc_lines s ! k)"
    using fc_finish by blast
  then have "fc_work t < fc_work s" using k(1) by (simp add: fc_work_def sum_list_nat_less)
  with t(1) show "\<exists>t. steps fc_step s t \<and> True \<and> fc_work t < fc_work s" by blast
qed

section \<open>The count at the end\<close>

lemma fc_final:
  assumes "counters_ok todo" "steps fc_step (fc_start todo) s" "fc_done s"
  shows "last_frame_counter (fc_checker s) = Max (insert 0 (set (concat todo)))"
    and "frame_drop_counter (fc_checker s) =
      Max (insert 0 (set (concat todo))) - int (length (concat todo))"
proof -
  have inv: "fc_inv todo s" using fc_inv_reach assms(1,2) .
  have "(\<Sum>l\<leftarrow>ls. line_counters l) = {#} \<and> (\<Sum>l\<leftarrow>ls. line_owes l) = 0"
    if "list_all (\<lambda>l. fc_pc l = FC_Idle \<and> fc_todo l = []) ls" for ls
    using that by (induction ls) (auto simp: line_counters_def line_owes_def)
  then have z: "(\<Sum>l\<leftarrow>fc_lines s. line_counters l) = {#} \<and> (\<Sum>l\<leftarrow>fc_lines s. line_owes l) = 0"
    using assms(3) by (simp add: fc_done_def)
  then have m: "mset (fc_registered s) = mset (concat todo)"
    using inv by (simp add: fc_inv_def sum_list_mset)
  have "set (fc_registered s) = set (concat todo)" using m by (rule mset_eq_setD)
  moreover have "length (fc_registered s) = length (concat todo)" using m by (rule mset_eq_length)
  ultimately show "last_frame_counter (fc_checker s) = Max (insert 0 (set (concat todo)))"
    "frame_drop_counter (fc_checker s) =
      Max (insert 0 (set (concat todo))) - int (length (concat todo))"
    using inv z by (simp_all only: fc_inv_def) simp_all
qed

lemma missing_count:
  assumes "counters_ok todo"
  shows "int (card ({1..Max (insert 0 (set (concat todo)))} - set (concat todo))) =
    Max (insert 0 (set (concat todo))) - int (length (concat todo))"
proof -
  let ?S = "set (concat todo)" let ?m = "Max (insert 0 ?S)"
  have "?S \<subseteq> {1..?m}"
  proof
    fix n assume "n \<in> ?S"
    moreover have "0 < n" using assms \<open>n \<in> ?S\<close> by (simp only: counters_ok_def)
    moreover have "n \<le> ?m" using \<open>n \<in> ?S\<close> by (intro Max_ge) auto
    ultimately show "n \<in> {1..?m}" by simp
  qed
  moreover have "card ?S = length (concat todo)"
    using assms by (simp only: counters_ok_def distinct_card)
  moreover have "0 \<le> ?m" by (intro Max_ge) auto
  moreover have "card ?S \<le> card {1..?m}" using calculation(1) by (intro card_mono) simp_all
  ultimately show ?thesis by (simp add: card_Diff_subset of_nat_diff del: set_concat)
qed

section \<open>Properties\<close>

text \<open>
  C7. However the lines interleave and however often a swap fails, when all lines are done the
  checker holds the largest frame counter received and exactly the number of counters between 1
  and it that were not received, provided the counters received are positive and no two equal.\<close>

theorem frame_drop_count_exact:
  assumes "counters_ok todo" "steps fc_step (fc_start todo) s" "fc_done s"
  shows "last_frame_counter (fc_checker s) = Max (insert 0 (set (concat todo))) \<and>
    get_frame_drop_count (fc_checker s) =
      int (card ({1..last_frame_counter (fc_checker s)} - set (concat todo)))"
  using fc_final [OF assms] missing_count [OF assms(1)] by (simp only: get_frame_drop_count_def)

text \<open>
  C13. The lines never block each other: from every state of the system, stale loads included,
  there is a run in which all lines finish.\<close>

theorem frame_count_finishes:
  "\<exists>t. steps fc_step s t \<and> fc_done t"
  using fc_progress.reaches_goal [of s] by blast


lemma frame_drop_count_exact_witness:
  "\<exists>t. steps fc_step (fc_start [[1, 4], [3, 7]]) t \<and>
    last_frame_counter (fc_checker t) = Max (insert 0 (set (concat [[1, 4], [3, 7]]))) \<and>
    get_frame_drop_count (fc_checker t) =
      int (card ({1..last_frame_counter (fc_checker t)} - set (concat [[1, 4], [3, 7]])))"
proof -
  obtain t where t: "steps fc_step (fc_start [[1, 4], [3, 7]]) t" "fc_done t"
    using fc_progress.reaches_goal by blast
  then show ?thesis using frame_drop_count_exact [OF _ t] by (auto simp: counters_ok_def)
qed


text \<open>
  A frame longer than the header registers the number in its first four bytes, read in
  network order; a shorter one is an error and changes nothing. What the registering function
  computes is what a line does in the step relation when no other line interferes.\<close>

theorem analyze_frame_counter_outcome:
  assumes "zpp_documented z" "k < length (fc_lines s)"
    "fc_lines s ! k = \<lparr>fc_pc = FC_Idle, fc_todo = uint (of_be_bytes (take 4 bs) :: u32) # ns\<rparr>"
  shows "(length bs \<le> 16 \<longrightarrow>
      analyze_frame_counter z c bs = (Inl ChecksDataTooSmall, c)) \<and>
    (16 < length bs \<longrightarrow>
      fst (analyze_frame_counter z c bs) = Inr (uint (of_be_bytes (take 4 bs) :: u32)) \<and>
      (\<exists>t. steps fc_step s t \<and>
         fc_checker t = snd (analyze_frame_counter z (fc_checker s) bs) \<and>
         fc_lines t = (fc_lines s)[k := \<lparr>fc_pc = FC_Idle, fc_todo = ns\<rparr>]))"
proof (intro conjI impI)
  let ?n = "uint (of_be_bytes (take 4 bs) :: u32)"
  let ?v = "last_frame_counter (fc_checker s)"
  show "analyze_frame_counter z c bs = (Inl ChecksDataTooSmall, c)" if "length bs \<le> 16"
    using that by (simp add: analyze_frame_counter_def extract_frame_counter_def)
  assume len: "16 < length bs"
  have ex: "extract_frame_counter z bs = Inr ?n"
    using len assms(1) by (simp add: extract_frame_counter_def zpp_get_header_eq header_of_def)
  then show "fst (analyze_frame_counter z c bs) = Inr ?n" by (simp add: analyze_frame_counter_def)
  let ?s1 = "fc_set s k \<lparr>fc_pc = FC_Loaded ?n ?v, fc_todo = ns\<rparr>"
  let ?s2 = "fc_set (?s1\<lparr>fc_checker := (fc_checker ?s1)\<lparr>last_frame_counter := insert_value ?n ?v\<rparr>,
      fc_registered := ?n # fc_registered ?s1\<rparr>) k \<lparr>fc_pc = FC_Swapped (?n - ?v), fc_todo = ns\<rparr>"
  let ?s3 = "fc_set (?s2\<lparr>fc_checker := (fc_checker ?s2)\<lparr>frame_drop_counter :=
      frame_drop_counter (fc_checker ?s2) + drop_change (?n - ?v)\<rparr>\<rparr>) k \<lparr>fc_pc = FC_Idle, fc_todo = ns\<rparr>"
  have "fc_step s ?s1" by (rule fc_load [OF assms(2,3)])
  moreover have "fc_step ?s1 ?s2" by (rule fc_swap) (simp_all add: fc_set_def assms(2))
  moreover have "fc_step ?s2 ?s3" by (rule fc_update) (simp_all add: fc_set_def assms(2))
  ultimately have "steps fc_step s ?s3" by (meson steps_step steps_refl)
  moreover have "fc_checker ?s3 = snd (analyze_frame_counter z (fc_checker s) bs)"
    using ex by (simp add: analyze_frame_counter_def register_frame_counter_def fc_set_def Let_def)
  moreover have "fc_lines ?s3 = (fc_lines s)[k := \<lparr>fc_pc = FC_Idle, fc_todo = ns\<rparr>]"
    by (simp add: fc_set_def)
  ultimately show "\<exists>t. steps fc_step s t \<and>
      fc_checker t = snd (analyze_frame_counter z (fc_checker s) bs) \<and>
      fc_lines t = (fc_lines s)[k := \<lparr>fc_pc = FC_Idle, fc_todo = ns\<rparr>]" by blast
qed

lemma analyze_frame_counter_outcome_witness:
  "fst (analyze_frame_counter zpp_ref mk_FrameCountChecker (replicate 20 0)) = Inr 0"
proof -
  have z: "(of_be_bytes (take 4 (replicate 20 0)) :: u32) = 0"
    by (rule bit_word_eqI) (simp add: of_be_bytes_def bit_simps)
  show ?thesis
    using analyze_frame_counter_outcome [of zpp_ref 0 "fc_start [[0]]" "replicate 20 0" "[]" mk_FrameCountChecker] z
    by (simp add: fc_start_def)
qed

end
