(* ===== verification/Sink_Manager.thy ===== *)
theory Sink_Manager
  imports Raw_Files Json_Writer Root_Writer Frame_Count
begin

text \<open>
  The sinks of a run, \<^verbatim>\<open>sink::Manager\<close> (\<^verbatim>\<open>backend/srs/sinks/Manager.{hpp,cpp}\<close>): output
  names become binary files, UDP sockets, JSON files or ROOT files by their kind, the frame
  counter check is added on request, and the conversions the sinks need are computed from
  the conversion graph. What the operating system decides (which files open, what a host name
  resolves to), the build option \<^verbatim>\<open>HAS_ROOT\<close> and the trees of the ROOT library are the fields of
  \<open>sink_env\<close>.
\<close>

type_synonym endpoint = "string \<times> u16"

record sink_env =
  env_n_lines :: nat
  env_can_open :: "string \<Rightarrow> bool"
  env_resolve :: "string \<Rightarrow> string \<Rightarrow> string + endpoint list"
  env_has_root :: bool
  env_root :: "TTree root_trees"

datatype sink_error = FileCannotBeOpen string | JsonWriterError json_error

section \<open>Socket names\<close>

definition substr_after :: "char \<Rightarrow> string \<Rightarrow> string" where
  "substr_after c s = drop 1 (dropWhile (\<lambda>x. x \<noteq> c) s)"

definition convert_str_to_endpoint ::
  "(string \<Rightarrow> string \<Rightarrow> string + endpoint list) \<Rightarrow> string \<Rightarrow> endpoint option" where
  "convert_str_to_endpoint resolve ip_port =
     (if CHR '':'' \<notin> set ip_port then None
      else
        let ip_string = takeWhile (\<lambda>x. x \<noteq> CHR '':'') ip_port;
            port_str = (if CHR ''?'' \<notin> set ip_port then substr_after (CHR '':'') ip_port
              else substr_after (CHR ''?'') ip_port)
        in case resolve ip_string port_str of
             Inl err \<Rightarrow> None
           | Inr results \<Rightarrow> Some (hd results))"

lemma convert_str_proto:
  assumes "CHR '':'' \<notin> set ip" "CHR ''?'' \<notin> set ip" "CHR ''?'' \<notin> set port"
    "resolve ip port = Inr (e # es)"
  shows "convert_str_to_endpoint resolve (ip @ '':'' @ port) = Some e"
  using assms by (simp add: convert_str_to_endpoint_def substr_after_def takeWhile_upto dropWhile_upto)

lemma convert_str_raw:
  assumes "CHR '':'' \<notin> set ip" "CHR ''?'' \<notin> set ip" "resolve ip port = Inr (e # es)"
  shows "convert_str_to_endpoint resolve (ip @ '':?'' @ port) = Some e"
  using assms dropWhile_upto [of "CHR ''?''" "ip @ '':''" port]
  by (simp add: convert_str_to_endpoint_def substr_after_def takeWhile_upto)

section \<open>The UDP sink\<close>

record UDP =
  udp_output_data :: "nat list"
  udp_remote_endpoint :: endpoint

definition mk_UDP :: "endpoint \<Rightarrow> nat \<Rightarrow> UDP" where
  "mk_UDP ep n_lines = \<lparr>udp_output_data = replicate n_lines 0, udp_remote_endpoint = ep\<rparr>"

text \<open>An empty message is not sent. \<open>send\<close> is what \<^verbatim>\<open>send_to\<close> reports.\<close>

definition send_sync_message :: "(endpoint \<Rightarrow> bytes \<Rightarrow> nat) \<Rightarrow> endpoint \<Rightarrow> bytes \<Rightarrow> nat" where
  "send_sync_message send ep input_data = (if input_data \<noteq> [] then send ep input_data else 0)"

definition udp_run :: "(endpoint \<Rightarrow> bytes \<Rightarrow> nat) \<Rightarrow> UDP \<Rightarrow> bytes \<Rightarrow> nat \<Rightarrow> ('e + nat) \<times> UDP" where
  "udp_run send u input line =
     (let n = send_sync_message send (udp_remote_endpoint u) input;
          u = u\<lparr>udp_output_data := (udp_output_data u)[line := n]\<rparr>
      in (Inr (udp_output_data u ! line), u))"

interpretation udp: line_task "\<lambda>u. length (udp_output_data u)"
  "\<lambda>u k. (udp_output_data u ! k, udp_remote_endpoint u)" "udp_run send" fst for send
  by unfold_locales (auto simp: udp_run_def Let_def)

section \<open>The manager\<close>

text \<open>\<^verbatim>\<open>std::map::try_emplace\<close> on a map kept in key order.\<close>

fun map_try_emplace :: "'k::linorder \<Rightarrow> 'v \<Rightarrow> ('k \<times> 'v) list \<Rightarrow> ('k \<times> 'v) list \<times> bool" where
  "map_try_emplace k v [] = ([(k, v)], True)"
| "map_try_emplace k v ((k', v') # m) =
     (if k < k' then ((k, v) # (k', v') # m, True)
      else if k = k' then ((k', v') # m, False)
      else map_prod (\<lambda>m. (k', v') # m) id (map_try_emplace k v m))"

record Manager =
  binary_files :: "(string \<times> DataConvertOptions \<times> BinaryFile) list"
  frame_count_checker :: "FrameCountChecker option"
  udp_files :: "(string \<times> DataConvertOptions \<times> UDP) list"
  json_files :: "(string \<times> DataConvertOptions \<times> Json) list"
  root_files :: "(string \<times> DataConvertOptions \<times> TTree RootFile) list"

definition mk_Manager :: Manager where
  "mk_Manager = \<lparr>binary_files = [], frame_count_checker = None, udp_files = [], json_files = [],
     root_files = []\<rparr>"

text \<open>What a visitor of \<^verbatim>\<open>do_for_each_sink\<close> sees of a sink, in the order of the visits.\<close>

datatype sink_kind = K_binary | K_udp | K_json | K_checker | K_root

record sink_ref =
  sink_name :: string
  sink_kind :: sink_kind
  sink_required :: DataConvertOptions

definition do_for_each_sink :: "Manager \<Rightarrow> sink_ref list" where
  "do_for_each_sink m =
     map (\<lambda>(n, c, _). \<lparr>sink_name = n, sink_kind = K_binary, sink_required = c\<rparr>) (binary_files m) @
     map (\<lambda>(n, c, _). \<lparr>sink_name = n, sink_kind = K_udp, sink_required = c\<rparr>) (udp_files m) @
     map (\<lambda>(n, c, _). \<lparr>sink_name = n, sink_kind = K_json, sink_required = c\<rparr>) (json_files m) @
     (if frame_count_checker m \<noteq> None
      then [\<lparr>sink_name = ''FrameCountChecker'', sink_kind = K_checker, sink_required = opt_raw\<rparr>] else []) @
     map (\<lambda>(n, c, _). \<lparr>sink_name = n, sink_kind = K_root, sink_required = c\<rparr>) (root_files m)"

definition is_convert_required :: "Manager \<Rightarrow> DataConvertOptions \<Rightarrow> bool" where
  "is_convert_required m dependee =
     fold (\<lambda>sink is_required. is_required \<or>
        convert_option_has_dependency dependee (sink_required sink)) (do_for_each_sink m) False"

definition generate_conversion_req_map :: "Manager \<Rightarrow> (DataConvertOptions \<times> bool) list" where
  "generate_conversion_req_map m =
     (let convert_map = map (\<lambda>conversion. (conversion, is_convert_required m conversion)) option_values
      in if True \<notin> set (map snd convert_map)
         then map (\<lambda>(c, b). if c = opt_none then (c, True) else (c, b)) convert_map
         else convert_map)"

definition enable_frame_count_checker :: "Manager \<Rightarrow> Manager" where
  "enable_frame_count_checker m =
     (if frame_count_checker m = None then m\<lparr>frame_count_checker := Some mk_FrameCountChecker\<rparr> else m)"

text \<open>The new sink is made before the map is asked whether the name is new; a file that does
  not open is an exception.\<close>

definition add_binary_file ::
  "sink_env \<Rightarrow> string \<Rightarrow> DataConvertOptions \<Rightarrow> Manager \<Rightarrow> (sink_error + bool) \<times> Manager" where
  "add_binary_file env filename prev_conversion m =
     (if \<not> list_all (env_can_open env) (line_filenames filename (env_n_lines env))
      then (Inl (FileCannotBeOpen filename), m)
      else
        let (files, new) =
          map_try_emplace filename (prev_conversion, mk_BinaryFile (env_n_lines env)) (binary_files m)
        in (Inr new, m\<lparr>binary_files := files\<rparr>))"

definition add_udp_file ::
  "sink_env \<Rightarrow> string \<Rightarrow> DataConvertOptions \<Rightarrow> Manager \<Rightarrow> (sink_error + bool) \<times> Manager" where
  "add_udp_file env filename prev_conversion m =
     (case convert_str_to_endpoint (env_resolve env) filename of
        Some ep \<Rightarrow>
          let (files, new) =
            map_try_emplace filename (prev_conversion, mk_UDP ep (env_n_lines env)) (udp_files m)
          in (Inr new, m\<lparr>udp_files := files\<rparr>)
      | None \<Rightarrow> (Inr False, m))"

definition add_root_file ::
  "sink_env \<Rightarrow> string \<Rightarrow> DataConvertOptions \<Rightarrow> Manager \<Rightarrow> (sink_error + bool) \<times> Manager" where
  "add_root_file env filename prev_conversion m =
     (if env_has_root env then
        let (files, new) = map_try_emplace filename
          (prev_conversion, mk_RootFile (env_root env) filename (env_n_lines env)) (root_files m)
        in (Inr new, m\<lparr>root_files := files\<rparr>)
      else (Inr False, m))"

definition add_json_file ::
  "sink_env \<Rightarrow> string \<Rightarrow> DataConvertOptions \<Rightarrow> Manager \<Rightarrow> (sink_error + bool) \<times> Manager" where
  "add_json_file env filename prev_conversion m =
     (case mk_Json (env_can_open env) filename (env_n_lines env) of
        Inl e \<Rightarrow> (Inl (JsonWriterError e), m)
      | Inr js \<Rightarrow>
          let (files, new) = map_try_emplace filename (prev_conversion, js) (json_files m)
          in (Inr new, m\<lparr>json_files := files\<rparr>))"

definition set_output_filename :: "sink_env \<Rightarrow> string \<Rightarrow> Manager \<Rightarrow> (sink_error + bool) \<times> Manager" where
  "set_output_filename env filename m =
     (let (filetype, convert_mode) = get_filetype_from_filename filename in
      case filetype of
        no_output \<Rightarrow> (Inr False, m)
      | w_bin \<Rightarrow> add_binary_file env filename convert_mode m
      | w_udp \<Rightarrow> add_udp_file env filename convert_mode m
      | w_root \<Rightarrow> if \<not> env_has_root env then (Inr False, m) else add_root_file env filename convert_mode m
      | w_json \<Rightarrow> add_json_file env filename convert_mode m)"

fun set_output_filenames :: "sink_env \<Rightarrow> string list \<Rightarrow> Manager \<Rightarrow> (sink_error + unit) \<times> Manager" where
  "set_output_filenames env [] m = (Inr (), m)"
| "set_output_filenames env (filename # filenames) m =
     (if filename = [] then set_output_filenames env filenames m
      else
        case set_output_filename env filename m of
          (Inl e, m) \<Rightarrow> (Inl e, m)
        | (Inr is_ok, m) \<Rightarrow> set_output_filenames env filenames m)"

section \<open>Required conversions\<close>

lemma fold_or: "fold (\<lambda>x b. b \<or> P x) xs c \<longleftrightarrow> c \<or> (\<exists>x \<in> set xs. P x)"
  by (induction xs arbitrary: c) auto

lemma is_convert_required_iff:
  "is_convert_required m d \<longleftrightarrow>
     (\<exists>s \<in> set (do_for_each_sink m). (d, sink_required s) \<in> option_graph\<^sup>*)"
  by (simp add: is_convert_required_def fold_or has_dependency_iff)

text \<open>The sinks of a manager built by its operations: every map in key order, every sink with
  the conversion its name asks for and one slot per line.\<close>

definition sink_map_ok ::
  "(DataWriterOption \<Rightarrow> bool) \<Rightarrow> (string \<Rightarrow> DataConvertOptions \<Rightarrow> 'v \<Rightarrow> bool) \<Rightarrow>
     (string \<times> DataConvertOptions \<times> 'v) list \<Rightarrow> bool" where
  "sink_map_ok kind ok files \<longleftrightarrow> sorted_wrt (<) (map fst files) \<and>
     (\<forall>(n, c, v) \<in> set files.
        kind (fst (get_filetype_from_filename n)) \<and> c = snd (get_filetype_from_filename n) \<and> ok n c v)"

definition manager_ok :: "sink_env \<Rightarrow> Manager \<Rightarrow> bool" where
  "manager_ok env m \<longleftrightarrow>
     sink_map_ok (\<lambda>k. k = w_bin) (\<lambda>n c v. bf_n_lines v = env_n_lines env \<and> bf_counts v) (binary_files m) \<and>
     sink_map_ok (\<lambda>k. k = w_udp) (\<lambda>n c v. length (udp_output_data v) = env_n_lines env) (udp_files m) \<and>
     sink_map_ok (\<lambda>k. k = w_json) (\<lambda>n c v. js_n_lines v = env_n_lines env \<and> js_keys_ok v) (json_files m) \<and>
     sink_map_ok (\<lambda>k. k = w_root) (\<lambda>n c v. rf_n_lines v = env_n_lines env) (root_files m)"

lemma map_try_emplace_keys:
  "sorted_wrt (<) (map fst m) \<Longrightarrow> sorted_wrt (<) (map fst (fst (map_try_emplace k v m))) \<and>
     set (map fst (fst (map_try_emplace k v m))) = insert k (set (map fst m))"
  by (induction k v m rule: map_try_emplace.induct) (auto dest: less_trans)

lemma map_try_emplace_set: "set (fst (map_try_emplace k v m)) \<subseteq> insert (k, v) (set m)"
  by (induction k v m rule: map_try_emplace.induct) auto

lemma map_try_emplace_lookup:
  "sorted_wrt (<) (map fst m) \<Longrightarrow>
     map_of (fst (map_try_emplace k v m)) =
       (if map_of m k = None then (map_of m)(k \<mapsto> v) else map_of m) \<and>
     snd (map_try_emplace k v m) = (map_of m k = None)"
proof (induction k v m rule: map_try_emplace.induct)
  case (2 k v k' v' m)
  have "k < k' \<Longrightarrow> map_of m k = None"
    using 2(2) by (auto simp: map_of_eq_None_iff)
  then show ?case using 2 by (auto simp: fun_eq_iff)
qed auto

lemma sink_map_ok_emplace:
  assumes "sink_map_ok kind ok files" "kind (fst (get_filetype_from_filename n))"
    "c = snd (get_filetype_from_filename n)" "ok n c v"
  shows "sink_map_ok kind ok (fst (map_try_emplace n (c, v) files))"
  using assms map_try_emplace_keys [of files n "(c, v)"] map_try_emplace_set [of n "(c, v)" files]
  by (fastforce simp: sink_map_ok_def)

lemma manager_ok_mk: "manager_ok env mk_Manager"
  by (simp add: manager_ok_def mk_Manager_def sink_map_ok_def)

lemma manager_ok_checker: "manager_ok env m \<Longrightarrow> manager_ok env (enable_frame_count_checker m)"
  by (simp add: manager_ok_def enable_frame_count_checker_def)

text \<open>What adding an output does to the manager: nothing, or one new entry of one map.\<close>

lemma add_binary_file_cases:
  "snd (add_binary_file env f c m) = m \<or>
   snd (add_binary_file env f c m) = m\<lparr>binary_files :=
     fst (map_try_emplace f (c, mk_BinaryFile (env_n_lines env)) (binary_files m))\<rparr>"
  by (simp add: add_binary_file_def split_def Let_def)

lemma add_udp_file_cases:
  "snd (add_udp_file env f c m) = m \<or>
   (\<exists>ep. snd (add_udp_file env f c m) = m\<lparr>udp_files :=
     fst (map_try_emplace f (c, mk_UDP ep (env_n_lines env)) (udp_files m))\<rparr>)"
  by (auto simp: add_udp_file_def split_def Let_def split: option.split)

lemma add_json_file_cases:
  "snd (add_json_file env f c m) = m \<or>
   (\<exists>js. mk_Json (env_can_open env) f (env_n_lines env) = Inr js \<and>
      snd (add_json_file env f c m) = m\<lparr>json_files := fst (map_try_emplace f (c, js) (json_files m))\<rparr>)"
  by (simp add: add_json_file_def split_def Let_def split: sum.split)

lemma add_root_file_cases:
  "snd (add_root_file env f c m) = m \<or>
   snd (add_root_file env f c m) = m\<lparr>root_files := fst (map_try_emplace f
     (c, mk_RootFile (env_root env) f (env_n_lines env)) (root_files m))\<rparr>"
  by (simp add: add_root_file_def split_def Let_def)

lemma js_n_lines_mk: "mk_Json can_open f n = Inr js \<Longrightarrow> js_n_lines js = n"
  by (auto simp: mk_Json_def js_n_lines_def split: if_splits)

lemma bf_n_lines_mk: "bf_n_lines (mk_BinaryFile n) = n"
  by (simp add: bf_n_lines_def mk_BinaryFile_def)

lemma manager_ok_set_filename:
  assumes "manager_ok env m"
  shows "manager_ok env (snd (set_output_filename env f m))"
proof (cases "get_filetype_from_filename f")
  case (Pair w c)
  note ok = assms [unfolded manager_ok_def]
  show ?thesis
  proof (cases w)
    case w_bin
    have "manager_ok env (snd (add_binary_file env f c m))"
    proof (rule disjE [OF add_binary_file_cases [of env f c m]])
      assume "snd (add_binary_file env f c m) = m\<lparr>binary_files :=
        fst (map_try_emplace f (c, mk_BinaryFile (env_n_lines env)) (binary_files m))\<rparr>"
      then show ?thesis using ok Pair w_bin
        by (simp add: manager_ok_def sink_map_ok_emplace bf_n_lines_mk bf_counts_mk)
    qed (use assms in simp)
    then show ?thesis by (simp add: set_output_filename_def Pair w_bin)
  next
    case w_udp
    have "manager_ok env (snd (add_udp_file env f c m))"
    proof (rule disjE [OF add_udp_file_cases [of env f c m]])
      assume "\<exists>ep. snd (add_udp_file env f c m) = m\<lparr>udp_files :=
        fst (map_try_emplace f (c, mk_UDP ep (env_n_lines env)) (udp_files m))\<rparr>"
      then show ?thesis using ok Pair w_udp
        by (auto simp: manager_ok_def sink_map_ok_emplace mk_UDP_def)
    qed (use assms in simp)
    then show ?thesis by (simp add: set_output_filename_def Pair w_udp)
  next
    case w_json
    have "manager_ok env (snd (add_json_file env f c m))"
    proof (rule disjE [OF add_json_file_cases [of env f c m]])
      assume "\<exists>js. mk_Json (env_can_open env) f (env_n_lines env) = Inr js \<and>
        snd (add_json_file env f c m) = m\<lparr>json_files := fst (map_try_emplace f (c, js) (json_files m))\<rparr>"
      then show ?thesis using ok Pair w_json js_n_lines_mk js_keys_ok_mk
        by (auto simp: manager_ok_def sink_map_ok_emplace)
    qed (use assms in simp)
    then show ?thesis by (simp add: set_output_filename_def Pair w_json)
  next
    case w_root
    have "manager_ok env (snd (add_root_file env f c m))"
    proof (rule disjE [OF add_root_file_cases [of env f c m]])
      assume "snd (add_root_file env f c m) = m\<lparr>root_files := fst (map_try_emplace f
        (c, mk_RootFile (env_root env) f (env_n_lines env)) (root_files m))\<rparr>"
      then show ?thesis using ok Pair w_root
        by (simp add: manager_ok_def sink_map_ok_emplace rf_n_lines_mk)
    qed (use assms in simp)
    then show ?thesis using assms by (simp add: set_output_filename_def Pair w_root)
  qed (use assms Pair in \<open>simp add: set_output_filename_def\<close>)
qed

lemma manager_ok_set_filenames:
  "manager_ok env m \<Longrightarrow> manager_ok env (snd (set_output_filenames env fs m))"
proof (induction fs arbitrary: m)
  case (Cons f fs)
  then show ?case using manager_ok_set_filename [OF Cons.prems, of f]
    by (cases "set_output_filename env f m") (auto split: sum.split)
qed simp


section \<open>Outputs by name\<close>

definition names_of :: "(string \<times> 'v) list \<Rightarrow> string set" where
  "names_of files = set (map fst files)"

definition named :: "DataWriterOption \<Rightarrow> string list \<Rightarrow> string set" where
  "named w fs = {f \<in> set fs. fst (get_filetype_from_filename f) = w}"

lemma named_simps:
  "named w [] = {}"
  "named w (f # fs) = (if fst (get_filetype_from_filename f) = w then insert f (named w fs) else named w fs)"
  by (auto simp: named_def)

lemma names_of_emplace: "names_of (fst (map_try_emplace k v m)) = insert k (names_of m)"
  by (induction k v m rule: map_try_emplace.induct) (auto simp: names_of_def)

definition env_obliging :: "sink_env \<Rightarrow> bool" where
  "env_obliging env \<longleftrightarrow> (\<forall>f. env_can_open env f) \<and> (\<forall>a b. \<exists>e es. env_resolve env a b = Inr (e # es))"

lemma no_kind_empty: "get_filetype_from_filename [] = (no_output, opt_none)"
  by (simp add: get_filetype_from_filename_def fs_extension_def fs_filename_def after_last_def
      name_extension_def)

lemma udp_name_resolves:
  "env_obliging env \<Longrightarrow> fst (get_filetype_from_filename f) = w_udp \<Longrightarrow>
     \<exists>ep. convert_str_to_endpoint (env_resolve env) f = Some ep"
proof -
  assume a: "env_obliging env" "fst (get_filetype_from_filename f) = w_udp"
  then have "CHR '':'' \<in> set f"
    by (auto simp: get_filetype_from_filename_def Let_def split: if_splits)
  then show ?thesis using a(1)
    by (auto simp: convert_str_to_endpoint_def Let_def env_obliging_def split: sum.split)
      (metis Inl_Inr_False)+
qed

lemma set_output_filename_names:
  assumes "env_obliging env"
  shows "\<exists>b m'. set_output_filename env f m = (Inr b, m') \<and>
    names_of (binary_files m') = names_of (binary_files m) \<union> named w_bin [f] \<and>
    names_of (udp_files m') = names_of (udp_files m) \<union> named w_udp [f] \<and>
    names_of (json_files m') = names_of (json_files m) \<union> named w_json [f] \<and>
    names_of (root_files m') = names_of (root_files m) \<union> (if env_has_root env then named w_root [f] else {}) \<and>
    frame_count_checker m' = frame_count_checker m"
proof (cases "get_filetype_from_filename f")
  case (Pair w c)
  have open': "list_all (env_can_open env) fs" for fs
    using assms by (simp add: env_obliging_def list_all_iff)
  obtain ep where "w = w_udp \<longrightarrow> convert_str_to_endpoint (env_resolve env) f = Some ep"
    using udp_name_resolves [OF assms, of f] Pair by auto
  then show ?thesis using open' Pair
    by (cases w) (auto simp: set_output_filename_def add_binary_file_def add_udp_file_def
        add_json_file_def add_root_file_def mk_Json_def named_simps names_of_emplace split_def Let_def)
qed

lemma set_output_filenames_names:
  assumes "env_obliging env"
  shows "\<exists>m'. set_output_filenames env fs m = (Inr (), m') \<and>
    names_of (binary_files m') = names_of (binary_files m) \<union> named w_bin fs \<and>
    names_of (udp_files m') = names_of (udp_files m) \<union> named w_udp fs \<and>
    names_of (json_files m') = names_of (json_files m) \<union> named w_json fs \<and>
    names_of (root_files m') = names_of (root_files m) \<union> (if env_has_root env then named w_root fs else {}) \<and>
    frame_count_checker m' = frame_count_checker m"
proof (induction fs arbitrary: m)
  case Nil
  then show ?case by (simp add: named_simps)
next
  case (Cons f fs)
  show ?case
  proof (cases "f = []")
    case True
    then show ?thesis using Cons.IH [of m]
      by (cases "env_has_root env") (simp_all add: named_simps no_kind_empty)
  next
    case False
    obtain b m1 where m1: "set_output_filename env f m = (Inr b, m1)"
      "names_of (binary_files m1) = names_of (binary_files m) \<union> named w_bin [f]"
      "names_of (udp_files m1) = names_of (udp_files m) \<union> named w_udp [f]"
      "names_of (json_files m1) = names_of (json_files m) \<union> named w_json [f]"
      "names_of (root_files m1) = names_of (root_files m) \<union> (if env_has_root env then named w_root [f] else {})"
      "frame_count_checker m1 = frame_count_checker m"
      using set_output_filename_names [OF assms, of f m] by blast
    then show ?thesis using Cons.IH [of m1] False by (auto simp: named_simps)
  qed
qed

lemma kind_conversion_some:
  "fst (get_filetype_from_filename f) \<noteq> no_output \<Longrightarrow> snd (get_filetype_from_filename f) \<noteq> opt_none"
  using filetype_conversion [of f] by (cases "get_filetype_from_filename f") auto

lemma sink_map_required:
  assumes "sink_map_ok kind ok files" "\<not> kind no_output" "(n, c, v) \<in> set files"
  shows "c \<noteq> opt_none"
proof -
  have "kind (fst (get_filetype_from_filename n))" "c = snd (get_filetype_from_filename n)"
    using assms(1,3) by (auto simp: sink_map_ok_def)
  moreover from this assms(2) have "fst (get_filetype_from_filename n) \<noteq> no_output" by metis
  ultimately show ?thesis using kind_conversion_some [of n] by simp
qed

lemma sink_required_some:
  assumes "manager_ok env m" "s \<in> set (do_for_each_sink m)"
  shows "sink_required s \<noteq> opt_none"
proof -
  have maps: "\<And>n c v. (n, c, v) \<in> set (binary_files m) \<Longrightarrow> c \<noteq> opt_none"
    "\<And>n c v. (n, c, v) \<in> set (udp_files m) \<Longrightarrow> c \<noteq> opt_none"
    "\<And>n c v. (n, c, v) \<in> set (json_files m) \<Longrightarrow> c \<noteq> opt_none"
    "\<And>n c v. (n, c, v) \<in> set (root_files m) \<Longrightarrow> c \<noteq> opt_none"
    using sink_map_required [of "\<lambda>k. k = w_bin" _ "binary_files m"]
      sink_map_required [of "\<lambda>k. k = w_udp" _ "udp_files m"]
      sink_map_required [of "\<lambda>k. k = w_json" _ "json_files m"]
      sink_map_required [of "\<lambda>k. k = w_root" _ "root_files m"] assms(1)
    by (simp_all add: manager_ok_def) blast+
  show ?thesis using assms(2) maps
    by (auto simp: do_for_each_sink_def split: if_splits)
qed

section \<open>Properties\<close>

text \<open>
  C15. Setting the outputs of a run from a list of names: when every file opens and every host
  resolves, it succeeds, each recognised name becomes one sink of its kind and nothing else
  does (ROOT files only in a build with ROOT), and every sink has one slot per pipeline line and
  requires the conversion of its name.\<close>

theorem set_output_filenames_outcome:
  assumes "env_obliging env"
  shows "\<exists>m. set_output_filenames env fs mk_Manager = (Inr (), m) \<and> manager_ok env m \<and>
    set (map fst (binary_files m)) = {f \<in> set fs. fst (get_filetype_from_filename f) = w_bin} \<and>
    set (map fst (udp_files m)) = {f \<in> set fs. fst (get_filetype_from_filename f) = w_udp} \<and>
    set (map fst (json_files m)) = {f \<in> set fs. fst (get_filetype_from_filename f) = w_json} \<and>
    set (map fst (root_files m)) =
      (if env_has_root env then {f \<in> set fs. fst (get_filetype_from_filename f) = w_root} else {}) \<and>
    frame_count_checker m = None"
  using set_output_filenames_names [OF assms, of fs mk_Manager]
    manager_ok_set_filenames [OF manager_ok_mk, of env fs]
  by (auto simp: names_of_def named_def mk_Manager_def)

lemma set_output_filenames_outcome_witness:
  "\<exists>m. set_output_filenames \<lparr>env_n_lines = 2, env_can_open = (\<lambda>_. True),
      env_resolve = (\<lambda>ip port. Inr [(ip, of_nat (parse_digits 0 port))]), env_has_root = False, env_root = root_ref\<rparr>
      [''run.bin'', ''x.txt'', ''localhost:?9999''] mk_Manager = (Inr (), m)"
  using set_output_filenames_outcome [of "\<lparr>env_n_lines = 2, env_can_open = (\<lambda>_. True),
      env_resolve = (\<lambda>ip port. Inr [(ip, of_nat (parse_digits 0 port))]), env_has_root = False, env_root = root_ref\<rparr>"
      "[''run.bin'', ''x.txt'', ''localhost:?9999'']"]
  by (auto simp: env_obliging_def)

text \<open>
  C16. A conversion is required exactly when some sink depends on it, directly or through other
  conversions of the table; the requirement map lists every conversion once in order with that
  answer, and marks \<open>none\<close> as required exactly when there are no sinks.\<close>

theorem required_conversions:
  assumes "manager_ok env m"
  shows "(\<forall>d. is_convert_required m d \<longleftrightarrow>
      (\<exists>s \<in> set (do_for_each_sink m). (d, sink_required s) \<in> (set CONVERT_OPTION_RELATIONS)\<^sup>*)) \<and>
    map fst (generate_conversion_req_map m) = option_values \<and>
    (\<forall>d. (d, True) \<in> set (generate_conversion_req_map m) \<longleftrightarrow>
       is_convert_required m d \<or> (d = opt_none \<and> do_for_each_sink m = []))"
proof -
  have some: "is_convert_required m opt_raw \<longleftrightarrow> do_for_each_sink m \<noteq> []"
    and none: "\<not> is_convert_required m opt_none"
    using sink_required_some [OF assms]
    by (cases "do_for_each_sink m";
        auto simp: is_convert_required_def fold_or has_dependency_raw has_dependency_from_none)+
  have "True \<in> set (map snd (map (\<lambda>c. (c, is_convert_required m c)) option_values)) \<longleftrightarrow>
      (\<exists>d. is_convert_required m d)"
    by (auto simp: set_option_values image_iff)
  also have "\<dots> \<longleftrightarrow> do_for_each_sink m \<noteq> []"
    using some by (auto simp: is_convert_required_iff)
  finally have t: "True \<in> set (map snd (map (\<lambda>c. (c, is_convert_required m c)) option_values)) \<longleftrightarrow>
      do_for_each_sink m \<noteq> []" .
  have empty: "\<not> is_convert_required m d" if "do_for_each_sink m = []" for d
    using that by (simp add: is_convert_required_def)
  have "generate_conversion_req_map m =
      map (\<lambda>c. (c, is_convert_required m c \<or> (c = opt_none \<and> do_for_each_sink m = []))) option_values"
    using t empty unfolding generate_conversion_req_map_def Let_def
    by (cases "do_for_each_sink m = []") (auto simp: none)
  then show ?thesis
    by (auto simp: is_convert_required_iff option_graph_def set_option_values comp_def)
qed

lemma required_conversions_witness:
  "\<not> is_convert_required (enable_frame_count_checker mk_Manager) opt_structure \<and>
   (opt_raw, True) \<in> set (generate_conversion_req_map (enable_frame_count_checker mk_Manager))"
proof -
  let ?env = "\<lparr>env_n_lines = 1, env_can_open = (\<lambda>_. True), env_resolve = (\<lambda>_ _. Inl []), env_has_root = False, env_root = root_ref\<rparr>"
  have "manager_ok ?env (enable_frame_count_checker mk_Manager)"
    by (simp add: manager_ok_checker manager_ok_mk)
  from required_conversions [OF this]
  show ?thesis
    by (simp only:) (simp add: is_convert_required_def do_for_each_sink_def enable_frame_count_checker_def
        mk_Manager_def has_dependency_table has_dependency_iff [unfolded option_graph_def, symmetric])
qed

end
