(* ===== verification/Proto_Conversion.thy ===== *)
theory Proto_Conversion
  imports Data_Structs Conversion_Task
begin

text \<open>
  The Protobuf side of the data path: the messages of \<^verbatim>\<open>data/message.proto\<close>, the
  converters \<^verbatim>\<open>Struct2ProtoConverter\<close> and \<^verbatim>\<open>Proto2StructConverter\<close>, the two
  serialisers of \<^verbatim>\<open>ProtoSerializer.{hpp,cpp}\<close>, \<^verbatim>\<open>ProtoDeserializer\<close> and the reader
  \<^verbatim>\<open>ProtoMsg\<close>. The Protobuf library is a parameter, the record \<open>protobuf\<close>. The lemmas
  give the exact effect of a trip through Protobuf, which is not the identity: the VMM tag is
  not part of the message and the ADC value is narrowed on the way back.
\<close>

section \<open>Messages\<close>

record ProtoHeader =
  ph_frame_counter :: u32
  ph_fec_id :: u32
  ph_udp_timestamp :: u32
  ph_overflow :: u32

record ProtoMarker =
  pm_vmm_id :: u32
  pm_srs_timestamp :: u64

record ProtoHit =
  pt_is_over_threshold :: bool
  pt_channel_num :: u32
  pt_tdc :: u32
  pt_offset :: u32
  pt_vmm_id :: u32
  pt_adc :: u32
  pt_bc_id :: u32

text \<open>A sub-message may be absent; reading an absent header gives the default one, and
  \<^verbatim>\<open>mutable_header\<close> creates it.\<close>

record ProtoData =
  pd_header :: "ProtoHeader option"
  pd_marker_data :: "ProtoMarker list"
  pd_hit_data :: "ProtoHit list"

definition default_ProtoHeader :: ProtoHeader where
  "default_ProtoHeader = \<lparr>ph_frame_counter = 0, ph_fec_id = 0, ph_udp_timestamp = 0, ph_overflow = 0\<rparr>"

definition default_ProtoMarker :: ProtoMarker where
  "default_ProtoMarker = \<lparr>pm_vmm_id = 0, pm_srs_timestamp = 0\<rparr>"

definition default_ProtoHit :: ProtoHit where
  "default_ProtoHit = \<lparr>pt_is_over_threshold = False, pt_channel_num = 0, pt_tdc = 0,
     pt_offset = 0, pt_vmm_id = 0, pt_adc = 0, pt_bc_id = 0\<rparr>"

definition proto_clear :: ProtoData where
  "proto_clear = \<lparr>pd_header = None, pd_marker_data = [], pd_hit_data = []\<rparr>"

definition proto_header :: "ProtoData \<Rightarrow> ProtoHeader" where
  "proto_header p = (case pd_header p of None \<Rightarrow> default_ProtoHeader | Some h \<Rightarrow> h)"

text \<open>The library: serialisation appended to a string stream, delimited serialisation through
  the compressing stream, and parsing into a cleared message, which reports success.\<close>

record protobuf =
  pb_serialize :: "ProtoData \<Rightarrow> bytes"
  pb_delim_gzip :: "ProtoData \<Rightarrow> bytes"
  pb_parse :: "bytes \<Rightarrow> bool \<times> ProtoData"

text \<open>Documented: a serialised message parses back to itself.\<close>

definition pb_documented :: "protobuf \<Rightarrow> bool" where
  "pb_documented pb \<longleftrightarrow> (\<forall>d. pb_parse pb (pb_serialize pb d) = (True, d))"

section \<open>Structure to message\<close>

definition set_proto_header :: "StructData \<Rightarrow> ProtoData \<Rightarrow> ProtoData" where
  "set_proto_header s p =
     (let input_header = header s in
      p\<lparr>pd_header := Some ((proto_header p)\<lparr>ph_frame_counter := frame_counter input_header,
          ph_fec_id := ucast (fec_id input_header),
          ph_udp_timestamp := udp_timestamp input_header, ph_overflow := overflow input_header\<rparr>)\<rparr>)"

definition add_proto_marker :: "MarkerData \<Rightarrow> ProtoData \<Rightarrow> ProtoData" where
  "add_proto_marker m p = p\<lparr>pd_marker_data := pd_marker_data p @
     [default_ProtoMarker\<lparr>pm_vmm_id := ucast (marker_vmm_id m), pm_srs_timestamp := srs_timestamp m\<rparr>]\<rparr>"

definition set_proto_marker_data :: "StructData \<Rightarrow> ProtoData \<Rightarrow> ProtoData" where
  "set_proto_marker_data s p = fold add_proto_marker (marker_data s) p"

definition add_proto_hit :: "HitData \<Rightarrow> ProtoData \<Rightarrow> ProtoData" where
  "add_proto_hit h p = p\<lparr>pd_hit_data := pd_hit_data p @
     [default_ProtoHit\<lparr>pt_is_over_threshold := is_over_threshold h,
        pt_channel_num := ucast (channel_num h), pt_tdc := ucast (tdc h),
        pt_offset := ucast (offset h), pt_vmm_id := ucast (vmm_id h), pt_adc := ucast (adc h),
        pt_bc_id := ucast (bc_id h)\<rparr>]\<rparr>"

definition set_proto_hit_data :: "StructData \<Rightarrow> ProtoData \<Rightarrow> ProtoData" where
  "set_proto_hit_data s p = fold add_proto_hit (hit_data s) p"

definition struct_to_proto_convert :: "StructData \<Rightarrow> ProtoData \<Rightarrow> ProtoData" where
  "struct_to_proto_convert s p = set_proto_hit_data s (set_proto_marker_data s (set_proto_header s p))"

text \<open>The state of the task is its vector of messages.\<close>

type_synonym Struct2ProtoConverter = "ProtoData list"

definition s2p_run ::
  "Struct2ProtoConverter \<Rightarrow> StructData \<Rightarrow> nat \<Rightarrow> ('e + ProtoData) \<times> Struct2ProtoConverter" where
  "s2p_run output_data input line =
     (let output_data = output_data[line := proto_clear];
          output_data = output_data[line := struct_to_proto_convert input (output_data ! line)]
      in (Inr (output_data ! line), output_data))"

section \<open>Message to structure\<close>

definition set_struct_header :: "ProtoData \<Rightarrow> StructData \<Rightarrow> StructData" where
  "set_struct_header p s =
     (let ph = proto_header p in
      s\<lparr>header := (header s)\<lparr>frame_counter := ph_frame_counter ph, fec_id := ucast (ph_fec_id ph),
          udp_timestamp := ph_udp_timestamp ph, overflow := ph_overflow ph\<rparr>\<rparr>)"

definition add_struct_marker :: "ProtoMarker \<Rightarrow> StructData \<Rightarrow> StructData" where
  "add_struct_marker pm s = s\<lparr>marker_data := marker_data s @
     [default_marker\<lparr>srs_timestamp := pm_srs_timestamp pm, marker_vmm_id := ucast (pm_vmm_id pm)\<rparr>]\<rparr>"

definition set_struct_marker_data :: "ProtoData \<Rightarrow> StructData \<Rightarrow> StructData" where
  "set_struct_marker_data p s = fold add_struct_marker (pd_marker_data p) s"

text \<open>The ADC value goes through \<^verbatim>\<open>static_cast<uint8_t>\<close> before it is stored in 16 bits.\<close>

definition add_struct_hit :: "ProtoHit \<Rightarrow> StructData \<Rightarrow> StructData" where
  "add_struct_hit pt s = s\<lparr>hit_data := hit_data s @
     [default_hit\<lparr>is_over_threshold := pt_is_over_threshold pt,
        channel_num := ucast (pt_channel_num pt), tdc := ucast (pt_tdc pt),
        offset := ucast (pt_offset pt), vmm_id := ucast (pt_vmm_id pt),
        adc := ucast (ucast (pt_adc pt) :: u8), bc_id := ucast (pt_bc_id pt)\<rparr>]\<rparr>"

definition set_struct_hit_data :: "ProtoData \<Rightarrow> StructData \<Rightarrow> StructData" where
  "set_struct_hit_data p s = fold add_struct_hit (pd_hit_data p) s"

definition proto_to_struct_convert :: "ProtoData \<Rightarrow> StructData \<Rightarrow> StructData" where
  "proto_to_struct_convert p s =
     set_struct_marker_data p (set_struct_hit_data p (set_struct_header p (reset_struct_data s)))"

section \<open>Serialised messages\<close>

text \<open>Both serialisers are \<^verbatim>\<open>ProtoSerializerBase\<close> with their converter; it clears the
  string of the line and appends the bytes.\<close>

definition ps_delim :: "protobuf \<Rightarrow> ProtoData \<Rightarrow> bytes \<Rightarrow> bytes" where
  "ps_delim pb proto_data output_data = output_data @ pb_delim_gzip pb proto_data"

definition ps_plain :: "protobuf \<Rightarrow> ProtoData \<Rightarrow> bytes \<Rightarrow> bytes" where
  "ps_plain pb proto_data output_data = output_data @ pb_serialize pb proto_data"

definition ps_run ::
  "(ProtoData \<Rightarrow> bytes \<Rightarrow> bytes) \<Rightarrow> bytes list \<Rightarrow> ProtoData \<Rightarrow> nat \<Rightarrow> ('e + bytes) \<times> bytes list" where
  "ps_run converter output_data input line =
     (let output_data = output_data[line := []];
          output_data = output_data[line := converter input (output_data ! line)]
      in (Inr (output_data ! line), output_data))"

text \<open>\<^verbatim>\<open>ProtoDeserializer::convert\<close> ignores whether parsing succeeded.\<close>

definition proto_deserialize :: "protobuf \<Rightarrow> bytes \<Rightarrow> ProtoData" where
  "proto_deserialize pb data = snd (pb_parse pb data)"

text \<open>The reader keeps the message and the structure of its last conversion.\<close>

record ProtoMsg =
  msg_proto :: ProtoData
  msg_struct :: StructData

definition proto_msg_convert_to :: "protobuf \<Rightarrow> ProtoMsg \<Rightarrow> bytes \<Rightarrow> StructData \<Rightarrow> StructData \<times> ProtoMsg" where
  "proto_msg_convert_to pb r msg s =
     (let p = proto_deserialize pb msg
      in (proto_to_struct_convert p s, r\<lparr>msg_proto := p\<rparr>))"

definition proto_msg_convert :: "protobuf \<Rightarrow> ProtoMsg \<Rightarrow> bytes \<Rightarrow> StructData \<times> ProtoMsg" where
  "proto_msg_convert pb r msg =
     (let p = proto_deserialize pb msg;
          s = proto_to_struct_convert p (msg_struct r)
      in (s, r\<lparr>msg_proto := p, msg_struct := s\<rparr>))"

interpretation s2p: line_task length "(!)" s2p_run id
  by unfold_locales (auto simp: s2p_run_def Let_def)

interpretation proto_serializer: line_task length "(!)" "ps_run (ps_plain pb)" id for pb
  by unfold_locales (auto simp: ps_run_def Let_def)

interpretation proto_delim_serializer: line_task length "(!)" "ps_run (ps_delim pb)" id for pb
  by unfold_locales (auto simp: ps_run_def Let_def)


section \<open>The effect of the conversions\<close>

definition to_proto_marker :: "MarkerData \<Rightarrow> ProtoMarker" where
  "to_proto_marker m = \<lparr>pm_vmm_id = ucast (marker_vmm_id m), pm_srs_timestamp = srs_timestamp m\<rparr>"

definition to_proto_hit :: "HitData \<Rightarrow> ProtoHit" where
  "to_proto_hit h = \<lparr>pt_is_over_threshold = is_over_threshold h,
     pt_channel_num = ucast (channel_num h), pt_tdc = ucast (tdc h), pt_offset = ucast (offset h),
     pt_vmm_id = ucast (vmm_id h), pt_adc = ucast (adc h), pt_bc_id = ucast (bc_id h)\<rparr>"

definition to_proto :: "StructData \<Rightarrow> ProtoData" where
  "to_proto s = \<lparr>pd_header = Some \<lparr>ph_frame_counter = frame_counter (header s),
       ph_fec_id = ucast (fec_id (header s)), ph_udp_timestamp = udp_timestamp (header s),
       ph_overflow = overflow (header s)\<rparr>,
     pd_marker_data = map to_proto_marker (marker_data s),
     pd_hit_data = map to_proto_hit (hit_data s)\<rparr>"

lemma fold_add_proto_marker:
  "fold add_proto_marker ms p = p\<lparr>pd_marker_data := pd_marker_data p @ map to_proto_marker ms\<rparr>"
  by (induction ms arbitrary: p)
    (simp_all add: add_proto_marker_def to_proto_marker_def default_ProtoMarker_def)

lemma fold_add_proto_hit:
  "fold add_proto_hit hs p = p\<lparr>pd_hit_data := pd_hit_data p @ map to_proto_hit hs\<rparr>"
  by (induction hs arbitrary: p) (simp_all add: add_proto_hit_def to_proto_hit_def default_ProtoHit_def)

lemma struct_to_proto_convert_clear: "struct_to_proto_convert s proto_clear = to_proto s"
  by (simp add: struct_to_proto_convert_def set_proto_hit_data_def set_proto_marker_data_def
      set_proto_header_def fold_add_proto_marker fold_add_proto_hit to_proto_def proto_clear_def
      proto_header_def default_ProtoHeader_def Let_def)

text \<open>What is left of a structure after a trip through a message.\<close>

definition proto_visible :: "StructData \<Rightarrow> StructData" where
  "proto_visible s = s\<lparr>header := (header s)\<lparr>vmm_tag := (0, 0, 0)\<rparr>,
     hit_data := map (\<lambda>h. h\<lparr>adc := ucast (ucast (adc h) :: u8)\<rparr>) (hit_data s)\<rparr>"

lemma add_struct_marker_to_proto:
  "add_struct_marker (to_proto_marker m) s = s\<lparr>marker_data := marker_data s @ [m]\<rparr>"
  by (cases m) (simp add: add_struct_marker_def to_proto_marker_def default_marker_def ucast_down_up)

lemma add_struct_hit_to_proto:
  "add_struct_hit (to_proto_hit h) s =
     s\<lparr>hit_data := hit_data s @ [h\<lparr>adc := ucast (ucast (adc h) :: u8)\<rparr>]\<rparr>"
proof -
  have "(ucast (ucast (adc h) :: u32) :: u8) = ucast (adc h)"
    by (rule bit_word_eqI) (simp add: bit_simps)
  then show ?thesis
    by (cases h) (simp add: add_struct_hit_def to_proto_hit_def default_hit_def ucast_down_up)
qed

lemma fold_add_struct_marker:
  "fold add_struct_marker (map to_proto_marker ms) s = s\<lparr>marker_data := marker_data s @ ms\<rparr>"
  by (induction ms arbitrary: s) (simp_all add: add_struct_marker_to_proto)

lemma fold_add_struct_hit:
  "fold add_struct_hit (map to_proto_hit hs) s =
     s\<lparr>hit_data := hit_data s @ map (\<lambda>h. h\<lparr>adc := ucast (ucast (adc h) :: u8)\<rparr>) hs\<rparr>"
  by (induction hs arbitrary: s) (simp_all add: add_struct_hit_to_proto)

lemma proto_to_struct_to_proto: "proto_to_struct_convert (to_proto s) t = proto_visible s"
  by (simp add: proto_to_struct_convert_def set_struct_header_def set_struct_hit_data_def
      set_struct_marker_data_def to_proto_def fold_add_struct_marker fold_add_struct_hit
      proto_visible_def proto_header_def default_struct_def default_header_def ucast_down_up Let_def)

section \<open>A concrete library\<close>

text \<open>A fixed-width encoding of the messages that parses back, for the concrete instances.\<close>

definition ref_marker :: "ProtoMarker \<Rightarrow> bytes" where
  "ref_marker m = 1 # be_bytes 4 (pm_vmm_id m) @ be_bytes 8 (pm_srs_timestamp m)"

definition ref_hit :: "ProtoHit \<Rightarrow> bytes" where
  "ref_hit h = 2 # of_bool (pt_is_over_threshold h) # be_bytes 4 (pt_channel_num h) @
     be_bytes 4 (pt_tdc h) @ be_bytes 4 (pt_offset h) @ be_bytes 4 (pt_vmm_id h) @
     be_bytes 4 (pt_adc h) @ be_bytes 4 (pt_bc_id h)"

definition ref_header :: "ProtoHeader option \<Rightarrow> bytes" where
  "ref_header h = (case h of None \<Rightarrow> [0]
     | Some h \<Rightarrow> 1 # be_bytes 4 (ph_frame_counter h) @ be_bytes 4 (ph_fec_id h) @
         be_bytes 4 (ph_udp_timestamp h) @ be_bytes 4 (ph_overflow h))"

definition ref_at :: "nat \<Rightarrow> bytes \<Rightarrow> u32" where
  "ref_at k bs = of_be_bytes (take 4 (drop k bs))"

fun ref_items :: "nat \<Rightarrow> bytes \<Rightarrow> ProtoMarker list \<times> ProtoHit list" where
  "ref_items (Suc n) (b # bs) =
     (if b = 1 then
        let (ms, hs) = ref_items n (drop 12 bs)
        in (\<lparr>pm_vmm_id = ref_at 0 bs, pm_srs_timestamp = of_be_bytes (take 8 (drop 4 bs))\<rparr> # ms, hs)
      else
        let (ms, hs) = ref_items n (drop 25 bs)
        in (ms, \<lparr>pt_is_over_threshold = (hd bs = 1), pt_channel_num = ref_at 1 bs,
              pt_tdc = ref_at 5 bs, pt_offset = ref_at 9 bs, pt_vmm_id = ref_at 13 bs,
              pt_adc = ref_at 17 bs, pt_bc_id = ref_at 21 bs\<rparr> # hs))"
| "ref_items _ _ = ([], [])"

definition pb_ref :: protobuf where
  "pb_ref =
     (let ser = (\<lambda>d. ref_header (pd_header d) @ concat (map ref_marker (pd_marker_data d)) @
        concat (map ref_hit (pd_hit_data d)))
      in \<lparr>pb_serialize = ser, pb_delim_gzip = ser,
          pb_parse = (\<lambda>bs. (True,
            if hd bs = 0 then
              let (ms, hs) = ref_items (length bs) (drop 1 bs)
              in \<lparr>pd_header = None, pd_marker_data = ms, pd_hit_data = hs\<rparr>
            else
              let (ms, hs) = ref_items (length bs) (drop 17 bs)
              in \<lparr>pd_header = Some \<lparr>ph_frame_counter = ref_at 1 bs, ph_fec_id = ref_at 5 bs,
                    ph_udp_timestamp = ref_at 9 bs, ph_overflow = ref_at 13 bs\<rparr>,
                  pd_marker_data = ms, pd_hit_data = hs\<rparr>))\<rparr>)"

lemma ref_items_hits: "length hs \<le> n \<Longrightarrow> ref_items n (concat (map ref_hit hs)) = ([], hs)"
proof (induction hs arbitrary: n)
  case (Cons h hs)
  then show ?case
    by (cases n; cases h) (simp_all add: ref_hit_def ref_at_def of_be_bytes_be_bytes)
qed simp

lemma ref_items_append:
  "length ms + length hs \<le> n \<Longrightarrow>
     ref_items n (concat (map ref_marker ms) @ concat (map ref_hit hs)) = (ms, hs)"
proof (induction ms arbitrary: n)
  case Nil
  then show ?case by (simp add: ref_items_hits)
next
  case (Cons m ms)
  then show ?case
    by (cases n; cases m) (simp_all add: ref_marker_def ref_at_def of_be_bytes_be_bytes)
qed

lemma ref_items_length:
  "length ms + length hs \<le> length (concat (map ref_marker ms) @ concat (map ref_hit hs))"
proof -
  have "length ms \<le> length (concat (map ref_marker ms))"
    by (induction ms) (simp_all add: ref_marker_def)
  moreover have "length hs \<le> length (concat (map ref_hit hs))"
    by (induction hs) (simp_all add: ref_hit_def)
  ultimately show ?thesis by simp
qed

lemma pb_ref_documented [simp]: "pb_documented pb_ref"
proof -
  have items: "ref_items n (concat (map ref_marker ms) @ concat (map ref_hit hs)) = (ms, hs)"
    if "length (concat (map ref_marker ms)) + length (concat (map ref_hit hs)) \<le> n" for ms hs n
    using ref_items_length [of ms hs] that by (intro ref_items_append) simp
  have "pb_parse pb_ref (pb_serialize pb_ref d) = (True, d)" for d
    by (cases "pd_header d"; cases d)
      (simp_all add: pb_ref_def ref_header_def items Let_def ref_at_def of_be_bytes_be_bytes)
  then show ?thesis by (simp add: pb_documented_def)
qed

section \<open>Properties\<close>

text \<open>
  C11. Converting a structure to a message, serialising it and reading it back with the message
  reader gives the structure with exactly two changes: the VMM tag is reset, and every ADC value
  is reduced to its low eight bits. Neither the slots' earlier contents nor the reader's last
  conversion matters.\<close>

theorem proto_round_trip:
  assumes "pb_documented pb" "line < length s2p" "line < length ps"
  shows "\<exists>m frame. fst (s2p_run s2p s line) = Inr m \<and>
    fst (ps_run (ps_plain pb) ps m line) = Inr frame \<and>
    fst (proto_msg_convert pb r frame) =
      s\<lparr>header := (header s)\<lparr>vmm_tag := (0, 0, 0)\<rparr>,
        hit_data := map (\<lambda>h. h\<lparr>adc := ucast (ucast (adc h) :: u8)\<rparr>) (hit_data s)\<rparr>"
  using assms
  by (simp add: s2p_run_def ps_run_def ps_plain_def struct_to_proto_convert_clear
      proto_msg_convert_def proto_deserialize_def pb_documented_def proto_to_struct_to_proto Let_def
      proto_visible_def)

lemma proto_round_trip_witness:
  "\<exists>m frame. fst (s2p_run [proto_clear] sample_struct 0) = Inr m \<and>
    fst (ps_run (ps_plain pb_ref) [[1, 2], [3]] m 0) = Inr frame \<and>
    fst (proto_msg_convert pb_ref \<lparr>msg_proto = proto_clear, msg_struct = sample_struct\<rparr> frame) =
      sample_struct\<lparr>header := (header sample_struct)\<lparr>vmm_tag := (0, 0, 0)\<rparr>,
        hit_data := map (\<lambda>h. h\<lparr>adc := ucast (ucast (adc h) :: u8)\<rparr>) (hit_data sample_struct)\<rparr>"
  by (rule proto_round_trip) simp_all

end
