(* ===== verification/Task_Diagram.thy ===== *)
theory Task_Diagram
  imports Sink_Manager Proto_Conversion
begin

text \<open>
  The analysis workflow of one pipeline line, \<^verbatim>\<open>workflow::TaskDiagram\<close>
  (\<^verbatim>\<open>backend/srs/workflow/TaskDiagram.{hpp,cpp}\<close>): the converters the sinks require are
  made, each task is connected to the task whose output it reads, and running the flow of a
  line runs every task once, after the task it reads from. Taskflow's scheduling is modelled by
  the order of creation, which respects every precedence edge. The result of a task is ignored,
  as in the source; an exception of a task is not: it ends the flow of the line, and the tasks
  after it do not run. The only task that throws is a JSON file whose element glaze does not
  write. The theorem on a run states what every sink receives for a frame.
\<close>

section \<open>The flow of a line\<close>

datatype task_source = Src_diagram | Src_raw_delim | Src_struct | Src_s2p | Src_proto | Src_proto_delim

datatype task_node = N_raw_delim | N_struct | N_s2p | N_proto | N_proto_delim | N_sink sink_ref

text \<open>The tasks with what they read from, and the precedence edges.\<close>

record taskflow =
  tf_tasks :: "(task_node \<times> task_source) list"
  tf_edges :: "(task_source \<times> task_node) list"

record TaskDiagram =
  td_n_lines :: nat
  td_raw_data :: "bytes list"
  td_raw_to_delim :: "bytes list option"
  td_struct_deserializer :: "StructDeserializer option"
  td_struct_to_proto :: "Struct2ProtoConverter option"
  td_proto_serializer :: "bytes list option"
  td_proto_delim :: "bytes list option"

definition mk_TaskDiagram :: "nat \<Rightarrow> TaskDiagram" where
  "mk_TaskDiagram n_lines = \<lparr>td_n_lines = n_lines, td_raw_data = replicate n_lines [],
     td_raw_to_delim = None, td_struct_deserializer = None, td_struct_to_proto = None,
     td_proto_serializer = None, td_proto_delim = None\<rparr>"

fun converter_type :: "task_node \<Rightarrow> DataConvertOptions" where
  "converter_type N_raw_delim = opt_raw_frame"
| "converter_type N_struct = opt_structure"
| "converter_type N_s2p = opt_structure_to_proto"
| "converter_type N_proto = opt_proto"
| "converter_type N_proto_delim = opt_proto_frame"
| "converter_type (N_sink s) = opt_none"

fun source_of :: "task_node \<Rightarrow> task_source" where
  "source_of N_raw_delim = Src_raw_delim"
| "source_of N_struct = Src_struct"
| "source_of N_s2p = Src_s2p"
| "source_of N_proto = Src_proto"
| "source_of N_proto_delim = Src_proto_delim"
| "source_of (N_sink s) = Src_diagram"

text \<open>\<^verbatim>\<open>current_task.emplace(n_lines_)\<close> when there is none yet.\<close>

definition emplace_if :: "'a option \<Rightarrow> 'a \<Rightarrow> 'a option" where
  "emplace_if x y = (case x of None \<Rightarrow> Some y | Some z \<Rightarrow> Some z)"

fun emplace_converter :: "task_node \<Rightarrow> TaskDiagram \<Rightarrow> TaskDiagram" where
  "emplace_converter N_raw_delim td =
     td\<lparr>td_raw_to_delim := emplace_if (td_raw_to_delim td) (replicate (td_n_lines td) [])\<rparr>"
| "emplace_converter N_struct td =
     td\<lparr>td_struct_deserializer :=
       emplace_if (td_struct_deserializer td) (mk_StructDeserializer (td_n_lines td))\<rparr>"
| "emplace_converter N_s2p td =
     td\<lparr>td_struct_to_proto := emplace_if (td_struct_to_proto td) (replicate (td_n_lines td) proto_clear)\<rparr>"
| "emplace_converter N_proto td =
     td\<lparr>td_proto_serializer := emplace_if (td_proto_serializer td) (replicate (td_n_lines td) [])\<rparr>"
| "emplace_converter N_proto_delim td =
     td\<lparr>td_proto_delim := emplace_if (td_proto_delim td) (replicate (td_n_lines td) [])\<rparr>"
| "emplace_converter (N_sink s) td = td"

definition emplace_to_taskflow :: "task_node \<Rightarrow> task_source \<Rightarrow> taskflow \<Rightarrow> taskflow" where
  "emplace_to_taskflow node prev tf =
     tf\<lparr>tf_tasks := tf_tasks tf @ [(node, prev)],
        tf_edges := tf_edges tf @ (if prev = Src_diagram then [] else [(prev, node)])\<rparr>"

definition create_converter_task ::
  "Manager \<Rightarrow> task_node \<Rightarrow> task_source option \<Rightarrow> TaskDiagram \<times> taskflow \<Rightarrow>
     task_source option \<times> TaskDiagram \<times> taskflow" where
  "create_converter_task m node prev st =
     (case prev of
        None \<Rightarrow> (None, st)
      | Some prev \<Rightarrow>
          if \<not> is_convert_required m (converter_type node) then (None, st)
          else (Some (source_of node),
                emplace_converter node (fst st), emplace_to_taskflow node prev (snd st)))"

definition create_sink_task :: "sink_ref \<Rightarrow> task_source option \<Rightarrow> taskflow \<Rightarrow> taskflow" where
  "create_sink_task sink prev tf =
     (case prev of None \<Rightarrow> tf | Some prev \<Rightarrow> emplace_to_taskflow (N_sink sink) prev tf)"

text \<open>\<^verbatim>\<open>IsStructType\<close> of the sink classes.\<close>

definition is_struct_type :: "sink_kind \<Rightarrow> bool" where
  "is_struct_type k \<longleftrightarrow> k = K_json \<or> k = K_root"

definition sink_prev ::
  "task_source option \<Rightarrow> task_source option \<Rightarrow> task_source option \<Rightarrow> task_source option \<Rightarrow> sink_ref \<Rightarrow>
     task_source option" where
  "sink_prev raw_delimiter struct_deser proto_serial proto_delim sink =
     (if is_struct_type (sink_kind sink) then struct_deser
      else
        case sink_required sink of
          opt_raw \<Rightarrow> Some Src_diagram
        | opt_raw_frame \<Rightarrow> raw_delimiter
        | opt_proto \<Rightarrow> proto_serial
        | opt_proto_frame \<Rightarrow> proto_delim
        | _ \<Rightarrow> Some Src_diagram)"

definition construct_taskflow_line :: "Manager \<Rightarrow> TaskDiagram \<Rightarrow> TaskDiagram \<times> taskflow" where
  "construct_taskflow_line m td =
     (let st = (td, \<lparr>tf_tasks = [], tf_edges = []\<rparr>);
          empty_task = Some Src_diagram;
          (raw_delimiter, st) = create_converter_task m N_raw_delim empty_task st;
          (struct_deser, st) = create_converter_task m N_struct empty_task st;
          (struct_to_proto, st) = create_converter_task m N_s2p struct_deser st;
          (proto_serial, st) = create_converter_task m N_proto struct_to_proto st;
          (proto_delim, st) = create_converter_task m N_proto_delim struct_to_proto st
      in (fst st, fold (\<lambda>sink tf. create_sink_task sink
            (sink_prev raw_delimiter struct_deser proto_serial proto_delim sink) tf)
          (do_for_each_sink m) (snd st)))"

section \<open>Running a line\<close>

text \<open>The libraries the tasks call.\<close>

record task_libs =
  lib_zpp :: zpp_bits
  lib_pb :: protobuf
  lib_send :: "endpoint \<Rightarrow> bytes \<Rightarrow> nat"
  lib_glz :: "CompactExportData \<Rightarrow> string option"
  lib_root :: "TTree root_trees"

text \<open>What \<^verbatim>\<open>operator()\<close> of a source shows of a line. Reading a converter that was not
  made would be undefined behaviour; it is \<open>None\<close> here.\<close>

fun view_bytes :: "TaskDiagram \<Rightarrow> nat \<Rightarrow> task_source \<Rightarrow> bytes option" where
  "view_bytes td k Src_diagram = Some (td_raw_data td ! k)"
| "view_bytes td k Src_raw_delim = map_option (\<lambda>os. os ! k) (td_raw_to_delim td)"
| "view_bytes td k Src_proto = map_option (\<lambda>os. os ! k) (td_proto_serializer td)"
| "view_bytes td k Src_proto_delim = map_option (\<lambda>os. os ! k) (td_proto_delim td)"
| "view_bytes td k _ = None"

definition view_struct :: "TaskDiagram \<Rightarrow> nat \<Rightarrow> StructData option" where
  "view_struct td k = map_option (\<lambda>sd. sd_output_data sd ! k) (td_struct_deserializer td)"

definition view_proto :: "TaskDiagram \<Rightarrow> nat \<Rightarrow> ProtoData option" where
  "view_proto td k = map_option (\<lambda>ps. ps ! k) (td_struct_to_proto td)"

definition update_sink :: "string \<Rightarrow> ('v \<Rightarrow> 'v) \<Rightarrow> (string \<times> 'c \<times> 'v) list \<Rightarrow> (string \<times> 'c \<times> 'v) list" where
  "update_sink name f files = map (\<lambda>(n, c, v). if n = name then (n, c, f v) else (n, c, v)) files"

definition unit_snd :: "(unit + 'a) \<times> 's \<Rightarrow> 's" where
  "unit_snd r = snd r"

text \<open>The exception a task leaves with, if it does: \<^verbatim>\<open>run\<close> of a JSON file does not catch that of
  \<^verbatim>\<open>write_json\<close>, and neither does \<^verbatim>\<open>run_once\<close> or the body of the task.\<close>

fun exception_of :: "'e + 'a \<Rightarrow> 'e option" where
  "exception_of (Inl e) = Some e"
| "exception_of (Inr y) = None"

definition json_exception :: "task_libs \<Rightarrow> nat \<Rightarrow> string \<Rightarrow> StructData \<Rightarrow> Manager \<Rightarrow> json_error option" where
  "json_exception libs k name s m =
     (case map_of (json_files m) name of
        None \<Rightarrow> None
      | Some (c, js) \<Rightarrow> exception_of (fst (js_run (lib_glz libs) js s k)))"

text \<open>The body of a sink task: the exception it ends with, and what it has done to its sink by
  then.\<close>

definition run_sink ::
  "task_libs \<Rightarrow> nat \<Rightarrow> sink_ref \<Rightarrow> bytes option \<Rightarrow> StructData option \<Rightarrow> Manager \<Rightarrow> json_error option \<times> Manager" where
  "run_sink libs k sink data_bytes data_struct m =
     (case sink_kind sink of
        K_binary \<Rightarrow> (case data_bytes of None \<Rightarrow> (None, m)
          | Some x \<Rightarrow> (None, m\<lparr>binary_files :=
              update_sink (sink_name sink) (\<lambda>bf. unit_snd (bf_run bf x k)) (binary_files m)\<rparr>))
      | K_udp \<Rightarrow> (case data_bytes of None \<Rightarrow> (None, m)
          | Some x \<Rightarrow> (None, m\<lparr>udp_files :=
              update_sink (sink_name sink) (\<lambda>u. unit_snd (udp_run (lib_send libs) u x k)) (udp_files m)\<rparr>))
      | K_json \<Rightarrow> (case data_struct of None \<Rightarrow> (None, m)
          | Some s \<Rightarrow> (json_exception libs k (sink_name sink) s m, m\<lparr>json_files :=
              update_sink (sink_name sink) (\<lambda>js. snd (js_run (lib_glz libs) js s k)) (json_files m)\<rparr>))
      | K_checker \<Rightarrow> (case data_bytes of None \<Rightarrow> (None, m)
          | Some x \<Rightarrow> (None, m\<lparr>frame_count_checker :=
              map_option (\<lambda>c. snd (analyze_frame_counter (lib_zpp libs) c x)) (frame_count_checker m)\<rparr>))
      | K_root \<Rightarrow> (case data_struct of None \<Rightarrow> (None, m)
          | Some s \<Rightarrow> (None, m\<lparr>root_files :=
              update_sink (sink_name sink) (\<lambda>rf. unit_snd (rf_run (lib_root libs) rf s k)) (root_files m)\<rparr>)))"

fun run_node :: "task_libs \<Rightarrow> nat \<Rightarrow> task_node \<times> task_source \<Rightarrow> TaskDiagram \<times> Manager \<Rightarrow>
    json_error option \<times> TaskDiagram \<times> Manager" where
  "run_node libs k (N_raw_delim, prev) (td, m) =
     (case (td_raw_to_delim td, view_bytes td k prev) of
        (Some os, Some x) \<Rightarrow> (None, td\<lparr>td_raw_to_delim := Some (unit_snd (delim_run (lib_zpp libs) os x k))\<rparr>, m)
      | _ \<Rightarrow> (None, td, m))"
| "run_node libs k (N_struct, prev) (td, m) =
     (case (td_struct_deserializer td, view_bytes td k prev) of
        (Some sd, Some x) \<Rightarrow> (None, td\<lparr>td_struct_deserializer := Some (snd (deser_run (lib_zpp libs) sd x k))\<rparr>, m)
      | _ \<Rightarrow> (None, td, m))"
| "run_node libs k (N_s2p, prev) (td, m) =
     (case (td_struct_to_proto td, view_struct td k) of
        (Some ps, Some s) \<Rightarrow> (None, td\<lparr>td_struct_to_proto := Some (unit_snd (s2p_run ps s k))\<rparr>, m)
      | _ \<Rightarrow> (None, td, m))"
| "run_node libs k (N_proto, prev) (td, m) =
     (case (td_proto_serializer td, view_proto td k) of
        (Some os, Some p) \<Rightarrow>
          (None, td\<lparr>td_proto_serializer := Some (unit_snd (ps_run (ps_plain (lib_pb libs)) os p k))\<rparr>, m)
      | _ \<Rightarrow> (None, td, m))"
| "run_node libs k (N_proto_delim, prev) (td, m) =
     (case (td_proto_delim td, view_proto td k) of
        (Some os, Some p) \<Rightarrow>
          (None, td\<lparr>td_proto_delim := Some (unit_snd (ps_run (ps_delim (lib_pb libs)) os p k))\<rparr>, m)
      | _ \<Rightarrow> (None, td, m))"
| "run_node libs k (N_sink sink, prev) (td, m) =
     (case run_sink libs k sink (view_bytes td k prev) (if prev = Src_struct then view_struct td k else None) m of
        (exn, m) \<Rightarrow> (exn, td, m))"

text \<open>A flow, its tasks in the order of their creation. A task that throws is the last one that
  runs: the executor cancels what has not started, and \<^verbatim>\<open>corun\<close> ends with the exception.\<close>

fun run_tasks :: "task_libs \<Rightarrow> nat \<Rightarrow> (task_node \<times> task_source) list \<Rightarrow> TaskDiagram \<times> Manager \<Rightarrow>
    json_error option \<times> TaskDiagram \<times> Manager" where
  "run_tasks libs k [] st = (None, st)"
| "run_tasks libs k (task # tasks) st =
     (case run_node libs k task st of
        (Some exn, st) \<Rightarrow> (Some exn, st)
      | (None, st) \<Rightarrow> run_tasks libs k tasks st)"

definition run_taskflow :: "task_libs \<Rightarrow> nat \<Rightarrow> taskflow \<Rightarrow> TaskDiagram \<times> Manager \<Rightarrow>
    json_error option \<times> TaskDiagram \<times> Manager" where
  "run_taskflow libs k tf st = run_tasks libs k (tf_tasks tf) st"


section \<open>The shape of the flow\<close>

lemma required_closed:
  "is_convert_required m c \<Longrightarrow> convert_option_has_dependency d c \<Longrightarrow> is_convert_required m d"
  by (auto simp: is_convert_required_def fold_or intro: has_dependency_trans)

lemma sink_required_required:
  "s \<in> set (do_for_each_sink m) \<Longrightarrow> is_convert_required m (sink_required s)"
  by (auto simp: is_convert_required_def fold_or intro: bexI [of _ s])

text \<open>A sink gets the source that provides the conversion it requires.\<close>

fun provides :: "task_source \<Rightarrow> DataConvertOptions" where
  "provides Src_diagram = opt_raw"
| "provides Src_raw_delim = opt_raw_frame"
| "provides Src_struct = opt_structure"
| "provides Src_s2p = opt_structure_to_proto"
| "provides Src_proto = opt_proto"
| "provides Src_proto_delim = opt_proto_frame"

lemma provides_inj: "provides a = provides b \<longleftrightarrow> a = b"
  by (cases a; cases b) simp_all

definition sink_source :: "sink_ref \<Rightarrow> task_source" where
  "sink_source s = (case sink_required s of
     opt_raw_frame \<Rightarrow> Src_raw_delim | opt_structure \<Rightarrow> Src_struct | opt_proto \<Rightarrow> Src_proto
   | opt_proto_frame \<Rightarrow> Src_proto_delim | _ \<Rightarrow> Src_diagram)"

text \<open>The conversions the sinks of a manager can require, by kind.\<close>

definition sink_ref_ok :: "sink_ref \<Rightarrow> bool" where
  "sink_ref_ok s \<longleftrightarrow> (case sink_kind s of
     K_binary \<Rightarrow> sink_required s \<in> {opt_raw_frame, opt_proto_frame}
   | K_udp \<Rightarrow> sink_required s \<in> {opt_raw, opt_proto}
   | K_checker \<Rightarrow> sink_required s = opt_raw
   | _ \<Rightarrow> sink_required s = opt_structure)"

lemma sink_map_conversion:
  assumes "sink_map_ok (\<lambda>k. k = w) ok files" "(n, c, v) \<in> set files"
  shows "get_filetype_from_filename n = (w, c)"
  using assms by (auto simp: sink_map_ok_def prod_eq_iff)

lemma manager_sink_ref_ok:
  assumes "manager_ok env m" "s \<in> set (do_for_each_sink m)"
  shows "sink_ref_ok s"
proof -
  have b: "c \<in> {opt_raw_frame, opt_proto_frame}" if "(n, c, v) \<in> set (binary_files m)" for n c v
    using assms(1) sink_map_conversion [of w_bin _ "binary_files m", OF _ that] filetype_conversion [of n]
    by (auto simp: manager_ok_def)
  have u: "c \<in> {opt_raw, opt_proto}" if "(n, c, v) \<in> set (udp_files m)" for n c v
    using assms(1) sink_map_conversion [of w_udp _ "udp_files m", OF _ that] filetype_conversion [of n]
    by (auto simp: manager_ok_def)
  have j: "c = opt_structure" if "(n, c, v) \<in> set (json_files m)" for n c v
    using assms(1) sink_map_conversion [of w_json _ "json_files m", OF _ that] filetype_conversion [of n]
    by (auto simp: manager_ok_def)
  have r: "c = opt_structure" if "(n, c, v) \<in> set (root_files m)" for n c v
    using assms(1) sink_map_conversion [of w_root _ "root_files m", OF _ that] filetype_conversion [of n]
    by (auto simp: manager_ok_def)
  show ?thesis using assms(2) b u j r
    by (fastforce simp: do_for_each_sink_def sink_ref_ok_def split: if_splits)
qed

definition conv_nodes :: "Manager \<Rightarrow> (task_node \<times> task_source) list" where
  "conv_nodes m = filter (\<lambda>(n, _). is_convert_required m (converter_type n))
     [(N_raw_delim, Src_diagram), (N_struct, Src_diagram), (N_s2p, Src_struct), (N_proto, Src_s2p),
      (N_proto_delim, Src_s2p)]"

definition flow_tasks :: "Manager \<Rightarrow> (task_node \<times> task_source) list" where
  "flow_tasks m = conv_nodes m @ map (\<lambda>s. (N_sink s, sink_source s)) (do_for_each_sink m)"

definition emplace_all :: "Manager \<Rightarrow> TaskDiagram \<Rightarrow> TaskDiagram" where
  "emplace_all m td = fold (\<lambda>(n, _). emplace_converter n) (conv_nodes m) td"

lemma fold_create_sink:
  assumes "\<forall>s \<in> set ss. prev s = Some (sink_source s)"
  shows "tf_tasks (fold (\<lambda>s tf. create_sink_task s (prev s) tf) ss tf) =
      tf_tasks tf @ map (\<lambda>s. (N_sink s, sink_source s)) ss"
    and "set (tf_edges (fold (\<lambda>s tf. create_sink_task s (prev s) tf) ss tf)) =
      set (tf_edges tf) \<union> {(sink_source s, N_sink s) |s. s \<in> set ss \<and> sink_source s \<noteq> Src_diagram}"
  using assms
  by (induction ss arbitrary: tf) (auto simp: create_sink_task_def emplace_to_taskflow_def)

lemma construct_eq:
  assumes "manager_ok env m"
  shows "fst (construct_taskflow_line m td) = emplace_all m td"
    and "tf_tasks (snd (construct_taskflow_line m td)) = flow_tasks m"
    and "set (tf_edges (snd (construct_taskflow_line m td))) =
      {(p, n). (n, p) \<in> set (flow_tasks m) \<and> p \<noteq> Src_diagram}"
proof -
  let ?R = "is_convert_required m"
  have up: "?R opt_structure_to_proto \<Longrightarrow> ?R opt_structure" "?R opt_proto \<Longrightarrow> ?R opt_structure_to_proto"
    "?R opt_proto_frame \<Longrightarrow> ?R opt_structure_to_proto"
    by (erule required_closed, simp add: has_dependency_table)+
  define rd where "rd = (if ?R opt_raw_frame then Some Src_raw_delim else None)"
  define sd where "sd = (if ?R opt_structure then Some Src_struct else None)"
  define ps where "ps = (if ?R opt_proto then Some Src_proto else None)"
  define pd where "pd = (if ?R opt_proto_frame then Some Src_proto_delim else None)"
  have prev: "\<forall>s \<in> set (do_for_each_sink m). sink_prev rd sd ps pd s = Some (sink_source s)"
  proof
    fix s assume s: "s \<in> set (do_for_each_sink m)"
    then show "sink_prev rd sd ps pd s = Some (sink_source s)"
      using manager_sink_ref_ok [OF assms s] sink_required_required [OF s]
      by (cases "sink_kind s") (auto simp: sink_ref_ok_def sink_prev_def sink_source_def
          is_struct_type_def rd_def sd_def ps_def pd_def)
  qed
  define tf0 where "tf0 = \<lparr>tf_tasks = conv_nodes m,
    tf_edges = map (\<lambda>(n, p). (p, n)) (filter (\<lambda>(n, p). p \<noteq> Src_diagram) (conv_nodes m))\<rparr>"
  have c: "construct_taskflow_line m td = (emplace_all m td,
      fold (\<lambda>s tf. create_sink_task s (sink_prev rd sd ps pd s) tf) (do_for_each_sink m) tf0)"
    using up
    by (cases "?R opt_raw_frame"; cases "?R opt_structure"; cases "?R opt_structure_to_proto";
        cases "?R opt_proto"; cases "?R opt_proto_frame")
      (simp_all add: construct_taskflow_line_def create_converter_task_def emplace_to_taskflow_def
        emplace_all_def conv_nodes_def rd_def sd_def ps_def pd_def tf0_def)
  show "fst (construct_taskflow_line m td) = emplace_all m td" by (simp add: c)
  show "tf_tasks (snd (construct_taskflow_line m td)) = flow_tasks m"
    by (simp add: c fold_create_sink [OF prev] tf0_def flow_tasks_def)
  show "set (tf_edges (snd (construct_taskflow_line m td))) =
      {(p, n). (n, p) \<in> set (flow_tasks m) \<and> p \<noteq> Src_diagram}"
    by (auto simp: c fold_create_sink [OF prev] tf0_def flow_tasks_def)
qed


section \<open>What the converters show\<close>

text \<open>The structure a frame is read as: the default one when the frame is too short.\<close>

definition frame_struct :: "bytes \<Rightarrow> StructData" where
  "frame_struct bs = (if length bs < 22 then default_struct else struct_of bs)"

text \<open>What a conversion of a frame gives, for the conversions that give bytes.\<close>

definition expected_bytes :: "task_libs \<Rightarrow> DataConvertOptions \<Rightarrow> bytes \<Rightarrow> bytes" where
  "expected_bytes libs c bs = (case c of
     opt_raw_frame \<Rightarrow> delim_frame bs
   | opt_proto \<Rightarrow> pb_serialize (lib_pb libs) (to_proto (frame_struct bs))
   | opt_proto_frame \<Rightarrow> pb_delim_gzip (lib_pb libs) (to_proto (frame_struct bs))
   | _ \<Rightarrow> bs)"

text \<open>Every converter of the diagram has the diagram's number of lines.\<close>

definition td_ok :: "TaskDiagram \<Rightarrow> bool" where
  "td_ok td \<longleftrightarrow> length (td_raw_data td) = td_n_lines td \<and>
     (\<forall>os. td_raw_to_delim td = Some os \<longrightarrow> length os = td_n_lines td) \<and>
     (\<forall>sd. td_struct_deserializer td = Some sd \<longrightarrow> sd_n_lines sd = td_n_lines td) \<and>
     (\<forall>ps. td_struct_to_proto td = Some ps \<longrightarrow> length ps = td_n_lines td) \<and>
     (\<forall>os. td_proto_serializer td = Some os \<longrightarrow> length os = td_n_lines td) \<and>
     (\<forall>os. td_proto_delim td = Some os \<longrightarrow> length os = td_n_lines td)"

definition td_has :: "TaskDiagram \<Rightarrow> task_node \<Rightarrow> bool" where
  "td_has td n = (case n of
     N_raw_delim \<Rightarrow> td_raw_to_delim td \<noteq> None | N_struct \<Rightarrow> td_struct_deserializer td \<noteq> None
   | N_s2p \<Rightarrow> td_struct_to_proto td \<noteq> None | N_proto \<Rightarrow> td_proto_serializer td \<noteq> None
   | N_proto_delim \<Rightarrow> td_proto_delim td \<noteq> None | N_sink s \<Rightarrow> True)"

lemma emplace_if_simps [simp]: "emplace_if None y = Some y" "emplace_if (Some x) y = Some x"
  by (simp_all add: emplace_if_def)

lemma emplace_if_Some: "\<exists>z. emplace_if x y = Some z \<and> (z = y \<or> x = Some z)"
  by (cases x) simp_all

lemma sd_n_lines_mk: "sd_n_lines (mk_StructDeserializer n) = n"
  by (simp add: sd_n_lines_def mk_StructDeserializer_def)

lemma emplace_converter_ok:
  assumes "td_ok td"
  shows "td_ok (emplace_converter n td) \<and> td_has (emplace_converter n td) n \<and>
    td_n_lines (emplace_converter n td) = td_n_lines td \<and>
    td_raw_data (emplace_converter n td) = td_raw_data td \<and>
    (\<forall>n'. td_has td n' \<longrightarrow> td_has (emplace_converter n td) n')"
proof (cases n)
  case N_raw_delim
  then show ?thesis using assms by (cases "td_raw_to_delim td") (auto simp: td_ok_def td_has_def split: task_node.split)
next
  case N_struct
  then show ?thesis using assms
    by (cases "td_struct_deserializer td") (auto simp: td_ok_def td_has_def sd_n_lines_mk split: task_node.split)
next
  case N_s2p
  then show ?thesis using assms by (cases "td_struct_to_proto td") (auto simp: td_ok_def td_has_def split: task_node.split)
next
  case N_proto
  then show ?thesis using assms by (cases "td_proto_serializer td") (auto simp: td_ok_def td_has_def split: task_node.split)
next
  case N_proto_delim
  then show ?thesis using assms by (cases "td_proto_delim td") (auto simp: td_ok_def td_has_def split: task_node.split)
qed (use assms in \<open>simp add: td_has_def\<close>)

lemma fold_emplace_ok:
  "td_ok td \<Longrightarrow> td_ok (fold (\<lambda>(n, _). emplace_converter n) ns td) \<and>
     td_n_lines (fold (\<lambda>(n, _). emplace_converter n) ns td) = td_n_lines td \<and>
     td_raw_data (fold (\<lambda>(n, _). emplace_converter n) ns td) = td_raw_data td \<and>
     (\<forall>n. td_has td n \<or> n \<in> fst ` set ns \<longrightarrow> td_has (fold (\<lambda>(n, _). emplace_converter n) ns td) n)"
proof (induction ns arbitrary: td)
  case (Cons x ns)
  obtain n p where x: "x = (n, p)" by (cases x)
  show ?case using Cons.IH [of "emplace_converter n td"] emplace_converter_ok [OF Cons.prems, of n]
    by (auto simp: x)
qed simp

definition td_ready :: "Manager \<Rightarrow> TaskDiagram \<Rightarrow> bool" where
  "td_ready m td \<longleftrightarrow> td_ok td \<and> (\<forall>n \<in> fst ` set (conv_nodes m). td_has td n)"

lemma td_ok_mk: "td_ok (mk_TaskDiagram n)"
  by (simp add: td_ok_def mk_TaskDiagram_def)

lemma td_ready_emplace: "td_ok td \<Longrightarrow> td_ready m (emplace_all m td)"
  using fold_emplace_ok [of td "conv_nodes m"] by (simp add: td_ready_def emplace_all_def)

text \<open>The effect of each converter task on the views.\<close>

definition td_shows :: "task_libs \<Rightarrow> bytes \<Rightarrow> nat \<Rightarrow> task_node \<Rightarrow> TaskDiagram \<Rightarrow> bool" where
  "td_shows libs bs k n td = (case n of
     N_struct \<Rightarrow> view_struct td k = Some (frame_struct bs)
   | N_s2p \<Rightarrow> view_proto td k = Some (to_proto (frame_struct bs))
   | N_sink s \<Rightarrow> True
   | _ \<Rightarrow> view_bytes td k (source_of n) = Some (expected_bytes libs (converter_type n) bs))"

lemma deser_run_slot:
  assumes "zpp_documented z" "k < sd_n_lines sd"
  shows "sd_output_data (snd (deser_run z sd bs k)) ! k = frame_struct bs \<and>
    sd_n_lines (snd (deser_run z sd bs k)) = sd_n_lines sd"
proof -
  have "sd_output_data (snd (deser_run z sd bs k)) ! k = frame_struct bs"
  proof (cases "length bs \<le> 16")
    case True
    then show ?thesis
      using assms by (simp add: deser_run_def deser_convert_small sd_n_lines_def frame_struct_def)
  next
    case False
    then show ?thesis using assms deser_convert_small(2) [of bs] deser_convert_eq [of z bs]
      by (cases "length bs < 22") (simp_all add: deser_run_def sd_n_lines_def frame_struct_def)
  qed
  then show ?thesis by (simp add: deser.n_lines_run)
qed


definition td_stage :: "task_libs \<Rightarrow> bytes \<Rightarrow> nat \<Rightarrow> Manager \<Rightarrow> task_node set \<Rightarrow> TaskDiagram \<Rightarrow> bool" where
  "td_stage libs bs k m done td \<longleftrightarrow> td_ready m td \<and> k < td_n_lines td \<and> td_raw_data td ! k = bs \<and>
     (\<forall>n \<in> done. td_shows libs bs k n td)"

definition conv_edge_ok :: "task_node set \<Rightarrow> task_node \<times> task_source \<Rightarrow> bool" where
  "conv_edge_ok done e \<longleftrightarrow> (case e of
     (N_raw_delim, p) \<Rightarrow> p = Src_diagram | (N_struct, p) \<Rightarrow> p = Src_diagram
   | (N_s2p, p) \<Rightarrow> p = Src_struct \<and> N_struct \<in> done
   | (N_proto, p) \<Rightarrow> p = Src_s2p \<and> N_s2p \<in> done | (N_proto_delim, p) \<Rightarrow> p = Src_s2p \<and> N_s2p \<in> done
   | (N_sink s, p) \<Rightarrow> False)"

lemma td_shows_views:
  "td_shows libs bs k N_struct td \<longleftrightarrow> view_struct td k = Some (frame_struct bs)"
  "td_shows libs bs k N_s2p td \<longleftrightarrow> view_proto td k = Some (to_proto (frame_struct bs))"
  "td_shows libs bs k N_raw_delim td \<longleftrightarrow> view_bytes td k Src_raw_delim = Some (delim_frame bs)"
  "td_shows libs bs k N_proto td \<longleftrightarrow>
     view_bytes td k Src_proto = Some (pb_serialize (lib_pb libs) (to_proto (frame_struct bs)))"
  "td_shows libs bs k N_proto_delim td \<longleftrightarrow>
     view_bytes td k Src_proto_delim = Some (pb_delim_gzip (lib_pb libs) (to_proto (frame_struct bs)))"
  by (simp_all add: td_shows_def expected_bytes_def)

lemma run_converter:
  assumes "zpp_documented (lib_zpp libs)" "td_ok td" "td_has td n" "k < td_n_lines td"
    "td_raw_data td ! k = bs" "conv_edge_ok done (n, p)" "\<forall>n \<in> done. td_shows libs bs k n td"
  shows "\<exists>td'. run_node libs k (n, p) (td, m) = (None, td', m) \<and> td_ok td' \<and>
    td_n_lines td' = td_n_lines td \<and> td_raw_data td' = td_raw_data td \<and>
    (\<forall>n'. td_has td n' \<longrightarrow> td_has td' n') \<and> td_shows libs bs k n td' \<and>
    (\<forall>n'. n' \<noteq> n \<longrightarrow> td_shows libs bs k n' td \<longrightarrow> td_shows libs bs k n' td')"
proof (cases n)
  case N_raw_delim
  then obtain os where "td_raw_to_delim td = Some os" "k < length os" "p = Src_diagram"
    using assms(2-6) by (auto simp: td_has_def td_ok_def conv_edge_ok_def)
  then show ?thesis using N_raw_delim assms(1,2,5)
    by (auto simp: delim_run_eq unit_snd_def td_ok_def td_has_def td_shows_def expected_bytes_def
        view_struct_def view_proto_def split: task_node.splits)
next
  case N_struct
  then obtain sd where sd: "td_struct_deserializer td = Some sd" "k < sd_n_lines sd" "p = Src_diagram"
    using assms(2-6) by (auto simp: td_has_def td_ok_def conv_edge_ok_def)
  then show ?thesis using N_struct assms(2,5) deser_run_slot [OF assms(1) sd(2), of bs]
    by (auto simp: td_ok_def td_has_def td_shows_def expected_bytes_def
        view_struct_def view_proto_def split: task_node.splits)
next
  case N_s2p
  then obtain ps where "td_struct_to_proto td = Some ps" "k < length ps" "view_struct td k = Some (frame_struct bs)"
    using assms(2-7) by (auto simp: td_has_def td_ok_def conv_edge_ok_def td_shows_views)
  then show ?thesis using N_s2p assms(2)
    by (auto simp: s2p_run_def Let_def struct_to_proto_convert_clear unit_snd_def td_ok_def td_has_def
        td_shows_def expected_bytes_def view_struct_def view_proto_def split: task_node.splits)
next
  case N_proto
  then obtain os where "td_proto_serializer td = Some os" "k < length os"
    "view_proto td k = Some (to_proto (frame_struct bs))"
    using assms(2-7) by (auto simp: td_has_def td_ok_def conv_edge_ok_def td_shows_views)
  then show ?thesis using N_proto assms(2)
    by (auto simp: ps_run_def ps_plain_def Let_def unit_snd_def td_ok_def td_has_def
        td_shows_def expected_bytes_def view_struct_def view_proto_def split: task_node.splits)
next
  case N_proto_delim
  then obtain os where "td_proto_delim td = Some os" "k < length os"
    "view_proto td k = Some (to_proto (frame_struct bs))"
    using assms(2-7) by (auto simp: td_has_def td_ok_def conv_edge_ok_def td_shows_views)
  then show ?thesis using N_proto_delim assms(2)
    by (auto simp: ps_run_def ps_delim_def Let_def unit_snd_def td_ok_def td_has_def
        td_shows_def expected_bytes_def view_struct_def view_proto_def split: task_node.splits)
qed (use assms(6) in \<open>simp add: conv_edge_ok_def\<close>)

fun conv_order_ok :: "task_node set \<Rightarrow> (task_node \<times> task_source) list \<Rightarrow> bool" where
  "conv_order_ok done [] \<longleftrightarrow> True"
| "conv_order_ok done (e # es) \<longleftrightarrow> conv_edge_ok done e \<and> conv_order_ok (insert (fst e) done) es"

lemma conv_order_ok_nodes: "conv_order_ok {} (conv_nodes m)"
proof -
  let ?R = "is_convert_required m"
  have up: "?R opt_structure_to_proto \<Longrightarrow> ?R opt_structure" "?R opt_proto \<Longrightarrow> ?R opt_structure_to_proto"
    "?R opt_proto_frame \<Longrightarrow> ?R opt_structure_to_proto"
    by (erule required_closed, simp add: has_dependency_table)+
  then show ?thesis
    by (cases "?R opt_raw_frame"; cases "?R opt_structure"; cases "?R opt_structure_to_proto";
        cases "?R opt_proto"; cases "?R opt_proto_frame")
      (simp_all add: conv_nodes_def conv_edge_ok_def)
qed

lemma run_converters:
  assumes "zpp_documented (lib_zpp libs)" "td_stage libs bs k m done td" "conv_order_ok done es"
    "set es \<subseteq> set (conv_nodes m)"
  shows "\<exists>td'. run_tasks libs k (es @ sinks) (td, m) = run_tasks libs k sinks (td', m) \<and>
    td_stage libs bs k m (done \<union> fst ` set es) td' \<and> td_n_lines td' = td_n_lines td \<and>
    td_raw_data td' = td_raw_data td"
  using assms(2-4)
proof (induction es arbitrary: td "done")
  case Nil
  then show ?case by (intro exI [of _ td]) simp
next
  case (Cons e es)
  obtain n p where e: "e = (n, p)" by (cases e)
  have st: "td_ok td" "td_has td n" "k < td_n_lines td" "td_raw_data td ! k = bs"
    "conv_edge_ok done (n, p)" "\<forall>n \<in> done. td_shows libs bs k n td"
    using Cons.prems by (force simp: td_stage_def td_ready_def e)+
  then obtain td1 where td1: "run_node libs k e (td, m) = (None, td1, m)" "td_ok td1"
    "td_n_lines td1 = td_n_lines td" "td_raw_data td1 = td_raw_data td"
    "\<forall>n'. td_has td n' \<longrightarrow> td_has td1 n'" "td_shows libs bs k n td1"
    "\<forall>n'. n' \<noteq> n \<longrightarrow> td_shows libs bs k n' td \<longrightarrow> td_shows libs bs k n' td1"
    using run_converter [OF assms(1) st, of m] e by blast
  then have "td_stage libs bs k m (insert n done) td1"
    using Cons.prems(1) by (auto simp: td_stage_def td_ready_def)
  then show ?case using Cons.IH [of "insert n done" td1] Cons.prems(2,3) td1(1,3,4) e by auto
qed


section \<open>What the sinks receive\<close>

text \<open>Every sink run once on the conversion it requires.\<close>

definition deliver :: "task_libs \<Rightarrow> bytes \<Rightarrow> nat \<Rightarrow> Manager \<Rightarrow> Manager" where
  "deliver libs bs k m =
     m\<lparr>binary_files := map (\<lambda>(n, c, v). (n, c, unit_snd (bf_run v (expected_bytes libs c bs) k))) (binary_files m),
       udp_files := map (\<lambda>(n, c, v). (n, c, unit_snd (udp_run (lib_send libs) v (expected_bytes libs c bs) k))) (udp_files m),
       json_files := map (\<lambda>(n, c, v). (n, c, snd (js_run (lib_glz libs) v (frame_struct bs) k))) (json_files m),
       frame_count_checker := map_option (\<lambda>c. snd (analyze_frame_counter (lib_zpp libs) c bs)) (frame_count_checker m),
       root_files := map (\<lambda>(n, c, v). (n, c, unit_snd (rf_run (lib_root libs) v (frame_struct bs) k))) (root_files m)\<rparr>"

definition sink_views_ok :: "task_libs \<Rightarrow> bytes \<Rightarrow> nat \<Rightarrow> TaskDiagram \<Rightarrow> sink_ref \<Rightarrow> bool" where
  "sink_views_ok libs bs k td s \<longleftrightarrow>
     (if is_struct_type (sink_kind s) then sink_source s = Src_struct \<and> view_struct td k = Some (frame_struct bs)
      else view_bytes td k (sink_source s) = Some (expected_bytes libs (sink_required s) bs))"

lemma stage_sink_views:
  assumes "manager_ok env m" "td_stage libs bs k m (fst ` set (conv_nodes m)) td" "s \<in> set (do_for_each_sink m)"
  shows "sink_views_ok libs bs k td s"
proof -
  have req: "is_convert_required m (sink_required s)" by (rule sink_required_required [OF assms(3)])
  have shows_req: "td_shows libs bs k n td"
    if "is_convert_required m (converter_type n)"
      "n \<in> {N_raw_delim, N_struct, N_s2p, N_proto, N_proto_delim}" for n
  proof -
    have "n \<in> fst ` set (conv_nodes m)" using that by (auto simp: conv_nodes_def image_iff)
    then show ?thesis using assms(2) by (auto simp: td_stage_def)
  qed
  show ?thesis
    using manager_sink_ref_ok [OF assms(1,3)] req assms(2) shows_req [of N_raw_delim] shows_req [of N_struct]
      shows_req [of N_proto] shows_req [of N_proto_delim]
    by (cases "sink_kind s")
      (auto simp: sink_ref_ok_def sink_views_ok_def is_struct_type_def sink_source_def td_shows_def
        td_stage_def expected_bytes_def)
qed

text \<open>Updating the entries of a map one name after the other updates all of them.\<close>

lemma fold_update_sink:
  assumes "distinct (map fst fs)"
  shows "fold (\<lambda>(n, c, _). update_sink n (f c)) fs files =
    map (\<lambda>(n, c, v). (n, c, case map_of (map (\<lambda>(n, c, _). (n, c)) fs) n of None \<Rightarrow> v | Some c \<Rightarrow> f c v)) files"
  using assms
proof (induction fs arbitrary: files)
  case Nil
  then show ?case by (induction files) auto
next
  case (Cons x fs)
  obtain n c v where x: "x = (n, c, v)" by (cases x)
  have "map_of (map (\<lambda>(n, c, _). (n, c)) fs) n = None"
    using Cons.prems by (force simp: x map_of_eq_None_iff)
  then show ?case using Cons by (auto simp: x update_sink_def)
qed

lemma fold_update_sink_all:
  assumes "distinct (map fst fs)"
  shows "fold (\<lambda>(n, c, _). update_sink n (f c)) fs fs = map (\<lambda>(n, c, v). (n, c, f c v)) fs"
proof -
  have "map_of (map (\<lambda>(n, c, _). (n, c)) fs) n = Some c" if "(n, c, v) \<in> set fs" for n c v
    using assms that by (intro map_of_is_SomeI) (force simp: comp_def split_def)+
  then show ?thesis unfolding fold_update_sink [OF assms] by (intro map_cong) auto
qed

definition serve_task :: "task_libs \<Rightarrow> bytes \<Rightarrow> nat \<Rightarrow> sink_ref \<Rightarrow> Manager \<Rightarrow> json_error option \<times> Manager" where
  "serve_task libs bs k s = run_sink libs k s
     (if is_struct_type (sink_kind s) then None else Some (expected_bytes libs (sink_required s) bs))
     (if is_struct_type (sink_kind s) then Some (frame_struct bs) else None)"

definition serve :: "task_libs \<Rightarrow> bytes \<Rightarrow> nat \<Rightarrow> sink_ref \<Rightarrow> Manager \<Rightarrow> Manager" where
  "serve libs bs k s m = snd (serve_task libs bs k s m)"

lemma run_sink_node:
  "sink_views_ok libs bs k td s \<Longrightarrow>
     run_node libs k (N_sink s, sink_source s) (td, m) =
       (fst (serve_task libs bs k s m), td, serve libs bs k s m)"
  by (cases "sink_kind s")
    (auto simp: sink_views_ok_def is_struct_type_def run_sink_def serve_def serve_task_def
      split: if_splits option.splits)

text \<open>A flow throws when one of its JSON files does; glaze decides.\<close>

definition json_ready :: "nat \<Rightarrow> Manager \<Rightarrow> bool" where
  "json_ready k m \<longleftrightarrow> (\<forall>(n, c, js) \<in> set (json_files m). js_keys_ok js \<and> k < js_n_lines js)"

definition writable :: "task_libs \<Rightarrow> bytes \<Rightarrow> bool" where
  "writable libs bs \<longleftrightarrow> lib_glz libs (export_of (frame_struct bs)) \<noteq> None"

lemma manager_json_ready: "manager_ok env m \<Longrightarrow> k < env_n_lines env \<Longrightarrow> json_ready k m"
  by (fastforce simp: manager_ok_def sink_map_ok_def json_ready_def)

lemma json_ready_serve:
  "json_ready k m \<Longrightarrow> json_ready k (serve libs bs j s m)"
  by (cases "sink_kind s")
    (auto simp: serve_def serve_task_def run_sink_def json_ready_def update_sink_def is_struct_type_def
      js_keys_ok_run js_n_lines_run split: if_splits)

lemma serve_throws:
  assumes "json_ready k m" "sink_kind s = K_json \<Longrightarrow> sink_name s \<in> fst ` set (json_files m)"
  shows "fst (serve_task libs bs k s m) = (if sink_kind s = K_json \<and> \<not> writable libs bs then Some CannotInterpret else None)"
proof (cases "sink_kind s = K_json")
  case True
  then obtain c js where js: "map_of (json_files m) (sink_name s) = Some (c, js)"
    using assms(2) by (metis map_of_eq_None_iff not_None_eq surj_pair)
  then have "(sink_name s, c, js) \<in> set (json_files m)" by (rule map_of_SomeD)
  then have "js_keys_ok js" "k < js_n_lines js" using assms(1) by (auto simp: json_ready_def)
  then show ?thesis using True js
    by (auto simp: serve_task_def run_sink_def is_struct_type_def json_exception_def js_run_outcome writable_def
        split: option.split)
qed (cases "sink_kind s"; simp add: serve_task_def run_sink_def is_struct_type_def)

lemma update_sink_names: "map fst (update_sink n f files) = map fst files"
  by (simp add: update_sink_def comp_def split_def)

lemma serve_json_names: "fst ` set (json_files (serve libs bs k s m)) = fst ` set (json_files m)"
  using update_sink_names [of "sink_name s" _ "json_files m", THEN arg_cong [of _ _ set]]
  by (cases "sink_kind s") (simp_all add: serve_def serve_task_def run_sink_def is_struct_type_def)

lemma run_sink_nodes:
  assumes "\<forall>s \<in> set ss. sink_views_ok libs bs k td s" "json_ready k m"
    and "\<forall>s \<in> set ss. sink_kind s = K_json \<longrightarrow> sink_name s \<in> fst ` set (json_files m)"
  shows "if (\<forall>s \<in> set ss. sink_kind s \<noteq> K_json) \<or> writable libs bs
    then run_tasks libs k (map (\<lambda>s. (N_sink s, sink_source s)) ss) (td, m) = (None, td, fold (serve libs bs k) ss m)
    else fst (run_tasks libs k (map (\<lambda>s. (N_sink s, sink_source s)) ss) (td, m)) = Some CannotInterpret"
  using assms
proof (induction ss arbitrary: m)
  case (Cons s ss)
  have run: "run_node libs k (N_sink s, sink_source s) (td, m) =
      (if sink_kind s = K_json \<and> \<not> writable libs bs then Some CannotInterpret else None, td, serve libs bs k s m)"
    using Cons.prems serve_throws [of k m s libs bs] run_sink_node [of libs bs k td s m] by (simp del: run_node.simps)
  have IH: "if (\<forall>s \<in> set ss. sink_kind s \<noteq> K_json) \<or> writable libs bs
    then run_tasks libs k (map (\<lambda>s. (N_sink s, sink_source s)) ss) (td, serve libs bs k s m) =
      (None, td, fold (serve libs bs k) ss (serve libs bs k s m))
    else fst (run_tasks libs k (map (\<lambda>s. (N_sink s, sink_source s)) ss) (td, serve libs bs k s m)) = Some CannotInterpret"
    using Cons.prems by (intro Cons.IH) (simp_all add: json_ready_serve serve_json_names)
  then show ?case using run by (cases "sink_kind s = K_json"; cases "writable libs bs") (simp_all del: run_node.simps)
qed simp

lemma fold_serve_binary:
  "fold (serve libs bs k) (map (\<lambda>(n, c, _). \<lparr>sink_name = n, sink_kind = K_binary, sink_required = c\<rparr>) fs) m =
     m\<lparr>binary_files := fold (\<lambda>(n, c, _). update_sink n (\<lambda>v. unit_snd (bf_run v (expected_bytes libs c bs) k)))
        fs (binary_files m)\<rparr>"
  by (induction fs arbitrary: m) (auto simp: serve_def serve_task_def run_sink_def is_struct_type_def)

lemma fold_serve_udp:
  "fold (serve libs bs k) (map (\<lambda>(n, c, _). \<lparr>sink_name = n, sink_kind = K_udp, sink_required = c\<rparr>) fs) m =
     m\<lparr>udp_files := fold (\<lambda>(n, c, _). update_sink n
        (\<lambda>v. unit_snd (udp_run (lib_send libs) v (expected_bytes libs c bs) k))) fs (udp_files m)\<rparr>"
  by (induction fs arbitrary: m) (auto simp: serve_def serve_task_def run_sink_def is_struct_type_def)

lemma fold_serve_json:
  "fold (serve libs bs k) (map (\<lambda>(n, c, _). \<lparr>sink_name = n, sink_kind = K_json, sink_required = c\<rparr>) fs) m =
     m\<lparr>json_files := fold (\<lambda>(n, c, _). update_sink n (\<lambda>v. snd (js_run (lib_glz libs) v (frame_struct bs) k)))
        fs (json_files m)\<rparr>"
  by (induction fs arbitrary: m) (auto simp: serve_def serve_task_def run_sink_def is_struct_type_def)

lemma fold_serve_root:
  "fold (serve libs bs k) (map (\<lambda>(n, c, _). \<lparr>sink_name = n, sink_kind = K_root, sink_required = c\<rparr>) fs) m =
     m\<lparr>root_files := fold (\<lambda>(n, c, _). update_sink n (\<lambda>v. unit_snd (rf_run (lib_root libs) v (frame_struct bs) k)))
        fs (root_files m)\<rparr>"
  by (induction fs arbitrary: m) (auto simp: serve_def serve_task_def run_sink_def is_struct_type_def)

lemma distinct_sink_names:
  "sink_map_ok kind ok files \<Longrightarrow> distinct (map fst files)"
  by (auto simp: sink_map_ok_def strict_sorted_iff)

lemma fold_serve_deliver:
  assumes "manager_ok env m"
  shows "fold (serve libs bs k) (do_for_each_sink m) m = deliver libs bs k m"
proof -
  have "distinct (map fst (binary_files m))" "distinct (map fst (udp_files m))" "distinct (map fst (json_files m))"
    "distinct (map fst (root_files m))"
    using assms by (auto simp: manager_ok_def intro: distinct_sink_names)
  then show ?thesis
    by (cases "frame_count_checker m")
      (simp_all add: do_for_each_sink_def fold_serve_binary fold_serve_udp fold_serve_json fold_serve_root
        fold_update_sink_all deliver_def,
       simp_all add: serve_def serve_task_def run_sink_def is_struct_type_def expected_bytes_def fold_update_sink_all)
qed

lemma sink_json_name:
  "s \<in> set (do_for_each_sink m) \<Longrightarrow> sink_kind s = K_json \<longrightarrow> sink_name s \<in> fst ` set (json_files m)"
  by (force simp: do_for_each_sink_def split: if_splits)

lemma no_json_sinks: "(\<forall>s \<in> set (do_for_each_sink m). sink_kind s \<noteq> K_json) \<longleftrightarrow> json_files m = []"
  by (cases "json_files m") (auto simp: do_for_each_sink_def split: if_splits)

text \<open>A whole flow: it serves every sink, unless there are JSON files and glaze refuses the
  structure.\<close>

lemma run_flow:
  assumes "zpp_documented (lib_zpp libs)" "manager_ok env m" "td_ready m td" "k < td_n_lines td"
    and "k < env_n_lines env" "tf_tasks tf = flow_tasks m" "td_raw_data td ! k = bs"
  shows "\<exists>exn td' m'. run_taskflow libs k tf (td, m) = (exn, td', m') \<and>
    (if json_files m = [] \<or> writable libs bs
     then exn = None \<and> m' = deliver libs bs k m \<and> td_ready m td' \<and> td_n_lines td' = td_n_lines td \<and>
       td_raw_data td' = td_raw_data td
     else exn = Some CannotInterpret)"
proof -
  let ?sinks = "map (\<lambda>s. (N_sink s, sink_source s)) (do_for_each_sink m)"
  have "td_stage libs bs k m {} td" using assms(3,4,7) by (simp add: td_stage_def)
  from run_converters [OF assms(1) this conv_order_ok_nodes subset_refl]
  obtain td' where td': "run_tasks libs k (conv_nodes m @ ?sinks) (td, m) = run_tasks libs k ?sinks (td', m)"
    "td_stage libs bs k m (fst ` set (conv_nodes m)) td'" "td_n_lines td' = td_n_lines td"
    "td_raw_data td' = td_raw_data td" by auto
  have run: "run_taskflow libs k tf (td, m) = run_tasks libs k ?sinks (td', m)"
    by (simp add: run_taskflow_def assms(6) flow_tasks_def td'(1))
  have "if json_files m = [] \<or> writable libs bs
    then run_tasks libs k ?sinks (td', m) = (None, td', deliver libs bs k m)
    else fst (run_tasks libs k ?sinks (td', m)) = Some CannotInterpret"
    using run_sink_nodes [of "do_for_each_sink m" libs bs k td' m] stage_sink_views [OF assms(2) td'(2)]
      manager_json_ready [OF assms(2,5)] sink_json_name [of _ m]
    unfolding no_json_sinks fold_serve_deliver [OF assms(2), of libs bs k] by blast
  then show ?thesis using td'(2-4) unfolding run td_stage_def
    by (cases "run_tasks libs k ?sinks (td', m)") (auto split: if_splits)
qed

section \<open>Order of the flow\<close>

lemma sink_source_provides:
  "manager_ok env m \<Longrightarrow> s \<in> set (do_for_each_sink m) \<Longrightarrow> provides (sink_source s) = sink_required s"
  using manager_sink_ref_ok [of env m s]
  by (cases "sink_kind s") (auto simp: sink_ref_ok_def sink_source_def)

lemma conv_order_before:
  "conv_order_ok done (us @ (n, p) # vs) \<Longrightarrow> p \<noteq> Src_diagram \<Longrightarrow>
     \<exists>n'. n' \<in> done \<union> fst ` set us \<and> source_of n' = p"
proof (induction us arbitrary: "done")
  case Nil
  then have "conv_edge_ok done (n, p)" by simp
  then show ?case using Nil.prems(2)
    by (cases n) (auto simp: conv_edge_ok_def intro: bexI [of _ N_struct] bexI [of _ N_s2p])
next
  case (Cons e us)
  then show ?case by fastforce
qed

lemma conv_nodes_no_sink: "(N_sink s, p) \<notin> set (conv_nodes m)"
  by (auto simp: conv_nodes_def)

lemma source_node:
  "p \<noteq> Src_diagram \<Longrightarrow> \<exists>n. source_of n = p \<and> converter_type n = provides p \<and>
     n \<in> {N_raw_delim, N_struct, N_s2p, N_proto, N_proto_delim}"
  by (cases p) (auto intro: exI [of _ N_raw_delim] exI [of _ N_struct] exI [of _ N_s2p] exI [of _ N_proto]
      exI [of _ N_proto_delim])

lemma flow_order:
  assumes "manager_ok env m" "flow_tasks m = us @ (n, p) # vs" "p \<noteq> Src_diagram"
  shows "\<exists>n' p'. (n', p') \<in> set us \<and> source_of n' = p"
proof -
  let ?sinks = "map (\<lambda>s. (N_sink s, sink_source s)) (do_for_each_sink m)"
  have "conv_nodes m @ ?sinks = us @ (n, p) # vs" using assms(2) by (simp add: flow_tasks_def)
  then consider (conv) ws where "conv_nodes m = us @ (n, p) # ws"
    | (sink) ws where "us = conv_nodes m @ ws" "?sinks = ws @ (n, p) # vs"
    by (auto simp: append_eq_append_conv2 Cons_eq_append_conv append_eq_Cons_conv)
  then show ?thesis
  proof cases
    case conv
    then have "conv_order_ok {} (us @ (n, p) # ws)" using conv_order_ok_nodes [of m] by simp
    then show ?thesis using conv_order_before assms(3) by fastforce
  next
    case sink
    then have "(n, p) \<in> set ?sinks" by (metis in_set_conv_decomp)
    then obtain s where s: "s \<in> set (do_for_each_sink m)" "p = sink_source s" by auto
    obtain n' where n': "source_of n' = p" "converter_type n' = provides p"
      "n' \<in> {N_raw_delim, N_struct, N_s2p, N_proto, N_proto_delim}"
      using source_node [OF assms(3)] by blast
    have "is_convert_required m (converter_type n')"
      using sink_required_required [OF s(1)] sink_source_provides [OF assms(1) s(1)] n'(2) s(2) by simp
    then have "n' \<in> fst ` set (conv_nodes m)" using n'(3) by (auto simp: conv_nodes_def image_iff)
    then show ?thesis using sink(1) n'(1) by auto
  qed
qed

section \<open>Properties\<close>

text \<open>
  C17. The flow of a line is complete and ordered: every sink of the manager gets exactly one
  task, reading from the source that provides the conversion the sink requires; the converters
  in the flow are exactly the required ones; and every task stands after the task it reads from,
  with a precedence edge to it.\<close>

theorem taskflow_complete:
  assumes "manager_ok env m"
  shows "let tf = snd (construct_taskflow_line m td) in
    filter (\<lambda>(n, _). \<exists>s. n = N_sink s) (tf_tasks tf) =
      map (\<lambda>s. (N_sink s, sink_source s)) (do_for_each_sink m) \<and>
    (\<forall>s \<in> set (do_for_each_sink m). provides (sink_source s) = sink_required s) \<and>
    (\<forall>n \<in> {N_raw_delim, N_struct, N_s2p, N_proto, N_proto_delim}.
       (\<exists>p. (n, p) \<in> set (tf_tasks tf)) \<longleftrightarrow> is_convert_required m (converter_type n)) \<and>
    (\<forall>us n p vs. tf_tasks tf = us @ (n, p) # vs \<longrightarrow> p \<noteq> Src_diagram \<longrightarrow>
       (\<exists>n' p'. (n', p') \<in> set us \<and> source_of n' = p) \<and> (p, n) \<in> set (tf_edges tf))"
proof -
  let ?tf = "snd (construct_taskflow_line m td)"
  have tf: "tf_tasks ?tf = flow_tasks m" by (rule construct_eq(2) [OF assms])
  have "filter (\<lambda>(n, _). \<exists>s. n = N_sink s) (tf_tasks ?tf) =
      map (\<lambda>s. (N_sink s, sink_source s)) (do_for_each_sink m)"
    by (simp add: tf flow_tasks_def conv_nodes_def filter_map comp_def)
  moreover have "\<forall>s \<in> set (do_for_each_sink m). provides (sink_source s) = sink_required s"
    using sink_source_provides [OF assms] by blast
  moreover have "\<forall>n \<in> {N_raw_delim, N_struct, N_s2p, N_proto, N_proto_delim}.
      (\<exists>p. (n, p) \<in> set (tf_tasks ?tf)) \<longleftrightarrow> is_convert_required m (converter_type n)"
    by (auto simp: tf flow_tasks_def conv_nodes_def)
  moreover have "\<forall>us n p vs. tf_tasks ?tf = us @ (n, p) # vs \<longrightarrow> p \<noteq> Src_diagram \<longrightarrow>
      (\<exists>n' p'. (n', p') \<in> set us \<and> source_of n' = p) \<and> (p, n) \<in> set (tf_edges ?tf)"
    using flow_order [OF assms] construct_eq(3) [OF assms, of td] by (force simp: tf)
  ultimately show ?thesis by (simp only: Let_def)
qed

lemma taskflow_complete_witness:
  "let tf = snd (construct_taskflow_line (enable_frame_count_checker mk_Manager) (mk_TaskDiagram 2)) in
    filter (\<lambda>(n, _). \<exists>s. n = N_sink s) (tf_tasks tf) =
      map (\<lambda>s. (N_sink s, sink_source s)) (do_for_each_sink (enable_frame_count_checker mk_Manager))"
  using taskflow_complete [OF manager_ok_checker [OF manager_ok_mk]] by (simp add: Let_def)

text \<open>
  C5. What a frame becomes at every sink: running the flow of a line on a frame, when glaze writes
  its structure or there is no JSON file, throws nothing, appends to each binary file and sends
  to each socket the conversion it requires (the frame itself, the delimited frame, the
  serialised message), writes the frame's structure to each JSON file, fills the tree of the line
  of each ROOT file with it, and registers the frame with the counter check, each exactly once
  and nothing else. A frame too short to be read reaches the structured sinks as the default
  structure. When glaze refuses the structure and there is a JSON file, the flow ends with the
  exception of the JSON file.\<close>

theorem line_delivers:
  assumes "zpp_documented (lib_zpp libs)" "manager_ok env m" "td_ok td" "k < td_n_lines td"
    "k < env_n_lines env" "td_raw_data td ! k = bs"
  shows "let (td', tf) = construct_taskflow_line m td; (exn, td'', m') = run_taskflow libs k tf (td', m) in
    if json_files m = [] \<or> lib_glz libs (export_of (frame_struct bs)) \<noteq> None
    then exn = None \<and> m' = deliver libs bs k m \<and> td_ok td'' \<and>
      td_n_lines td'' = td_n_lines td \<and> td_raw_data td'' = td_raw_data td
    else exn = Some CannotInterpret"
proof -
  obtain td' tf where c: "construct_taskflow_line m td = (td', tf)" by (cases "construct_taskflow_line m td")
  have td': "td' = emplace_all m td" and tf: "tf_tasks tf = flow_tasks m"
    using construct_eq [OF assms(2), of td] c by simp_all
  have em: "td_n_lines td' = td_n_lines td" "td_raw_data td' = td_raw_data td" "td_ready m td'"
    using fold_emplace_ok [OF assms(3), of "conv_nodes m"] td_ready_emplace [OF assms(3), of m]
    by (simp_all add: td' emplace_all_def)
  then show ?thesis using run_flow [OF assms(1,2) em(3) _ assms(5) tf, of bs] assms(4,6)
    by (auto simp: c writable_def td_ready_def split: if_splits)
qed

lemma line_delivers_witness:
  "let m = enable_frame_count_checker mk_Manager;
       libs = \<lparr>lib_zpp = zpp_ref, lib_pb = pb_ref, lib_send = (\<lambda>_ bs. length bs), lib_glz = (\<lambda>_. Some []),
         lib_root = root_ref\<rparr>;
       (td', tf) = construct_taskflow_line m ((mk_TaskDiagram 2)\<lparr>td_raw_data := [[], replicate 30 1]\<rparr>);
       (exn, td'', m') = run_taskflow libs 1 tf (td', m) in
    exn = None \<and> m' = deliver libs (replicate 30 1) 1 m"
proof -
  let ?m = "enable_frame_count_checker mk_Manager"
  let ?td = "(mk_TaskDiagram 2)\<lparr>td_raw_data := [[], replicate 30 1]\<rparr>"
  let ?libs = "\<lparr>lib_zpp = zpp_ref, lib_pb = pb_ref, lib_send = (\<lambda>_ bs. length bs), lib_glz = (\<lambda>_. Some []), lib_root = root_ref\<rparr>"
  let ?env = "\<lparr>env_n_lines = 2, env_can_open = (\<lambda>_. True), env_resolve = (\<lambda>_ _. Inl []), env_has_root = True,
      env_root = root_ref\<rparr>"
  have "td_ok ?td" by (simp add: td_ok_def mk_TaskDiagram_def)
  then show ?thesis
    using line_delivers [of ?libs ?env ?m ?td 1 "replicate 30 1", OF _ manager_ok_checker [OF manager_ok_mk]]
    by (auto simp: mk_TaskDiagram_def)
qed

end
