(* ===== verification/Buffer_Queue.thy ===== *)
theory Buffer_Queue
  imports Srs_Prelude State_Machine "HOL-Library.Multiset"
begin

text \<open>
  The way of a UDP packet from the data socket to a pipeline line: \<^verbatim>\<open>LargeBuffer\<close> and
  \<^verbatim>\<open>BufferQueue\<close> (\<^verbatim>\<open>backend/srs/data\<close>), \<^verbatim>\<open>DataSocket::response_handler\<close>,
  \<^verbatim>\<open>AnalysisHandle::read_data_once\<close> and \<^verbatim>\<open>TaskDiagram::run_task\<close>. The lock-free queues are
  a third-party library and a parameter \<open>cqueue\<close>; \<open>cq_documented\<close> states what the program
  relies on. The components run as a step relation: packets arrive, lines give back their
  buffer and wait for the next one, and stop markers are queued.
\<close>

section \<open>Buffers\<close>

text \<open>\<^verbatim>\<open>size_\<close>, the vector, and whether the vector owns memory
  (\<^verbatim>\<open>capacity() != 0\<close>).\<close>

record LargeBuffer =
  lb_size :: nat
  lb_data :: bytes
  lb_owns_memory :: bool

definition lb_empty :: LargeBuffer where
  "lb_empty = \<lparr>lb_size = 0, lb_data = [], lb_owns_memory = False\<rparr>"

definition mk_LargeBuffer :: "nat \<Rightarrow> LargeBuffer" where
  "mk_LargeBuffer buffer_size =
     \<lparr>lb_size = 0, lb_data = replicate buffer_size 0, lb_owns_memory = (buffer_size \<noteq> 0)\<rparr>"

text \<open>What a defaulted move leaves behind: the number is copied, the vector is moved out.\<close>

definition lb_moved_from :: "LargeBuffer \<Rightarrow> LargeBuffer" where
  "lb_moved_from b = b\<lparr>lb_data := [], lb_owns_memory := False\<rparr>"

definition lb_view :: "LargeBuffer \<Rightarrow> bytes" where
  "lb_view b = take (lb_size b) (lb_data b)"

definition lb_resize :: "nat \<Rightarrow> LargeBuffer \<Rightarrow> LargeBuffer" where
  "lb_resize n b =
     (let b = b\<lparr>lb_size := n\<rparr>;
          m = (if lb_size b \<ge> length (lb_data b) then lb_size b else length (lb_data b))
      in b\<lparr>lb_data := vec_resize (lb_data b) m 0, lb_owns_memory := lb_owns_memory b \<or> m \<noteq> 0\<rparr>)"

definition lb_is_empty :: "LargeBuffer \<Rightarrow> bool" where
  "lb_is_empty b \<longleftrightarrow> length (lb_data b) = 0 \<and> \<not> lb_owns_memory b"

text \<open>A vector with elements owns memory.\<close>

definition lb_ok :: "LargeBuffer \<Rightarrow> bool" where
  "lb_ok b \<longleftrightarrow> (lb_data b \<noteq> [] \<longrightarrow> lb_owns_memory b)"

lemma lb_resize_data: "length (lb_data (lb_resize n b)) = max n (length (lb_data b))"
  by (simp add: lb_resize_def Let_def max_def)

lemma lb_resize_take: "k \<le> length (lb_data b) \<Longrightarrow> take k (lb_data (lb_resize n b)) = take k (lb_data b)"
  by (simp add: lb_resize_def Let_def take_vec_resize)

lemma lb_resize_size [simp]: "lb_size (lb_resize n b) = n"
  by (simp add: lb_resize_def Let_def)

lemma lb_resize_ok: "lb_ok b \<Longrightarrow> lb_ok (lb_resize n b)"
  by (auto simp: lb_ok_def lb_resize_def vec_resize_def Let_def split: if_splits)

section \<open>Concurrent queues\<close>

text \<open>The operations of the queue library on a queue of type \<open>'q\<close>, and the buffers a queue
  holds. Each call is atomic, as the library guarantees. \<close>

record 'q cqueue =
  cq_try_enqueue :: "LargeBuffer \<Rightarrow> 'q \<Rightarrow> 'q option"
  cq_try_dequeue :: "'q \<Rightarrow> (LargeBuffer \<times> 'q) option"
  cq_enqueue_bulk :: "LargeBuffer list \<Rightarrow> 'q \<Rightarrow> 'q"
  cq_new :: "nat \<Rightarrow> 'q"
  cq_contents :: "'q \<Rightarrow> LargeBuffer multiset"

text \<open>Documented: a new queue is empty, what is put in is in it, what is taken out was in it,
  and nothing else. No order between producers is promised, \<^verbatim>\<open>try_enqueue\<close> may fail at any
  time, and \<^verbatim>\<open>try_dequeue\<close> may give nothing although the queue is not empty.\<close>

definition cq_documented :: "'q cqueue \<Rightarrow> bool" where
  "cq_documented c \<longleftrightarrow>
     (\<forall>n. cq_contents c (cq_new c n) = {#}) \<and>
     (\<forall>b q q'. cq_try_enqueue c b q = Some q' \<longrightarrow> cq_contents c q' = add_mset b (cq_contents c q)) \<and>
     (\<forall>q b q'. cq_try_dequeue c q = Some (b, q') \<longrightarrow> cq_contents c q = add_mset b (cq_contents c q')) \<and>
     (\<forall>bs q. cq_contents c (cq_enqueue_bulk c bs q) = mset bs + cq_contents c q)"

text \<open>A bounded queue that behaves so.\<close>

definition cq_ref :: "(nat \<times> LargeBuffer list) cqueue" where
  "cq_ref = \<lparr>cq_try_enqueue = (\<lambda>b (n, xs). if length xs < n then Some (n, xs @ [b]) else None),
     cq_try_dequeue = (\<lambda>(n, xs). case xs of [] \<Rightarrow> None | x # xs \<Rightarrow> Some (x, n, xs)),
     cq_enqueue_bulk = (\<lambda>bs (n, xs). (n, xs @ bs)), cq_new = (\<lambda>n. (n, [])),
     cq_contents = (\<lambda>(n, xs). mset xs)\<rparr>"

lemma cq_ref_documented [simp]: "cq_documented cq_ref"
  by (auto simp: cq_documented_def cq_ref_def split: list.splits if_splits)

lemma cq_enqueued: "cq_documented c \<Longrightarrow> cq_try_enqueue c b q = Some q' \<Longrightarrow>
    cq_contents c q' = add_mset b (cq_contents c q)"
  by (simp add: cq_documented_def)

lemma cq_dequeued: "cq_documented c \<Longrightarrow> cq_try_dequeue c q = Some (b, q') \<Longrightarrow>
    cq_contents c q = add_mset b (cq_contents c q')"
  by (simp add: cq_documented_def)

section \<open>The buffer queue\<close>

record bq_Config =
  buffer_size :: nat
  reserve_size :: nat
  queue_capacity :: nat

record 'q BufferQueue =
  bq_config :: bq_Config
  n_trash_recycle_empty_failures :: nat
  n_trash_recycle_full_failures :: nat
  n_valid_buffer_full_failures :: nat
  valid_buffer_queue :: 'q
  trash_buffer_queue :: 'q

text \<open>The constructor fills the trash queue until an enqueue fails.\<close>

fun preallocate :: "'q cqueue \<Rightarrow> nat \<Rightarrow> nat \<Rightarrow> 'q \<Rightarrow> 'q" where
  "preallocate c 0 bytes q = q"
| "preallocate c (Suc n) bytes q =
     (case cq_try_enqueue c (mk_LargeBuffer bytes) q of None \<Rightarrow> q | Some q \<Rightarrow> preallocate c n bytes q)"

definition mk_BufferQueue :: "'q cqueue \<Rightarrow> bq_Config \<Rightarrow> 'q BufferQueue" where
  "mk_BufferQueue c cfg = \<lparr>bq_config = cfg, n_trash_recycle_empty_failures = 0,
     n_trash_recycle_full_failures = 0, n_valid_buffer_full_failures = 0,
     valid_buffer_queue = cq_new c (queue_capacity cfg),
     trash_buffer_queue = preallocate c (reserve_size cfg) (buffer_size cfg) (cq_new c (queue_capacity cfg))\<rparr>"

definition bq_enqueue_empty :: "'q cqueue \<Rightarrow> nat \<Rightarrow> 'q BufferQueue \<Rightarrow> 'q BufferQueue" where
  "bq_enqueue_empty c bulk_size q =
     q\<lparr>valid_buffer_queue := cq_enqueue_bulk c (replicate bulk_size lb_empty) (valid_buffer_queue q)\<rparr>"

definition bq_enqueue ::
  "'q cqueue \<Rightarrow> LargeBuffer \<Rightarrow> 'q BufferQueue \<Rightarrow> bool \<times> LargeBuffer \<times> 'q BufferQueue" where
  "bq_enqueue c element q =
     (case cq_try_enqueue c element (valid_buffer_queue q) of
        None \<Rightarrow> (False, element, q\<lparr>n_valid_buffer_full_failures := n_valid_buffer_full_failures q + 1\<rparr>)
      | Some v \<Rightarrow>
          let q = q\<lparr>valid_buffer_queue := v\<rparr>; element = lb_moved_from element
          in case cq_try_dequeue c (trash_buffer_queue q) of
               None \<Rightarrow> (True, lb_resize (buffer_size (bq_config q)) element,
                 q\<lparr>n_trash_recycle_empty_failures := n_trash_recycle_empty_failures q + 1\<rparr>)
             | Some (b, t) \<Rightarrow> (True, b, q\<lparr>trash_buffer_queue := t\<rparr>))"

text \<open>\<^verbatim>\<open>dequeue\<close> gives the line's buffer back and then waits for a valid one; the wait can
  only end when there is one.\<close>

definition bq_dequeue_give :: "'q cqueue \<Rightarrow> LargeBuffer \<Rightarrow> 'q BufferQueue \<Rightarrow> LargeBuffer \<times> 'q BufferQueue" where
  "bq_dequeue_give c element q =
     (case cq_try_enqueue c element (trash_buffer_queue q) of
        None \<Rightarrow> (element, q\<lparr>n_trash_recycle_full_failures := n_trash_recycle_full_failures q + 1\<rparr>)
      | Some t \<Rightarrow> (lb_moved_from element, q\<lparr>trash_buffer_queue := t\<rparr>))"

definition bq_dequeue_wait :: "'q cqueue \<Rightarrow> 'q BufferQueue \<Rightarrow> (LargeBuffer \<times> 'q BufferQueue) option" where
  "bq_dequeue_wait c q =
     map_option (\<lambda>(b, v). (b, q\<lparr>valid_buffer_queue := v\<rparr>)) (cq_try_dequeue c (valid_buffer_queue q))"

section \<open>The data socket and the handler\<close>

record analysis_counters =
  total_read_data_bytes :: nat
  total_drop_data_bytes :: nat
  total_frame_counts :: nat

definition read_data_once ::
  "'q cqueue \<Rightarrow> LargeBuffer \<Rightarrow> 'q BufferQueue \<Rightarrow> analysis_counters \<Rightarrow>
     LargeBuffer \<times> 'q BufferQueue \<times> analysis_counters" where
  "read_data_once c read_data q a =
     (let data_size = lb_size read_data;
          a = a\<lparr>total_read_data_bytes := total_read_data_bytes a + data_size\<rparr>;
          a = a\<lparr>total_frame_counts := total_frame_counts a + 1\<rparr>;
          (is_success, read_data, q) = bq_enqueue c read_data q;
          a = (if \<not> is_success
               then a\<lparr>total_drop_data_bytes := total_drop_data_bytes a + data_size\<rparr> else a)
      in (read_data, q, a))"

text \<open>A packet is received into the whole buffer, which cuts it off at the buffer's length.\<close>

definition receive_into :: "bytes \<Rightarrow> LargeBuffer \<Rightarrow> nat \<times> LargeBuffer" where
  "receive_into packet b =
     (let got = take (length (lb_data b)) packet
      in (length got, b\<lparr>lb_data := got @ drop (length got) (lb_data b)\<rparr>))"

definition ds_response_handler ::
  "'q cqueue \<Rightarrow> nat \<Rightarrow> nat \<Rightarrow> LargeBuffer \<Rightarrow> 'q BufferQueue \<Rightarrow> analysis_counters \<Rightarrow>
     LargeBuffer \<times> 'q BufferQueue \<times> analysis_counters" where
  "ds_response_handler c full read_size b q a =
     (let b = lb_resize read_size b;
          (b, q, a) = read_data_once c b q a
      in (lb_resize full b, q, a))"

section \<open>The system\<close>

datatype line_state = L_running | L_waiting | L_stopped

record line =
  ln_state :: line_state
  ln_raw_data :: LargeBuffer

text \<open>\<open>sy_received\<close>, \<open>sy_dropped\<close> and \<open>sy_delivered\<close> are history variables: the packets
  that arrived, those the queue refused, and those a line got.\<close>

record 'q bq_system =
  sy_queue :: "'q BufferQueue"
  sy_read_buffer :: LargeBuffer
  sy_counters :: analysis_counters
  sy_lines :: "line list"
  sy_workflow_bytes :: nat
  sy_received :: "bytes list"
  sy_dropped :: "bytes list"
  sy_delivered :: "bytes list"

definition sy_receive :: "'q cqueue \<Rightarrow> bytes \<Rightarrow> 'q bq_system \<Rightarrow> 'q bq_system" where
  "sy_receive c packet s =
     (let (n, b) = receive_into packet (sy_read_buffer s);
          ok = (cq_try_enqueue c (lb_resize n b) (valid_buffer_queue (sy_queue s)) \<noteq> None);
          (b, q, a) = ds_response_handler c (buffer_size (bq_config (sy_queue s))) n b (sy_queue s) (sy_counters s)
      in s\<lparr>sy_queue := q, sy_read_buffer := b, sy_counters := a, sy_received := packet # sy_received s,
           sy_dropped := (if ok then sy_dropped s else packet # sy_dropped s)\<rparr>)"

text \<open>\<^verbatim>\<open>run_task\<close> of a line, cut at the point where it blocks: a buffer that is empty is the
  stop marker, any other is counted.\<close>

definition sy_give :: "'q cqueue \<Rightarrow> nat \<Rightarrow> 'q bq_system \<Rightarrow> 'q bq_system" where
  "sy_give c k s =
     (let (b, q) = bq_dequeue_give c (ln_raw_data (sy_lines s ! k)) (sy_queue s)
      in s\<lparr>sy_queue := q, sy_lines := (sy_lines s)[k := \<lparr>ln_state = L_waiting, ln_raw_data = b\<rparr>]\<rparr>)"

definition sy_take :: "nat \<Rightarrow> LargeBuffer \<Rightarrow> 'q BufferQueue \<Rightarrow> 'q bq_system \<Rightarrow> 'q bq_system" where
  "sy_take k b q s =
     (if \<not> lb_is_empty b
      then s\<lparr>sy_queue := q, sy_lines := (sy_lines s)[k := \<lparr>ln_state = L_running, ln_raw_data = b\<rparr>],
             sy_workflow_bytes := sy_workflow_bytes s + lb_size b, sy_delivered := lb_view b # sy_delivered s\<rparr>
      else s\<lparr>sy_queue := q, sy_lines := (sy_lines s)[k := \<lparr>ln_state = L_stopped, ln_raw_data = b\<rparr>]\<rparr>)"

text \<open>A datagram that does not fit into the buffer is cut by the socket.\<close>

inductive sy_step :: "'q cqueue \<Rightarrow> 'q bq_system \<Rightarrow> 'q bq_system \<Rightarrow> bool" for c where
  step_receive: "sy_step c s (sy_receive c (take (buffer_size (bq_config (sy_queue s))) datagram) s)"
| step_give: "k < length (sy_lines s) \<Longrightarrow> ln_state (sy_lines s ! k) = L_running \<Longrightarrow> sy_step c s (sy_give c k s)"
| step_take: "k < length (sy_lines s) \<Longrightarrow> ln_state (sy_lines s ! k) = L_waiting \<Longrightarrow>
    bq_dequeue_wait c (sy_queue s) = Some (b, q) \<Longrightarrow> sy_step c s (sy_take k b q s)"
| step_stop: "sy_step c s (s\<lparr>sy_queue := bq_enqueue_empty c (length (sy_lines s)) (sy_queue s)\<rparr>)"

definition sy_start :: "'q cqueue \<Rightarrow> bq_Config \<Rightarrow> nat \<Rightarrow> 'q bq_system" where
  "sy_start c cfg n_lines = \<lparr>sy_queue = mk_BufferQueue c cfg,
     sy_read_buffer = mk_LargeBuffer (buffer_size cfg),
     sy_counters = \<lparr>total_read_data_bytes = 0, total_drop_data_bytes = 0, total_frame_counts = 0\<rparr>,
     sy_lines = replicate n_lines \<lparr>ln_state = L_running, ln_raw_data = mk_LargeBuffer (buffer_size cfg)\<rparr>,
     sy_workflow_bytes = 0, sy_received = [], sy_dropped = [], sy_delivered = []\<rparr>"

section \<open>Lists of lists as multisets\<close>

lemma mset_concat_update:
  "k < length xs \<Longrightarrow> mset (concat (map f (xs[k := y]))) + mset (f (xs ! k)) = mset (concat (map f xs)) + mset (f y)"
  using sum_list_map_update [of k xs "\<lambda>x. mset (f x)" y] by (simp add: mset_concat comp_def)

section \<open>The invariant\<close>

definition lens :: "bytes list \<Rightarrow> nat" where
  "lens xs = sum_list (map length xs)"

definition data_buffers :: "LargeBuffer multiset \<Rightarrow> LargeBuffer multiset" where
  "data_buffers bs = filter_mset (\<lambda>b. \<not> lb_is_empty b) bs"

text \<open>A buffer as the socket queues it: large enough, its size within its memory.\<close>

definition lb_filled :: "LargeBuffer \<Rightarrow> bool" where
  "lb_filled b \<longleftrightarrow> lb_size b \<le> length (lb_data b)"

definition sy_inv :: "'q cqueue \<Rightarrow> nat \<Rightarrow> 'q bq_system \<Rightarrow> bool" where
  "sy_inv c bsize s \<longleftrightarrow>
     buffer_size (bq_config (sy_queue s)) = bsize \<and> bsize \<le> length (lb_data (sy_read_buffer s)) \<and>
     (\<forall>b \<in># data_buffers (cq_contents c (valid_buffer_queue (sy_queue s))). lb_filled b) \<and>
     mset (sy_received s) = mset (sy_dropped s) + mset (sy_delivered s) +
       image_mset lb_view (data_buffers (cq_contents c (valid_buffer_queue (sy_queue s)))) \<and>
     total_read_data_bytes (sy_counters s) = lens (sy_received s) \<and>
     total_frame_counts (sy_counters s) = length (sy_received s) \<and>
     total_drop_data_bytes (sy_counters s) = lens (sy_dropped s) \<and>
     n_valid_buffer_full_failures (sy_queue s) = length (sy_dropped s) \<and>
     sy_workflow_bytes s = lens (sy_delivered s)"

lemma lens_Cons [simp]: "lens (x # xs) = length x + lens xs" "lens [] = 0"
  by (simp_all add: lens_def)

lemma data_buffers_add:
  "data_buffers (add_mset b bs) = (if lb_is_empty b then data_buffers bs else add_mset b (data_buffers bs))"
  by (simp add: data_buffers_def)

lemma data_buffers_markers: "data_buffers (replicate_mset n lb_empty + bs) = data_buffers bs"
  by (induction n) (simp_all add: data_buffers_add, simp_all add: lb_is_empty_def lb_empty_def)

lemma received_buffer:
  assumes "length packet \<le> length (lb_data b)" "0 < length (lb_data b)"
  shows "fst (receive_into packet b) = length packet"
    and "lb_view (lb_resize (length packet) (snd (receive_into packet b))) = packet"
    and "lb_filled (lb_resize (length packet) (snd (receive_into packet b)))"
    and "\<not> lb_is_empty (lb_resize (length packet) (snd (receive_into packet b)))"
    and "length (lb_data (lb_resize (length packet) (snd (receive_into packet b)))) = length (lb_data b)"
proof -
  let ?r = "snd (receive_into packet b)" let ?n = "length packet"
  have d: "lb_data ?r = packet @ drop ?n (lb_data b)" using assms(1) by (simp add: receive_into_def)
  have l: "length (lb_data ?r) = length (lb_data b)" using assms(1) by (simp add: d)
  show "fst (receive_into packet b) = ?n" using assms(1) by (simp add: receive_into_def)
  show "length (lb_data (lb_resize ?n ?r)) = length (lb_data b)"
    using assms(1) l by (simp add: lb_resize_data)
  then show "lb_filled (lb_resize ?n ?r)" "\<not> lb_is_empty (lb_resize ?n ?r)"
    using assms by (simp_all only: lb_filled_def lb_is_empty_def lb_resize_size) simp
  have "take ?n (lb_data (lb_resize ?n ?r)) = take ?n (lb_data ?r)"
    using assms(1) l by (intro lb_resize_take) simp
  then show "lb_view (lb_resize ?n ?r) = packet" by (simp add: lb_view_def d)
qed

lemma bq_enqueue_cases:
  assumes "cq_documented c" "bq_enqueue c b q = (ok, b', q')"
  shows "bq_config q' = bq_config q \<and> ok = (cq_try_enqueue c b (valid_buffer_queue q) \<noteq> None) \<and>
    cq_contents c (valid_buffer_queue q') =
      (if ok then add_mset b (cq_contents c (valid_buffer_queue q)) else cq_contents c (valid_buffer_queue q)) \<and>
    n_valid_buffer_full_failures q' =
      (if ok then n_valid_buffer_full_failures q else n_valid_buffer_full_failures q + 1) \<and>
    (\<not> ok \<longrightarrow> b' = b)"
proof (cases "cq_try_enqueue c b (valid_buffer_queue q)")
  case None
  then show ?thesis using assms(2) by (auto simp: bq_enqueue_def)
next
  case (Some v)
  then show ?thesis using assms(2) cq_enqueued [OF assms(1) Some]
    by (cases "cq_try_dequeue c (trash_buffer_queue q)") (auto simp: bq_enqueue_def)
qed

lemma sy_inv_receive:
  assumes "cq_documented c" "0 < bsize" "sy_inv c bsize s" "length packet \<le> bsize"
  shows "sy_inv c bsize (sy_receive c packet s)"
proof -
  let ?rb = "sy_read_buffer s" let ?q = "sy_queue s"
  let ?b = "lb_resize (length packet) (snd (receive_into packet ?rb))"
  have len: "length packet \<le> length (lb_data ?rb)" "0 < length (lb_data ?rb)"
    using assms(2-4) by (auto simp: sy_inv_def)
  note b = received_buffer [OF len]
  have bs: "buffer_size (bq_config ?q) = bsize" using assms(3) by (simp add: sy_inv_def)
  obtain ok b' q' where e: "bq_enqueue c ?b ?q = (ok, b', q')" by (cases "bq_enqueue c ?b ?q") auto
  note ec = bq_enqueue_cases [OF assms(1) e]
  have rec: "sy_receive c packet s = s\<lparr>sy_queue := q', sy_read_buffer := lb_resize bsize b',
      sy_counters := (let a = (sy_counters s)\<lparr>total_read_data_bytes := total_read_data_bytes (sy_counters s) + length packet,
          total_frame_counts := total_frame_counts (sy_counters s) + 1\<rparr>
        in if ok then a else a\<lparr>total_drop_data_bytes := total_drop_data_bytes a + length packet\<rparr>),
      sy_received := packet # sy_received s,
      sy_dropped := (if ok then sy_dropped s else packet # sy_dropped s)\<rparr>"
    using e ec b(1) bs
    by (cases "receive_into packet ?rb"; cases ok)
      (simp_all add: sy_receive_def ds_response_handler_def read_data_once_def Let_def)
  show ?thesis
  proof (cases ok)
    case True
    then show ?thesis using ec b assms(3)
      by (simp add: rec sy_inv_def data_buffers_add lb_resize_data)
  next
    case False
    then show ?thesis using ec b assms(3)
      by (simp add: rec sy_inv_def lb_resize_data)
  qed
qed

lemma bq_dequeue_give_valid:
  "bq_dequeue_give c b q = (b', q') \<Longrightarrow> valid_buffer_queue q' = valid_buffer_queue q \<and> bq_config q' = bq_config q \<and>
     n_valid_buffer_full_failures q' = n_valid_buffer_full_failures q"
  by (auto simp: bq_dequeue_give_def split: option.splits)

lemma sy_inv_give: "sy_inv c bsize s \<Longrightarrow> sy_inv c bsize (sy_give c k s)"
proof -
  assume inv: "sy_inv c bsize s"
  obtain b q where g: "bq_dequeue_give c (ln_raw_data (sy_lines s ! k)) (sy_queue s) = (b, q)"
    by (cases "bq_dequeue_give c (ln_raw_data (sy_lines s ! k)) (sy_queue s)")
  show ?thesis using bq_dequeue_give_valid [OF g] inv by (simp add: sy_give_def sy_inv_def g)
qed

lemma sy_inv_take:
  assumes "cq_documented c" "sy_inv c bsize s" "bq_dequeue_wait c (sy_queue s) = Some (b, q)"
  shows "sy_inv c bsize (sy_take k b q s)"
proof -
  obtain v where v: "cq_try_dequeue c (valid_buffer_queue (sy_queue s)) = Some (b, v)"
    "q = (sy_queue s)\<lparr>valid_buffer_queue := v\<rparr>"
    using assms(3) by (auto simp: bq_dequeue_wait_def)
  note d = cq_dequeued [OF assms(1) v(1)]
  show ?thesis
  proof (cases "lb_is_empty b")
    case True
    then show ?thesis using assms(2) d v(2) by (simp add: sy_take_def sy_inv_def data_buffers_add)
  next
    case False
    then have "lb_size b = length (lb_view b)"
      using assms(2) d by (simp add: sy_inv_def data_buffers_add lb_filled_def lb_view_def)
    then show ?thesis using False assms(2) d v(2) by (simp add: sy_take_def sy_inv_def data_buffers_add)
  qed
qed

lemma sy_inv_stop:
  "cq_documented c \<Longrightarrow> sy_inv c bsize s \<Longrightarrow>
     sy_inv c bsize (s\<lparr>sy_queue := bq_enqueue_empty c n (sy_queue s)\<rparr>)"
  by (simp add: sy_inv_def bq_enqueue_empty_def cq_documented_def data_buffers_markers)

lemma sy_inv_step:
  assumes "cq_documented c" "0 < bsize" "sy_inv c bsize s" "sy_step c s t"
  shows "sy_inv c bsize t"
  using assms(4)
proof cases
  case (step_receive datagram)
  then show ?thesis using sy_inv_receive [OF assms(1-3), of "take (buffer_size (bq_config (sy_queue s))) datagram"] assms(3)
    by (simp add: sy_inv_def)
next
  case (step_give k)
  then show ?thesis using sy_inv_give [OF assms(3)] by simp
next
  case (step_take k b q)
  then show ?thesis using sy_inv_take [OF assms(1,3)] by simp
next
  case step_stop
  then show ?thesis using sy_inv_stop [OF assms(1,3)] by simp
qed

lemma sy_inv_start: "cq_documented c \<Longrightarrow> sy_inv c (buffer_size cfg) (sy_start c cfg n)"
  by (simp add: sy_inv_def sy_start_def mk_BufferQueue_def mk_LargeBuffer_def cq_documented_def data_buffers_def)

interpretation bq: invariant_system
  "\<lambda>s. cq_documented c \<and> 0 < buffer_size cfg \<and> s = sy_start c cfg n" "sy_step c"
  "\<lambda>s. cq_documented c \<and> 0 < buffer_size cfg \<and> sy_inv c (buffer_size cfg) s" for c cfg n
  by unfold_locales (auto simp: sy_inv_start sy_inv_step)

lemma sy_inv_steps:
  "cq_documented c \<Longrightarrow> 0 < buffer_size cfg \<Longrightarrow> steps (sy_step c) (sy_start c cfg n) s \<Longrightarrow>
     sy_inv c (buffer_size cfg) s"
  using bq.inv_steps [of c "sy_start c cfg n" s cfg] by (simp add: sy_inv_start)


section \<open>Properties\<close>

text \<open>
  C4. No packet is lost or invented between the socket and the lines, in whatever order packets
  arrive, lines give back and take buffers, stop markers are queued and enqueues fail: every
  packet received was refused by the full queue, is waiting in it, or has been delivered to
  exactly one line with exactly its bytes; stop markers are never taken for packets nor packets
  for stop markers.\<close>

theorem packets_conserved:
  assumes "cq_documented c" "0 < buffer_size cfg" "steps (sy_step c) (sy_start c cfg n_lines) s"
  shows "mset (sy_received s) = mset (sy_dropped s) + mset (sy_delivered s) +
    image_mset lb_view (filter_mset (\<lambda>b. \<not> lb_is_empty b) (cq_contents c (valid_buffer_queue (sy_queue s))))"
  using sy_inv_steps [OF assms] by (simp only: sy_inv_def data_buffers_def)

text \<open>
  C18. The statistics are exact: bytes read, frames counted, bytes dropped, full-queue failures
  and the bytes of the workflow are those of the packets received, dropped and delivered.\<close>

theorem statistics_exact:
  assumes "cq_documented c" "0 < buffer_size cfg" "steps (sy_step c) (sy_start c cfg n_lines) s"
  shows "total_read_data_bytes (sy_counters s) = sum_list (map length (sy_received s)) \<and>
    total_frame_counts (sy_counters s) = length (sy_received s) \<and>
    total_drop_data_bytes (sy_counters s) = sum_list (map length (sy_dropped s)) \<and>
    n_valid_buffer_full_failures (sy_queue s) = length (sy_dropped s) \<and>
    sy_workflow_bytes s = sum_list (map length (sy_delivered s))"
  using sy_inv_steps [OF assms] by (simp only: sy_inv_def lens_def)

text \<open>
  The socket's buffer never shrinks below the configured size, whatever it was exchanged
  for in the trash queue (a stop marker or a moved-out buffer included), so the next packet of
  up to that size is received whole.\<close>

theorem read_buffer_ready:
  assumes "cq_documented c" "0 < buffer_size cfg" "steps (sy_step c) (sy_start c cfg n_lines) s"
    "length packet \<le> buffer_size cfg"
  shows "lb_view (let (n, b) = receive_into packet (sy_read_buffer s) in lb_resize n b) = packet"
proof -
  have "buffer_size cfg \<le> length (lb_data (sy_read_buffer s))"
    using sy_inv_steps [OF assms(1-3)] by (simp add: sy_inv_def)
  then have "length packet \<le> length (lb_data (sy_read_buffer s))" "0 < length (lb_data (sy_read_buffer s))"
    using assms(2,4) by linarith+
  from received_buffer(1,2) [OF this] show ?thesis by (simp add: split_def)
qed

definition sample_bq_config :: bq_Config where
  "sample_bq_config = \<lparr>buffer_size = 4, reserve_size = 1, queue_capacity = 2\<rparr>"

lemma sample_steps:
  "steps (sy_step cq_ref) (sy_start cq_ref sample_bq_config 1)
     (sy_receive cq_ref [1, 2, 3] (sy_start cq_ref sample_bq_config 1))"
proof (rule steps_one)
  have "take (buffer_size (bq_config (sy_queue (sy_start cq_ref sample_bq_config 1)))) [1, 2, 3] = ([1, 2, 3] :: bytes)"
    by (simp add: sy_start_def mk_BufferQueue_def sample_bq_config_def)
  then show "sy_step cq_ref (sy_start cq_ref sample_bq_config 1)
      (sy_receive cq_ref [1, 2, 3] (sy_start cq_ref sample_bq_config 1))"
    using step_receive [of cq_ref "sy_start cq_ref sample_bq_config 1" "[1, 2, 3]"] by simp
qed

lemma packets_conserved_witness:
  "let s = sy_receive cq_ref [1, 2, 3] (sy_start cq_ref sample_bq_config 1) in
    mset (sy_received s) = mset (sy_dropped s) + mset (sy_delivered s) +
    image_mset lb_view (filter_mset (\<lambda>b. \<not> lb_is_empty b) (cq_contents cq_ref (valid_buffer_queue (sy_queue s))))"
  unfolding Let_def by (rule packets_conserved [OF _ _ sample_steps]) (simp_all add: sample_bq_config_def)

lemma statistics_exact_witness:
  "total_read_data_bytes (sy_counters (sy_receive cq_ref [1, 2, 3] (sy_start cq_ref sample_bq_config 1))) = 3"
  using statistics_exact [OF _ _ sample_steps]
  by (simp add: sample_bq_config_def) (simp add: sy_receive_def sy_start_def split_def Let_def)

lemma read_buffer_ready_witness:
  "lb_view (let (n, b) = receive_into [9, 8] (sy_read_buffer (sy_receive cq_ref [1, 2, 3]
      (sy_start cq_ref sample_bq_config 1))) in lb_resize n b) = [9, 8]"
  by (rule read_buffer_ready [OF _ _ sample_steps]) (simp_all add: sample_bq_config_def)

end
