(* ===== verification/Commands.thy ===== *)
theory Commands
  imports Zpp_Archive
begin

text \<open>
  The commands sent to a FEC: \<^verbatim>\<open>process::SerializableMsgBuffer\<close>
  (\<^verbatim>\<open>converters/SerializableBuffer.hpp\<close>), \<^verbatim>\<open>connection::CommandBase\<close>
  (\<^verbatim>\<open>connections/ConnectionBase\<close>) and its two subclasses \<^verbatim>\<open>Starter\<close> and
  \<^verbatim>\<open>Stopper\<close> (\<^verbatim>\<open>connections/Connections\<close>): the bytes of a command and of the
  response it waits for. The endpoint type of the network library is a type parameter.
\<close>

section \<open>Message buffers\<close>

definition INIT_COUNT_VALUE :: u32 where "INIT_COUNT_VALUE = 0x80000000"
definition ZERO_UINT16_PADDING :: u16 where "ZERO_UINT16_PADDING = 0"
definition WRITE_COMMAND_BITS :: u8 where "WRITE_COMMAND_BITS = 0xaa"
definition DEFAULT_TYPE_BITS :: u8 where "DEFAULT_TYPE_BITS = 0xaa"
definition COMMAND_LENGTH_BITS :: u16 where "COMMAND_LENGTH_BITS = 0xffff"
definition NULL_ADDRESS :: u16 where "NULL_ADDRESS = 0x000f"

lemmas command_constants = INIT_COUNT_VALUE_def ZERO_UINT16_PADDING_def WRITE_COMMAND_BITS_def
  DEFAULT_TYPE_BITS_def COMMAND_LENGTH_BITS_def NULL_ADDRESS_def

text \<open>\<^verbatim>\<open>serialize\<close> opens an archive on the buffer, moves its position to the end and
  writes the items there.\<close>

definition msg_serialize :: "zpp_bits \<Rightarrow> bytes list \<Rightarrow> bytes \<Rightarrow> bytes" where
  "msg_serialize z items buffer =
     (let arc = arc_open buffer; arc = arc\<lparr>arc_pos := arc_pos arc + length buffer\<rparr>
      in arc_data (arc_write z (concat items) arc))"

lemma msg_serialize_eq [wire_simps]:
  "zpp_documented z \<Longrightarrow> msg_serialize z items buffer = buffer @ concat items"
  by (simp add: msg_serialize_def Let_def arc_open_def arc_write_def zpp_store_append)

section \<open>Commands\<close>

datatype command_class = Starter | Stopper

record 'e CommandBase =
  cb_class :: command_class
  cb_name :: string
  cb_counter :: u32
  cb_remote_endpoint :: 'e
  cb_write_msg_buffer :: bytes
  cb_write_msg_response_buffer :: bytes

definition encode_write_msg :: "zpp_bits \<Rightarrow> bytes \<Rightarrow> u32 \<Rightarrow> u32 list \<Rightarrow> u16 \<Rightarrow> bytes" where
  "encode_write_msg z buffer counter data address =
     (let buffer = msg_serialize z [zpp_u32 z counter, zpp_u16 z ZERO_UINT16_PADDING, zpp_u16 z address,
            zpp_u8 z WRITE_COMMAND_BITS, zpp_u8 z DEFAULT_TYPE_BITS, zpp_u16 z COMMAND_LENGTH_BITS] buffer
      in msg_serialize z (map (zpp_u32 z) data) buffer)"

fun get_suffix :: "command_class \<Rightarrow> u32 list" where
  "get_suffix Starter = [0, 15, 1]"
| "get_suffix Stopper = [0, 15, 0]"

fun command_tag :: "command_class \<Rightarrow> string" where
  "command_tag Starter = ''on''"
| "command_tag Stopper = ''off''"

text \<open>\<^verbatim>\<open>CommandBase{name}\<close>, its endpoint not set.\<close>

definition mk_CommandBase :: "command_class \<Rightarrow> string \<Rightarrow> 'e \<Rightarrow> 'e CommandBase" where
  "mk_CommandBase cl name no_endpoint = \<lparr>cb_class = cl, cb_name = name, cb_counter = INIT_COUNT_VALUE,
     cb_remote_endpoint = no_endpoint, cb_write_msg_buffer = [], cb_write_msg_response_buffer = []\<rparr>"

definition set_write_response_msg ::
  "zpp_bits \<Rightarrow> u32 list \<Rightarrow> u16 \<Rightarrow> 'e CommandBase \<Rightarrow> 'e CommandBase" where
  "set_write_response_msg z msg address c = c\<lparr>cb_write_msg_response_buffer :=
     encode_write_msg z (cb_write_msg_response_buffer c) 0 msg address\<rparr>"

definition mk_Starter :: "zpp_bits \<Rightarrow> string \<Rightarrow> 'e \<Rightarrow> 'e CommandBase" where
  "mk_Starter z name no_endpoint =
     set_write_response_msg z [0, 0, 1] NULL_ADDRESS (mk_CommandBase Starter name no_endpoint)"

definition mk_Stopper :: "zpp_bits \<Rightarrow> string \<Rightarrow> 'e \<Rightarrow> 'e CommandBase" where
  "mk_Stopper z name no_endpoint =
     set_write_response_msg z [0, 0, 0] NULL_ADDRESS (mk_CommandBase Stopper name no_endpoint)"

fun mk_command :: "zpp_bits \<Rightarrow> command_class \<Rightarrow> string \<Rightarrow> 'e \<Rightarrow> 'e CommandBase" where
  "mk_command z Starter name no_endpoint = mk_Starter z name no_endpoint"
| "mk_command z Stopper name no_endpoint = mk_Stopper z name no_endpoint"

definition get_response_msg :: "'e CommandBase \<Rightarrow> bytes" where
  "get_response_msg c = cb_write_msg_response_buffer c"

definition check_response :: "'e CommandBase \<Rightarrow> bytes \<Rightarrow> bool" where
  "check_response c response_msg =
     (if cb_write_msg_response_buffer c = [] then True
      else response_msg = cb_write_msg_response_buffer c)"

text \<open>The part of \<^verbatim>\<open>send_message_from\<close> that changes the command: the message is encoded
  behind whatever the buffer holds.\<close>

definition encode_own_msg :: "zpp_bits \<Rightarrow> 'e CommandBase \<Rightarrow> 'e CommandBase" where
  "encode_own_msg z c = c\<lparr>cb_write_msg_buffer :=
     encode_write_msg z (cb_write_msg_buffer c) (cb_counter c) (get_suffix (cb_class c)) NULL_ADDRESS\<rparr>"

section \<open>The bytes\<close>

definition on_off :: "command_class \<Rightarrow> byte" where
  "on_off cl = (case cl of Starter \<Rightarrow> 1 | Stopper \<Rightarrow> 0)"

definition suffix_bytes :: "command_class \<Rightarrow> bytes" where
  "suffix_bytes cl = [0, 0, 0, 0, 0, 0, 0, 15, 0, 0, 0, on_off cl]"

definition message_bytes :: "command_class \<Rightarrow> bytes" where
  "message_bytes cl = [0x80, 0, 0, 0, 0, 0, 0, 0x0f, 0xaa, 0xaa, 0xff, 0xff] @ suffix_bytes cl"

definition response_bytes :: "command_class \<Rightarrow> bytes" where
  "response_bytes cl = [0, 0, 0, 0, 0, 0, 0, 0x0f, 0xaa, 0xaa, 0xff, 0xff, 0, 0, 0, 0, 0, 0, 0, 0, 0, 0, 0, on_off cl]"

lemma be_bytes_numeral:
  "be_bytes 4 (0 :: u32) = [0, 0, 0, 0]" "be_bytes 4 (1 :: u32) = [0, 0, 0, 1]"
  "be_bytes 4 (15 :: u32) = [0, 0, 0, 15]" "be_bytes 4 (0x80000000 :: u32) = [0x80, 0, 0, 0]"
  "be_bytes 2 (0 :: u16) = [0, 0]" "be_bytes 2 (15 :: u16) = [0, 15]"
  "be_bytes 2 (0xffff :: u16) = [0xff, 0xff]"
  by (code_simp)+

lemma suffix_encoded [wire_simps]:
  "zpp_documented z \<Longrightarrow> concat (map (zpp_u32 z) (get_suffix cl)) = suffix_bytes cl"
  by (cases cl) (simp_all add: zpp_encoders be_bytes_numeral suffix_bytes_def on_off_def)

lemma message_encoded [wire_simps]:
  assumes "zpp_documented z"
  shows "encode_write_msg z b INIT_COUNT_VALUE (get_suffix cl) NULL_ADDRESS = b @ message_bytes cl"
  using assms suffix_encoded [OF assms, of cl]
  by (simp add: encode_write_msg_def msg_serialize_eq command_constants zpp_encoders be_bytes_numeral
      message_bytes_def)

lemma response_encoded [wire_simps]:
  assumes "zpp_documented z"
  shows "cb_write_msg_response_buffer (mk_command z cl name e) = response_bytes cl"
  using assms
  by (cases cl) (simp_all add: mk_Starter_def mk_Stopper_def set_write_response_msg_def
      mk_CommandBase_def encode_write_msg_def msg_serialize_eq command_constants zpp_encoders
      be_bytes_numeral response_bytes_def on_off_def)

lemma mk_command_fields [simp]:
  "cb_class (mk_command z cl name e) = cl" "cb_counter (mk_command z cl name e) = INIT_COUNT_VALUE"
  "cb_write_msg_buffer (mk_command z cl name e) = []" "cb_remote_endpoint (mk_command z cl name e) = e"
  by (cases cl; simp add: mk_Starter_def mk_Stopper_def set_write_response_msg_def mk_CommandBase_def)+

lemma encode_own_msg_fields [simp]:
  "cb_class (encode_own_msg z c) = cb_class c" "cb_counter (encode_own_msg z c) = cb_counter c"
  "cb_remote_endpoint (encode_own_msg z c) = cb_remote_endpoint c"
  "cb_write_msg_response_buffer (encode_own_msg z c) = cb_write_msg_response_buffer c"
  by (simp_all add: encode_own_msg_def)

lemma check_response_cong [simp]: "check_response (encode_own_msg z c) r = check_response c r"
  by (simp add: check_response_def)

lemma check_response_mk [wire_simps]:
  "zpp_documented z \<Longrightarrow>
     check_response ((mk_command z cl name e)\<lparr>cb_remote_endpoint := e'\<rparr>) r \<longleftrightarrow> r = response_bytes cl"
  by (simp add: check_response_def response_encoded) (simp add: response_bytes_def)

lemma check_response_mk' [wire_simps]:
  "zpp_documented z \<Longrightarrow> check_response (mk_command z cl name e) r \<longleftrightarrow> r = response_bytes cl"
  by (simp add: check_response_def response_encoded) (simp add: response_bytes_def)

lemma on_off_inject [simp]: "on_off a = on_off b \<longleftrightarrow> a = b"
  by (cases a; cases b) (simp_all add: on_off_def)

lemma response_bytes_inject [simp]: "response_bytes a = response_bytes b \<longleftrightarrow> a = b"
  by (simp add: response_bytes_def)

lemma concat_replicate_snoc: "concat (replicate n x) @ x = concat (replicate (Suc n) x)"
  by (induction n) simp_all

section \<open>Properties\<close>

text \<open>
  The messages of the FEC protocol are the documented byte strings: the n-th time a command
  object is sent its buffer holds n copies of the 24-byte message of its class (counter
  0x80000000, zero padding, address 15, two type bytes, length 0xffff and the suffix), and the
  object accepts as response exactly the 24-byte response of its class.\<close>

theorem command_messages:
  assumes "zpp_documented z"
  shows "cb_write_msg_buffer ((encode_own_msg z ^^ n) (mk_command z cl name e)) =
      concat (replicate n (message_bytes cl)) \<and>
    (check_response ((encode_own_msg z ^^ n) (mk_command z cl name e)) r \<longleftrightarrow> r = response_bytes cl) \<and>
    length (message_bytes cl) = 24 \<and> length (response_bytes cl) = 24"
proof -
  let ?c = "\<lambda>n. (encode_own_msg z ^^ n) (mk_command z cl name e)"
  have f: "cb_class (?c n) = cl \<and> cb_counter (?c n) = INIT_COUNT_VALUE \<and> check_response (?c n) r = check_response (?c 0) r" for n
    by (induction n) simp_all
  have "cb_write_msg_buffer (?c n) = concat (replicate n (message_bytes cl))"
  proof (induction n)
    case (Suc n)
    have "cb_write_msg_buffer (?c (Suc n)) = cb_write_msg_buffer (?c n) @ message_bytes cl"
      using f [of n] by (simp add: encode_own_msg_def message_encoded [OF assms])
    also have "\<dots> = concat (replicate (Suc n) (message_bytes cl))"
      by (simp only: Suc.IH concat_replicate_snoc)
    finally show ?case .
  qed simp
  then show ?thesis using f [of n] assms
    by (simp add: check_response_mk') (simp add: message_bytes_def suffix_bytes_def response_bytes_def)
qed

lemma command_messages_witness:
  "cb_write_msg_buffer ((encode_own_msg zpp_ref ^^ 1) (mk_command zpp_ref Starter ''Starter'' (0 :: nat))) =
     [0x80, 0, 0, 0, 0, 0, 0, 15, 170, 170, 255, 255, 0, 0, 0, 0, 0, 0, 0, 15, 0, 0, 0, 1]"
  using command_messages [OF zpp_ref_documented, of 1 Starter "''Starter''" "0 :: nat"]
  by (simp add: message_bytes_def suffix_bytes_def on_off_def)

end
