(* ===== verification/Fec_Socket.thy ===== *)
theory Fec_Socket
  imports Commands State_Machine "HOL-Library.AList" "HOL-Library.Multiset"
begin

text \<open>
  The socket that switches the FECs: \<^verbatim>\<open>connection::FecCommandSocket\<close>
  (\<^verbatim>\<open>connections/FecSwitchSocket\<close>) on top of \<^verbatim>\<open>SpecialSocket\<close>
  (\<^verbatim>\<open>connections/SpecialSocketBase\<close>), and \<^verbatim>\<open>App::switch_FECs\<close>. A command object is
  shared between the action that sends it and the list of commands that wait for a response,
  so commands live in a store and are referred to by their place in it. Receiving, waiting and
  cancelling run concurrently and form a step relation.
\<close>

section \<open>The socket\<close>

definition SMALL_READ_MSG_BUFFER_SIZE :: nat where "SMALL_READ_MSG_BUFFER_SIZE = 96"

record 'e FecCommandSocket =
  fs_commands :: "'e CommandBase list"
  all_connections :: "('e \<times> nat list) list"
  action_queue :: "nat list"
  read_msg_buffer :: bytes
  n_records :: nat
  n_bytes :: nat
  fs_is_open :: bool

definition mk_FecCommandSocket :: "'e FecCommandSocket" where
  "mk_FecCommandSocket = \<lparr>fs_commands = [], all_connections = [], action_queue = [],
     read_msg_buffer = vec_resize [] SMALL_READ_MSG_BUFFER_SIZE 0, n_records = 0, n_bytes = 0,
     fs_is_open = True\<rparr>"

text \<open>The element found is swapped with the last one, which is popped.\<close>

definition remove_once_if :: "('a \<Rightarrow> bool) \<Rightarrow> 'a list \<Rightarrow> bool \<times> 'a list" where
  "remove_once_if unitary_opt connections =
     (let iter = length (takeWhile unitary_opt connections)
      in if iter = length connections then (False, connections)
         else let swapped = connections[iter := last connections,
                  length connections - 1 := connections ! iter]
              in (True, butlast swapped))"

definition try_emplace :: "'e \<Rightarrow> ('e \<times> 'v list) list \<Rightarrow> ('e \<times> 'v list) list" where
  "try_emplace e m = (case map_of m e of None \<Rightarrow> AList.update e [] m | Some _ \<Rightarrow> m)"

definition register_send_action_imp :: "nat \<Rightarrow> 'e FecCommandSocket \<Rightarrow> 'e FecCommandSocket" where
  "register_send_action_imp connection s =
     (let s = s\<lparr>action_queue := action_queue s @ [connection]\<rparr>;
          remote_endpoint = cb_remote_endpoint (fs_commands s ! connection);
          m = try_emplace remote_endpoint (all_connections s);
          connections = the (map_of m remote_endpoint)
      in s\<lparr>all_connections := AList.update remote_endpoint (connections @ [connection]) m\<rparr>)"

definition send_message_from :: "zpp_bits \<Rightarrow> nat \<Rightarrow> 'e FecCommandSocket \<Rightarrow> 'e FecCommandSocket" where
  "send_message_from z connection s =
     (let s = s\<lparr>fs_commands := (fs_commands s)[connection := encode_own_msg z (fs_commands s ! connection)]\<rparr>
      in register_send_action_imp connection s)"

text \<open>The actions run in parallel, each sending its command's buffer as one datagram; the queue
  is moved out. No order of the datagrams is promised.\<close>

definition launch_send_actions :: "'e FecCommandSocket \<Rightarrow> ('e \<times> bytes) list \<times> 'e FecCommandSocket" where
  "launch_send_actions s =
     (map (\<lambda>c. (cb_remote_endpoint (fs_commands s ! c), cb_write_msg_buffer (fs_commands s ! c))) (action_queue s),
      s\<lparr>action_queue := []\<rparr>)"

definition deregister_connection :: "'e CommandBase list \<Rightarrow> bytes \<Rightarrow> nat list \<Rightarrow> nat list" where
  "deregister_connection commands response connections =
     (if connections = [] then connections
      else snd (remove_once_if (\<lambda>c. \<not> check_response (commands ! c) response) connections))"

definition response_handler :: "'e \<Rightarrow> nat \<Rightarrow> 'e FecCommandSocket \<Rightarrow> 'e FecCommandSocket" where
  "response_handler endpoint read_size s =
     (let response = take read_size (read_msg_buffer s)
      in case map_of (all_connections s) endpoint of
           None \<Rightarrow> s
         | Some connections \<Rightarrow> s\<lparr>all_connections :=
             AList.update endpoint (deregister_connection (fs_commands s) response connections) (all_connections s)\<rparr>)"

definition is_finished :: "'e FecCommandSocket \<Rightarrow> bool" where
  "is_finished s \<longleftrightarrow> list_all (\<lambda>(_, connections). connections = []) (all_connections s)"

text \<open>One round of the listening coroutine. A datagram longer than the buffer is cut off. An
  error ends the loop and closes the socket.\<close>

definition listen_received :: "'e \<Rightarrow> bytes \<Rightarrow> 'e FecCommandSocket \<Rightarrow> 'e FecCommandSocket" where
  "listen_received remote_endpoint packet s =
     (let got = take (length (read_msg_buffer s)) packet;
          receive_size = length got;
          s = s\<lparr>read_msg_buffer := got @ drop receive_size (read_msg_buffer s)\<rparr>;
          s = response_handler remote_endpoint receive_size s;
          s = s\<lparr>n_records := n_records s + 1\<rparr>
      in s\<lparr>n_bytes := n_bytes s + receive_size\<rparr>)"

definition listen_error :: "'e FecCommandSocket \<Rightarrow> 'e FecCommandSocket" where
  "listen_error s = s\<lparr>fs_is_open := False\<rparr>"

section \<open>Switching the FECs\<close>

text \<open>The body of the loop over the endpoints, and the state when the waiting is set up.\<close>

definition switch_one ::
  "zpp_bits \<Rightarrow> command_class \<Rightarrow> string \<Rightarrow> 'e \<Rightarrow> 'e \<Rightarrow> 'e FecCommandSocket \<Rightarrow> 'e FecCommandSocket" where
  "switch_one z cl connection_name no_endpoint remote_endpoint s =
     (let fec_connection = mk_command z cl connection_name no_endpoint;
          fec_connection = fec_connection\<lparr>cb_remote_endpoint := remote_endpoint\<rparr>;
          s = s\<lparr>fs_commands := fs_commands s @ [fec_connection]\<rparr>
      in send_message_from z (length (fs_commands s) - 1) s)"

definition switch_FECs ::
  "zpp_bits \<Rightarrow> command_class \<Rightarrow> string \<Rightarrow> 'e \<Rightarrow> 'e list \<Rightarrow> 'e FecCommandSocket \<Rightarrow> 'e FecCommandSocket" where
  "switch_FECs z cl connection_name no_endpoint remote_fec_endpoints s =
     fold (switch_one z cl connection_name no_endpoint) remote_fec_endpoints s"

text \<open>The coroutine of \<^verbatim>\<open>cancel_listen_after\<close> (it remembers whether the socket was finished
  when it started; \<open>Wt_done\<close> holds whether the error was printed) and the coroutine that waits
  on the cancel timer. Cancelling a timer only wakes a coroutine that already waits on it.\<close>

datatype waiter = Wt_start | Wt_timer bool | Wt_cancelled bool | Wt_done bool

datatype canceller = Cc_start | Cc_waiting | Cc_woken

record 'e switching =
  sw_socket :: "'e FecCommandSocket"
  sw_waiter :: waiter
  sw_canceller :: canceller
  sw_received :: "('e \<times> bytes) list"

inductive sw_step :: "'e switching \<Rightarrow> 'e switching \<Rightarrow> bool" where
  sw_receive: "fs_is_open (sw_socket s) \<Longrightarrow> sw_step s (s\<lparr>sw_socket := listen_received e packet (sw_socket s),
      sw_received := (e, packet) # sw_received s\<rparr>)"
| sw_receive_error: "fs_is_open (sw_socket s) \<Longrightarrow> sw_step s (s\<lparr>sw_socket := listen_error (sw_socket s)\<rparr>)"
| sw_cancelled: "fs_is_open (sw_socket s) \<Longrightarrow> sw_canceller s = Cc_woken \<Longrightarrow>
    sw_step s (s\<lparr>sw_socket := listen_error (sw_socket s)\<rparr>)"
| sw_wait_cancel: "sw_canceller s = Cc_start \<Longrightarrow> sw_step s (s\<lparr>sw_canceller := Cc_waiting\<rparr>)"
| sw_wait_start: "sw_waiter s = Wt_start \<Longrightarrow>
    sw_step s (s\<lparr>sw_waiter := Wt_timer (is_finished (sw_socket s))\<rparr>)"
| sw_timer: "sw_waiter s = Wt_timer f \<Longrightarrow> sw_step s (s\<lparr>sw_waiter := Wt_cancelled f,
      sw_canceller := (if sw_canceller s = Cc_waiting then Cc_woken else sw_canceller s)\<rparr>)"
| sw_report: "sw_waiter s = Wt_cancelled f \<Longrightarrow>
    sw_step s (s\<lparr>sw_waiter := Wt_done (\<not> f \<and> \<not> is_finished (sw_socket s))\<rparr>)"

definition sw_start :: "'e FecCommandSocket \<Rightarrow> 'e switching" where
  "sw_start s = \<lparr>sw_socket = s, sw_waiter = Wt_start, sw_canceller = Cc_start, sw_received = []\<rparr>"

section \<open>Removing a connection\<close>

lemma remove_once_if_none: "list_all p xs \<Longrightarrow> remove_once_if p xs = (False, xs)"
proof -
  assume "list_all p xs"
  then have "length (takeWhile p xs) = length xs" by (metis list_all_iff takeWhile_eq_all_conv)
  then show ?thesis by (simp add: remove_once_if_def)
qed

lemma swap_pop_mset:
  assumes "i < length xs"
  shows "mset (butlast (xs[i := last xs, length xs - 1 := xs ! i])) = mset xs - {#xs ! i#}"
proof -
  let ?ys = "xs[i := last xs, length xs - 1 := xs ! i]"
  have ne: "xs \<noteq> []" using assms by auto
  then have l: "last xs = xs ! (length xs - 1)" by (rule last_conv_nth)
  have m: "mset ?ys = mset xs" using assms ne unfolding l by (intro mset_swap) auto
  have "last ?ys = xs ! i" using ne by (simp add: last_conv_nth)
  moreover have "?ys \<noteq> []" using ne by simp
  ultimately have "?ys = butlast ?ys @ [xs ! i]" by (metis append_butlast_last_id)
  then have "mset ?ys = add_mset (xs ! i) (mset (butlast ?ys))"
    by (metis mset_append mset.simps add_mset_add_single)
  then show ?thesis unfolding m by (metis add_mset_remove_trivial)
qed

lemma remove_once_if_some:
  assumes "\<not> list_all p xs"
  shows "\<exists>x \<in> set xs. \<not> p x \<and> fst (remove_once_if p xs) \<and>
    mset (snd (remove_once_if p xs)) = mset xs - {#x#}"
proof -
  let ?i = "length (takeWhile p xs)"
  have "takeWhile p xs \<noteq> xs" using assms by (metis list_all_iff takeWhile_eq_all_conv)
  then have i: "?i < length xs"
    by (metis length_takeWhile_le linorder_le_less_linear order_antisym takeWhile_eq_take take_all)
  then have "\<not> p (xs ! ?i)" by (rule nth_length_takeWhile)
  then show ?thesis using i swap_pop_mset [OF i]
    by (intro bexI [of _ "xs ! ?i"]) (auto simp: remove_once_if_def Let_def)
qed

lemma take_min_length: "take (min (length p) n) p = take n p"
  by (simp add: min_def)

section \<open>The commands that wait\<close>

definition waiting :: "'e FecCommandSocket \<Rightarrow> 'e \<Rightarrow> nat list" where
  "waiting s e = (case map_of (all_connections s) e of None \<Rightarrow> [] | Some cs \<Rightarrow> cs)"

definition connections_ok :: "'e FecCommandSocket \<Rightarrow> bool" where
  "connections_ok s \<longleftrightarrow> distinct (map fst (all_connections s))"

lemma is_finished_waiting:
  "connections_ok s \<Longrightarrow> is_finished s \<longleftrightarrow> (\<forall>e. waiting s e = [])"
  by (force simp: connections_ok_def is_finished_def list_all_iff waiting_def split: option.splits
      dest: map_of_SomeD)

lemma deregister_connection_cases:
  obtains "\<forall>c \<in> set cs. \<not> check_response (cmds ! c) r" "deregister_connection cmds r cs = cs"
  | c where "c \<in> set cs" "check_response (cmds ! c) r"
      "mset (deregister_connection cmds r cs) = mset cs - {#c#}"
proof (cases "\<exists>c \<in> set cs. check_response (cmds ! c) r")
  case True
  then have "\<not> list_all (\<lambda>c. \<not> check_response (cmds ! c) r) cs" "cs \<noteq> []"
    by (auto simp: list_all_iff)
  then show ?thesis using remove_once_if_some [of "\<lambda>c. \<not> check_response (cmds ! c) r" cs] that(2)
    by (auto simp: deregister_connection_def)
next
  case False
  then show ?thesis using remove_once_if_none [of "\<lambda>c. \<not> check_response (cmds ! c) r" cs] that(1)
    by (auto simp: deregister_connection_def list_all_iff)
qed

lemma map_of_update: "map_of (AList.update k v m) k' = (if k' = k then Some v else map_of m k')"
  by (simp add: update_conv')

definition received_part :: "'e FecCommandSocket \<Rightarrow> bytes \<Rightarrow> bytes" where
  "received_part s packet = take (length (read_msg_buffer s)) packet"

lemma listen_received_fields [simp]:
  "fs_commands (listen_received e p s) = fs_commands s"
  "n_records (listen_received e p s) = n_records s + 1"
  "n_bytes (listen_received e p s) = n_bytes s + length (received_part s p)"
  "length (read_msg_buffer (listen_received e p s)) = length (read_msg_buffer s)"
  "fs_is_open (listen_received e p s) = fs_is_open s"
  "action_queue (listen_received e p s) = action_queue s"
  by (auto simp: listen_received_def response_handler_def received_part_def Let_def min_def split: option.splits)

lemma listen_received_waiting:
  "waiting (listen_received e p s) e' = (if e' = e
     then deregister_connection (fs_commands s) (received_part s p) (waiting s e) else waiting s e')"
  by (auto simp: listen_received_def response_handler_def received_part_def waiting_def Let_def map_of_update
      deregister_connection_def take_min_length split: option.splits)

lemma listen_received_ok: "connections_ok s \<Longrightarrow> connections_ok (listen_received e p s)"
  by (auto simp: listen_received_def response_handler_def connections_ok_def Let_def distinct_update
      split: option.splits)

lemma listen_received_known:
  "fst ` set (all_connections (listen_received e p s)) = fst ` set (all_connections s)"
proof (cases "map_of (all_connections s) e")
  case None
  then show ?thesis by (simp add: listen_received_def response_handler_def Let_def)
next
  case (Some cs)
  then have "e \<in> fst ` set (all_connections s)" by (force dest: map_of_SomeD)
  with Some show ?thesis by (auto simp: listen_received_def response_handler_def Let_def dom_update)
qed

section \<open>Registering\<close>

lemma register_waiting:
  assumes "connections_ok s"
  shows "waiting (register_send_action_imp c s) e' =
      waiting s e' @ (if e' = cb_remote_endpoint (fs_commands s ! c) then [c] else [])"
    and "connections_ok (register_send_action_imp c s)"
    and "action_queue (register_send_action_imp c s) = action_queue s @ [c]"
    and "fs_commands (register_send_action_imp c s) = fs_commands s"
    and "read_msg_buffer (register_send_action_imp c s) = read_msg_buffer s"
    and "n_records (register_send_action_imp c s) = n_records s"
    and "n_bytes (register_send_action_imp c s) = n_bytes s"
proof -
  let ?e = "cb_remote_endpoint (fs_commands s ! c)" let ?m = "try_emplace ?e (all_connections s)"
  have m: "map_of ?m e' = (if e' = ?e then Some (waiting s e') else map_of (all_connections s) e')" for e'
    by (cases "map_of (all_connections s) ?e") (simp_all add: try_emplace_def map_of_update waiting_def)
  have d: "distinct (map fst ?m)"
    using assms by (cases "map_of (all_connections s) ?e")
      (simp_all add: try_emplace_def distinct_update connections_ok_def)
  have eq: "all_connections (register_send_action_imp c s) = AList.update ?e (waiting s ?e @ [c]) ?m"
    by (simp add: register_send_action_imp_def Let_def m)
  show "waiting (register_send_action_imp c s) e' = waiting s e' @ (if e' = ?e then [c] else [])"
    by (simp add: waiting_def [of "register_send_action_imp c s"] eq map_of_update m)
      (simp add: waiting_def)
  show "connections_ok (register_send_action_imp c s)"
    using d by (simp add: connections_ok_def eq distinct_update)
qed (simp_all add: register_send_action_imp_def Let_def)

lemma switch_one_fields:
  assumes "connections_ok s"
  shows "fs_commands (switch_one z cl name ne e s) =
      fs_commands s @ [encode_own_msg z ((mk_command z cl name ne)\<lparr>cb_remote_endpoint := e\<rparr>)]"
    and "waiting (switch_one z cl name ne e s) e' =
      waiting s e' @ (if e' = e then [length (fs_commands s)] else [])"
    and "connections_ok (switch_one z cl name ne e s)"
    and "action_queue (switch_one z cl name ne e s) = action_queue s @ [length (fs_commands s)]"
    and "read_msg_buffer (switch_one z cl name ne e s) = read_msg_buffer s"
    and "n_records (switch_one z cl name ne e s) = n_records s"
    and "n_bytes (switch_one z cl name ne e s) = n_bytes s"
proof -
  let ?c = "(mk_command z cl name ne)\<lparr>cb_remote_endpoint := e\<rparr>"
  define s' where "s' = s\<lparr>fs_commands := (fs_commands s @ [?c])[length (fs_commands s) := encode_own_msg z ?c]\<rparr>"
  have eq: "switch_one z cl name ne e s = register_send_action_imp (length (fs_commands s)) s'"
    by (simp add: switch_one_def send_message_from_def s'_def Let_def)
  have s': "connections_ok s'" "fs_commands s' = fs_commands s @ [encode_own_msg z ?c]"
    "waiting s' = waiting s" "action_queue s' = action_queue s" "read_msg_buffer s' = read_msg_buffer s"
    "n_records s' = n_records s" "n_bytes s' = n_bytes s"
    using assms by (auto simp: s'_def connections_ok_def waiting_def fun_eq_iff)
  note r = register_waiting [OF s'(1), of "length (fs_commands s)"]
  show "fs_commands (switch_one z cl name ne e s) = fs_commands s @ [encode_own_msg z ?c]"
    "connections_ok (switch_one z cl name ne e s)"
    "action_queue (switch_one z cl name ne e s) = action_queue s @ [length (fs_commands s)]"
    "read_msg_buffer (switch_one z cl name ne e s) = read_msg_buffer s"
    "n_records (switch_one z cl name ne e s) = n_records s"
    "n_bytes (switch_one z cl name ne e s) = n_bytes s"
    "waiting (switch_one z cl name ne e s) e' = waiting s e' @ (if e' = e then [length (fs_commands s)] else [])"
    using r s' by (simp_all add: eq)
qed

section \<open>The invariant of a switching\<close>

text \<open>\<open>eps\<close>: the endpoints the commands went to; \<open>rs\<close>: what was received so far.\<close>

definition fs_inv :: "command_class \<Rightarrow> 'e list \<Rightarrow> ('e \<times> bytes) list \<Rightarrow> 'e FecCommandSocket \<Rightarrow> bool" where
  "fs_inv cl eps rs s \<longleftrightarrow> connections_ok s \<and> length (read_msg_buffer s) = SMALL_READ_MSG_BUFFER_SIZE \<and>
     (\<forall>c < length (fs_commands s). \<forall>r. check_response (fs_commands s ! c) r \<longleftrightarrow> r = response_bytes cl) \<and>
     (\<forall>e. length (waiting s e) = count_list eps e - count_list rs (e, response_bytes cl)) \<and>
     (\<forall>e. \<forall>c \<in> set (waiting s e). c < length (fs_commands s)) \<and>
     n_records s = length rs \<and>
     n_bytes s = sum_list (map (\<lambda>(e, p). min (length p) SMALL_READ_MSG_BUFFER_SIZE) rs)"

lemma fs_inv_start: "fs_inv cl [] [] mk_FecCommandSocket"
  by (simp add: fs_inv_def mk_FecCommandSocket_def connections_ok_def waiting_def)

lemma fs_inv_switch_one:
  assumes "zpp_documented z" "fs_inv cl eps [] s"
  shows "fs_inv cl (eps @ [e]) [] (switch_one z cl name ne e s)"
proof -
  have ok: "connections_ok s" using assms(2) by (simp add: fs_inv_def)
  note f = switch_one_fields [OF ok, of z cl name ne e]
  show ?thesis using assms(2)
    by (auto simp: fs_inv_def f nth_append check_response_mk [OF assms(1)] less_Suc_eq)
qed

lemma fs_inv_switch_FECs:
  assumes "zpp_documented z"
  shows "fs_inv cl eps [] s \<Longrightarrow> fs_inv cl (eps @ es) [] (switch_FECs z cl name ne es s)"
proof (induction es arbitrary: eps s)
  case (Cons e es)
  then show ?case
    using Cons.IH [OF fs_inv_switch_one [OF assms Cons.prems, of e name ne]]
    by (simp add: switch_FECs_def)
qed (simp add: switch_FECs_def)

lemma received_part_response:
  "length (read_msg_buffer s) = SMALL_READ_MSG_BUFFER_SIZE \<Longrightarrow>
     received_part s p = response_bytes cl \<longleftrightarrow> p = response_bytes cl"
proof -
  assume l: "length (read_msg_buffer s) = SMALL_READ_MSG_BUFFER_SIZE"
  have r: "length (response_bytes cl) = 24" by (simp add: response_bytes_def)
  show ?thesis
  proof
    assume "received_part s p = response_bytes cl"
    then have "take 96 p = response_bytes cl"
      using l by (simp add: received_part_def SMALL_READ_MSG_BUFFER_SIZE_def)
    moreover have "length p \<le> 96"
      using arg_cong [OF calculation, of length] r by simp
    ultimately show "p = response_bytes cl" by simp
  next
    assume "p = response_bytes cl"
    then show "received_part s p = response_bytes cl"
      using l r by (simp add: received_part_def SMALL_READ_MSG_BUFFER_SIZE_def)
  qed
qed

lemma fs_inv_received:
  assumes "fs_inv cl eps rs s"
  shows "fs_inv cl eps ((e, p) # rs) (listen_received e p s)"
proof -
  let ?r = "received_part s p" let ?cs = "waiting s e" let ?ds = "deregister_connection (fs_commands s) ?r ?cs"
  have l: "length (read_msg_buffer s) = SMALL_READ_MSG_BUFFER_SIZE" and ok: "connections_ok s"
    and cr: "\<And>c. c \<in> set ?cs \<Longrightarrow> check_response (fs_commands s ! c) ?r \<longleftrightarrow> p = response_bytes cl"
    using assms received_part_response [of s p cl] by (auto simp: fs_inv_def)
  have ds: "length ?ds = length ?cs - (if p = response_bytes cl then 1 else 0) \<and> set ?ds \<subseteq> set ?cs"
  proof (cases rule: deregister_connection_cases [of ?cs "fs_commands s" ?r])
    case 1
    then have "p = response_bytes cl \<Longrightarrow> ?cs = []" using cr by (cases ?cs) auto
    with 1(2) show ?thesis by auto
  next
    case (2 c)
    have "size (mset ?ds) = length ?cs - 1"
      unfolding 2(3) using 2(1) by (simp add: size_Diff_singleton)
    moreover have "set_mset (mset ?ds) \<subseteq> set ?cs"
      unfolding 2(3) by (auto dest: in_diffD)
    ultimately show ?thesis using 2(1,2) cr by simp
  qed
  have "length (received_part s p) = min (length p) SMALL_READ_MSG_BUFFER_SIZE"
    using l by (simp add: received_part_def min.commute)
  with assms ds show ?thesis
    using listen_received_ok [OF ok, of e p]
    by (auto simp: fs_inv_def listen_received_waiting)
qed

definition sw_inv :: "command_class \<Rightarrow> 'e list \<Rightarrow> 'e switching \<Rightarrow> bool" where
  "sw_inv cl eps s \<longleftrightarrow> fs_inv cl eps (sw_received s) (sw_socket s) \<and>
     (sw_waiter s \<in> {Wt_timer True, Wt_cancelled True, Wt_done False} \<longrightarrow> is_finished (sw_socket s))"

lemma fs_inv_finished:
  assumes "fs_inv cl eps rs s"
  shows "is_finished s \<longleftrightarrow> (\<forall>e \<in> set eps. count_list eps e \<le> count_list rs (e, response_bytes cl))"
proof -
  have w: "waiting s e = [] \<longleftrightarrow> count_list eps e \<le> count_list rs (e, response_bytes cl)" for e
  proof -
    have "waiting s e = [] \<longleftrightarrow> length (waiting s e) = 0" by simp
    also have "\<dots> \<longleftrightarrow> count_list eps e - count_list rs (e, response_bytes cl) = 0"
      using assms unfolding fs_inv_def by metis
    finally show ?thesis by simp
  qed
  have "count_list eps e \<le> count_list rs (e, response_bytes cl)" if "e \<notin> set eps" for e
    using that by (simp add: count_list_0_iff)
  moreover have "is_finished s \<longleftrightarrow> (\<forall>e. waiting s e = [])"
    using assms by (intro is_finished_waiting) (simp add: fs_inv_def)
  ultimately show ?thesis unfolding w by blast
qed

lemma finished_received:
  "fs_inv cl eps rs s \<Longrightarrow> is_finished s \<Longrightarrow> is_finished (listen_received e p s)"
proof -
  assume inv: "fs_inv cl eps rs s" and fin: "is_finished s"
  have "waiting (listen_received e p s) e' = []" for e'
    using inv fin by (simp add: is_finished_waiting fs_inv_def listen_received_waiting deregister_connection_def)
  then show ?thesis
    using fs_inv_received [OF inv, of e p] by (simp add: is_finished_waiting fs_inv_def)
qed

lemma listen_error_simps [simp]:
  "fs_inv cl eps rs (listen_error s) = fs_inv cl eps rs s"
  "is_finished (listen_error s) = is_finished s"
  by (simp_all add: fs_inv_def listen_error_def connections_ok_def waiting_def is_finished_def)

lemma sw_inv_step: "sw_inv cl eps s \<Longrightarrow> sw_step s t \<Longrightarrow> sw_inv cl eps t"
proof (erule sw_step.cases, goal_cases)
  case (1 s e packet)
  then show ?case by (auto simp: sw_inv_def fs_inv_received intro: finished_received)
qed (simp_all add: sw_inv_def split: if_splits)

lemma sw_inv_start: "fs_inv cl eps [] x \<Longrightarrow> sw_inv cl eps (sw_start x)"
  by (simp add: sw_inv_def sw_start_def)

interpretation sw: invariant_system
  "\<lambda>s. \<exists>x. s = sw_start x \<and> fs_inv cl eps [] x" sw_step "sw_inv cl eps" for cl eps
  by unfold_locales (auto simp: sw_inv_start intro: sw_inv_step)

lemma sw_inv_steps:
  "zpp_documented z \<Longrightarrow>
     steps sw_step (sw_start (switch_FECs z cl name ne eps mk_FecCommandSocket)) s \<Longrightarrow> sw_inv cl eps s"
  using sw.inv_steps [of _ s cl eps] fs_inv_switch_FECs [OF _ fs_inv_start, of z cl eps name ne]
  by (simp add: sw_inv_start)

lemma done_not_woken:
  "steps sw_step s t \<Longrightarrow> (\<exists>err. sw_waiter s = Wt_done err) \<and> sw_canceller s \<noteq> Cc_woken \<Longrightarrow>
     sw_canceller t \<noteq> Cc_woken"
proof (induction rule: steps.induct)
  case (steps_step s u v)
  from steps_step.hyps(1) steps_step.prems
  have "(\<exists>err. sw_waiter u = Wt_done err) \<and> sw_canceller u \<noteq> Cc_woken"
    by (induction rule: sw_step.induct) auto
  then show ?case by (rule steps_step.IH)
qed simp

lemma fst_launch_switch:
  assumes "zpp_documented z"
  shows "fst (launch_send_actions (switch_FECs z cl name ne eps mk_FecCommandSocket)) =
      map (\<lambda>e. (e, message_bytes cl)) eps"
proof -
  have "connections_ok s \<Longrightarrow> (\<forall>c \<in> set (action_queue s). c < length (fs_commands s)) \<Longrightarrow>
      fst (launch_send_actions (switch_FECs z cl name ne es s)) =
        fst (launch_send_actions s) @ map (\<lambda>e. (e, message_bytes cl)) es" for s es
  proof (induction es arbitrary: s)
    case (Cons e es)
    note f = switch_one_fields [OF Cons.prems(1), of z cl name ne e]
    have one: "fst (launch_send_actions (switch_one z cl name ne e s)) =
        fst (launch_send_actions s) @ [(e, message_bytes cl)]"
      using Cons.prems(2) message_encoded [OF assms, of "[]" cl]
      by (auto simp: launch_send_actions_def f nth_append encode_own_msg_def)
    show ?case
      using Cons.IH [of "switch_one z cl name ne e s"] Cons.prems(2) one
      by (force simp: f switch_FECs_def)
  qed (simp add: switch_FECs_def)
  from this [of mk_FecCommandSocket eps] show ?thesis
    by (simp add: connections_ok_def mk_FecCommandSocket_def launch_send_actions_def)
qed

section \<open>Properties\<close>

text \<open>
  C20. Switching sends every FEC endpoint, in the order given and as often as it is listed, one
  datagram with the 24-byte command of the class, leaves nothing queued, and waits for as many
  responses from an endpoint as it was sent commands.\<close>

theorem switch_datagrams:
  assumes "zpp_documented z"
  shows "fst (launch_send_actions (switch_FECs z cl name ne eps mk_FecCommandSocket)) =
      map (\<lambda>e. (e, message_bytes cl)) eps \<and>
    action_queue (snd (launch_send_actions (switch_FECs z cl name ne eps mk_FecCommandSocket))) = [] \<and>
    length (waiting (switch_FECs z cl name ne eps mk_FecCommandSocket) e) = count_list eps e"
  using fst_launch_switch [OF assms, of cl name ne eps] fs_inv_switch_FECs [OF assms fs_inv_start, of cl eps name ne]
  by (auto simp: fs_inv_def launch_send_actions_def)

text \<open>
  C6. Which responses count: in every interleaving of arriving datagrams, receive errors,
  waiting and cancelling, the socket counts itself finished exactly when from every endpoint at
  least as many correct responses have arrived as commands were sent to it; wrong responses,
  responses of other endpoints and surplus ones change nothing. Every datagram is counted.\<close>

theorem switch_finished_iff:
  assumes "zpp_documented z"
    "steps sw_step (sw_start (switch_FECs z cl name ne eps mk_FecCommandSocket)) s"
  shows "(is_finished (sw_socket s) \<longleftrightarrow>
      (\<forall>e \<in> set eps. count_list eps e \<le> count_list (sw_received s) (e, response_bytes cl))) \<and>
    length (waiting (sw_socket s) e) = count_list eps e - count_list (sw_received s) (e, response_bytes cl) \<and>
    n_records (sw_socket s) = length (sw_received s) \<and>
    n_bytes (sw_socket s) = sum_list (map (\<lambda>(_, p). min (length p) 96) (sw_received s))"
proof -
  have "fs_inv cl eps (sw_received s) (sw_socket s)"
    using sw_inv_steps [OF assms] by (simp add: sw_inv_def)
  then show ?thesis by (simp add: fs_inv_finished fs_inv_def SMALL_READ_MSG_BUFFER_SIZE_def case_prod_beta)
qed

text \<open>
  The TIMEOUT error is exact: when the waiting ends without printing it, every command has
  been answered, and once every command has been answered it is never printed, whatever still
  arrives.\<close>

theorem switch_timeout_exact:
  assumes "zpp_documented z"
    "steps sw_step (sw_start (switch_FECs z cl name ne eps mk_FecCommandSocket)) s"
    "steps sw_step s t"
  shows "(sw_waiter s = Wt_done False \<longrightarrow> is_finished (sw_socket s)) \<and>
    (is_finished (sw_socket s) \<and> sw_waiter s \<noteq> Wt_done True \<longrightarrow>
       is_finished (sw_socket t) \<and> sw_waiter t \<noteq> Wt_done True)"
proof -
  have inv: "sw_inv cl eps s" by (rule sw_inv_steps [OF assms(1,2)])
  have keep: "is_finished (sw_socket u) \<and> sw_waiter u \<noteq> Wt_done True"
    if "sw_step x u" "sw_inv cl eps x" "is_finished (sw_socket x)" "sw_waiter x \<noteq> Wt_done True" for x u
    using that by (induction rule: sw_step.induct) (auto simp: sw_inv_def intro: finished_received)
  have "is_finished (sw_socket t) \<and> sw_waiter t \<noteq> Wt_done True"
    if "is_finished (sw_socket s)" "sw_waiter s \<noteq> Wt_done True"
    using assms(3) inv that
  proof (induction rule: steps.induct)
    case (steps_step s u v)
    then show ?case using keep sw_inv_step by blast
  qed simp
  then show ?thesis using inv by (auto simp: sw_inv_def)
qed

text \<open>
  The cancellation can be lost: when the waiting coroutine runs to its end before the
  listening coroutine waits on the cancel timer (which can happen whatever the endpoints), the
  socket is still open and no later step of any kind will cancel it; only a receive error could
  close it.\<close>

theorem cancel_can_be_lost:
  "\<exists>s. steps sw_step (sw_start (switch_FECs z cl name ne eps mk_FecCommandSocket)) s \<and>
    (\<exists>err. sw_waiter s = Wt_done err) \<and> fs_is_open (sw_socket s) \<and>
    (\<forall>t. steps sw_step s t \<longrightarrow> sw_canceller t \<noteq> Cc_woken)"
proof -
  let ?x = "switch_FECs z cl name ne eps mk_FecCommandSocket"
  have open_start: "fs_is_open s \<Longrightarrow> fs_is_open (switch_FECs z cl name ne es s)" for s es
    by (induction es arbitrary: s)
      (simp_all add: switch_FECs_def switch_one_def send_message_from_def register_send_action_imp_def Let_def)
  let ?s0 = "sw_start ?x"
  define s1 where "s1 = ?s0\<lparr>sw_waiter := Wt_timer (is_finished ?x)\<rparr>"
  define s2 where "s2 = s1\<lparr>sw_waiter := Wt_cancelled (is_finished ?x), sw_canceller := Cc_start\<rparr>"
  define s3 where "s3 = s2\<lparr>sw_waiter := Wt_done (\<not> is_finished ?x \<and> \<not> is_finished ?x)\<rparr>"
  have "sw_step ?s0 s1" using sw_wait_start [of ?s0] by (simp add: s1_def sw_start_def)
  moreover have "sw_step s1 s2" using sw_timer [of s1] by (simp add: s1_def s2_def sw_start_def)
  moreover have "sw_step s2 s3" using sw_report [of s2 "is_finished ?x"]
    by (simp add: s1_def s2_def s3_def sw_start_def)
  ultimately have "steps sw_step ?s0 s3" by (blast intro: steps_step steps_refl)
  moreover have "(\<exists>err. sw_waiter s3 = Wt_done err) \<and> sw_canceller s3 \<noteq> Cc_woken" "fs_is_open (sw_socket s3)"
    using open_start [of mk_FecCommandSocket eps]
    by (simp_all add: s1_def s2_def s3_def sw_start_def mk_FecCommandSocket_def)
  ultimately show ?thesis using done_not_woken by blast
qed

text \<open>Concrete runs.\<close>

definition sample_switch :: "nat FecCommandSocket" where
  "sample_switch = switch_FECs zpp_ref Starter ''Starter'' 0 [1, 2] mk_FecCommandSocket"

lemma sample_switch_open: "fs_is_open sample_switch"
  by (simp add: sample_switch_def switch_FECs_def switch_one_def send_message_from_def
      register_send_action_imp_def mk_FecCommandSocket_def Let_def)

lemma sample_switch_steps:
  "steps sw_step (sw_start sample_switch) ((sw_start sample_switch)
     \<lparr>sw_socket := listen_received 1 (response_bytes Starter) sample_switch,
      sw_received := [(1, response_bytes Starter)]\<rparr>)"
  using sw_receive [of "sw_start sample_switch" 1 "response_bytes Starter"]
  by (intro steps_one) (simp add: sw_start_def sample_switch_open)

lemma switch_datagrams_witness:
  "fst (launch_send_actions (switch_FECs zpp_ref Stopper ''Stopper'' (0 :: nat) [7, 9, 7] mk_FecCommandSocket)) =
     [(7, message_bytes Stopper), (9, message_bytes Stopper), (7, message_bytes Stopper)]"
  using switch_datagrams [OF zpp_ref_documented, of Stopper "''Stopper''" "0 :: nat" "[7, 9, 7]"] by simp

lemma switch_finished_iff_witness:
  "\<not> is_finished (listen_received 1 (response_bytes Starter) sample_switch) \<and>
   waiting (listen_received 1 (response_bytes Starter) sample_switch) 1 = [] \<and>
   length (waiting (listen_received 1 (response_bytes Starter) sample_switch) 2) = 1"
  using switch_finished_iff [OF zpp_ref_documented sample_switch_steps [unfolded sample_switch_def], of 1]
    switch_finished_iff [OF zpp_ref_documented sample_switch_steps [unfolded sample_switch_def], of 2]
  by (simp add: sample_switch_def)

lemma switch_timeout_exact_witness:
  "is_finished (listen_received 5 [1] (switch_FECs zpp_ref Starter ''Starter'' (0 :: nat) [] mk_FecCommandSocket))"
proof -
  let ?x = "switch_FECs zpp_ref Starter ''Starter'' (0 :: nat) [] mk_FecCommandSocket"
  have "steps sw_step (sw_start ?x) ((sw_start ?x)
      \<lparr>sw_socket := listen_received 5 [1] ?x, sw_received := [(5, [1])]\<rparr>)"
    using sw_receive [of "sw_start ?x" 5 "[1]"]
    by (intro steps_one) (simp add: sw_start_def switch_FECs_def mk_FecCommandSocket_def)
  from switch_timeout_exact [OF zpp_ref_documented steps_refl this]
  show ?thesis by (auto simp: sw_start_def is_finished_def switch_FECs_def mk_FecCommandSocket_def)
qed

lemma cancel_can_be_lost_witness:
  "\<exists>s. steps sw_step (sw_start sample_switch) s \<and> (\<exists>err. sw_waiter s = Wt_done err) \<and>
     fs_is_open (sw_socket s) \<and> sw_canceller s \<noteq> Cc_woken"
proof -
  obtain s where s: "steps sw_step (sw_start sample_switch) s" "\<exists>err. sw_waiter s = Wt_done err"
      "fs_is_open (sw_socket s)" "\<forall>t. steps sw_step s t \<longrightarrow> sw_canceller t \<noteq> Cc_woken"
    using cancel_can_be_lost [of zpp_ref Starter "''Starter''" "0 :: nat" "[1, 2]", folded sample_switch_def]
    by auto
  from s(4) steps_refl [of sw_step s] have "sw_canceller s \<noteq> Cc_woken" by simp
  with s(1-3) show ?thesis by (intro exI [of _ s]) simp
qed

end
