(* ===== verification/Fec_Emulator.thy ===== *)
theory Fec_Emulator
  imports Sink_Manager Fec_Socket
begin

text \<open>
  The emulated FECs of \<^verbatim>\<open>backend/srs/emulators\<close>: \<^verbatim>\<open>Randomizer\<close> fills structures,
  \<^verbatim>\<open>FECEmulator\<close> answers commands and sends frames, and \<^verbatim>\<open>World\<close> holds the emulators
  and the frame counter they share. Random draws, the clock and the order in which datagrams
  and coroutines are served are arguments. The listening coroutine and the coroutines that send
  data run concurrently and form a step relation; one round between two suspensions is one
  step. Several coroutines of one emulator send when it is switched on more than once: they share
  the timer, so one may abort the wait of another, and they share the serialiser, the structure
  and the counter without a lock on a pool of threads. Rounds that overlap are a data race, which
  has no defined outcome; here the rounds of one emulator do not overlap.
\<close>

section \<open>Random structures\<close>

record MinMax =
  mm_min :: nat
  mm_max :: nat

text \<open>\<^verbatim>\<open>std::uniform_int_distribution\<close> over a generator of type \<open>'g\<close>: a draw lies between
  the bounds.\<close>

record 'g rng =
  rng_uniform :: "nat \<Rightarrow> nat \<Rightarrow> 'g \<Rightarrow> nat \<times> 'g"

definition rng_documented :: "'g rng \<Rightarrow> bool" where
  "rng_documented r \<longleftrightarrow> (\<forall>lo hi g. lo \<le> hi \<longrightarrow>
     lo \<le> fst (rng_uniform r lo hi g) \<and> fst (rng_uniform r lo hi g) \<le> hi)"

definition rng_ref :: "nat rng" where
  "rng_ref = \<lparr>rng_uniform = (\<lambda>lo hi g. (lo + g mod (Suc hi - lo), g + 1))\<rparr>"

lemma rng_ref_documented [simp]: "rng_documented rng_ref"
proof -
  have "lo + g mod (Suc hi - lo) \<le> hi" if "lo \<le> hi" for lo hi g :: nat
  proof -
    have "g mod (Suc hi - lo) < Suc hi - lo" using that by simp
    then show ?thesis by linarith
  qed
  then show ?thesis by (simp add: rng_documented_def rng_ref_def)
qed

definition CHANNEL_NUM_BIT_MAX :: nat where "CHANNEL_NUM_BIT_MAX = 2 ^ CHANNEL_NUM_BIT_LENGTH - 1"
definition TDC_BIT_MAX :: nat where "TDC_BIT_MAX = 2 ^ TDC_BIT_LENGTH - 1"
definition OFFSET_BIT_MAX :: nat where "OFFSET_BIT_MAX = 2 ^ OFFSET_BIT_LENGTH - 1"
definition VMM_ID_BIT_MAX :: nat where "VMM_ID_BIT_MAX = 2 ^ VMM_ID_BIT_LENGTH - 1"
definition ADC_BIT_MAX :: nat where "ADC_BIT_MAX = 2 ^ ADC_BIT_LENGTH - 1"
definition BC_ID_BIT_MAX :: nat where "BC_ID_BIT_MAX = 2 ^ BC_ID_BIT_LENGTH - 1"
definition SRS_TIMESTAMP_MAX :: nat where "SRS_TIMESTAMP_MAX = 2 ^ SRS_TIMESTAMP_BIT_LENGTH - 1"

lemmas bit_max_defs = CHANNEL_NUM_BIT_MAX_def TDC_BIT_MAX_def OFFSET_BIT_MAX_def VMM_ID_BIT_MAX_def
  ADC_BIT_MAX_def BC_ID_BIT_MAX_def SRS_TIMESTAMP_MAX_def

record 'g Randomizer =
  rz_n_hits :: MinMax
  rz_n_markers :: MinMax
  rz_gen :: 'g

text \<open>The arguments of \<^verbatim>\<open>emplace_back\<close> are drawn from left to right here; the language
  leaves their order open.\<close>

definition random_hit :: "'g rng \<Rightarrow> 'g \<Rightarrow> HitData \<times> 'g" where
  "random_hit r g =
     (let (c, g) = rng_uniform r 0 CHANNEL_NUM_BIT_MAX g;
          (t, g) = rng_uniform r 0 TDC_BIT_MAX g;
          (f, g) = rng_uniform r 0 OFFSET_BIT_MAX g;
          (v, g) = rng_uniform r 0 VMM_ID_BIT_MAX g;
          (a, g) = rng_uniform r 0 ADC_BIT_MAX g;
          (b, g) = rng_uniform r 0 BC_ID_BIT_MAX g
      in (\<lparr>is_over_threshold = False, channel_num = of_nat c, tdc = of_nat t, offset = of_nat f,
           vmm_id = of_nat v, adc = of_nat a, bc_id = of_nat b\<rparr>, g))"

definition random_marker :: "'g rng \<Rightarrow> 'g \<Rightarrow> MarkerData \<times> 'g" where
  "random_marker r g =
     (let (v, g) = rng_uniform r 0 VMM_ID_BIT_MAX g;
          (t, g) = rng_uniform r 0 SRS_TIMESTAMP_MAX g
      in (\<lparr>marker_vmm_id = of_nat v, srs_timestamp = of_nat t\<rparr>, g))"

fun repeat_draw :: "nat \<Rightarrow> ('g \<Rightarrow> 'a \<times> 'g) \<Rightarrow> 'g \<Rightarrow> 'a list \<times> 'g" where
  "repeat_draw 0 f g = ([], g)"
| "repeat_draw (Suc n) f g = (let (x, g) = f g; (xs, g) = repeat_draw n f g in (x # xs, g))"

definition randomize_hits :: "'g rng \<Rightarrow> MinMax \<Rightarrow> 'g \<Rightarrow> HitData list \<times> 'g" where
  "randomize_hits r mm g =
     (let (n_hits, g) = rng_uniform r (mm_min mm) (mm_max mm) g in repeat_draw n_hits (random_hit r) g)"

definition randomize_markers :: "'g rng \<Rightarrow> MinMax \<Rightarrow> 'g \<Rightarrow> MarkerData list \<times> 'g" where
  "randomize_markers r mm g =
     (let (n_markers, g) = rng_uniform r (mm_min mm) (mm_max mm) g in repeat_draw n_markers (random_marker r) g)"

text \<open>\<open>now\<close>: the milliseconds of the system clock, cut to 32 bits.\<close>

definition set_random_header :: "u32 \<Rightarrow> u32 \<Rightarrow> u8 \<Rightarrow> ReceiveDataHeader \<Rightarrow> ReceiveDataHeader" where
  "set_random_header now counter fid h = h\<lparr>frame_counter := counter, vmm_tag := (0x56, 0x4D, 0x33),
     fec_id := fid, udp_timestamp := now, overflow := 0\<rparr>"

definition randomize_data_struct ::
  "'g rng \<Rightarrow> u32 \<Rightarrow> u32 \<Rightarrow> u8 \<Rightarrow> StructData \<Rightarrow> 'g Randomizer \<Rightarrow> StructData \<times> 'g Randomizer" where
  "randomize_data_struct r now counter fid s rz =
     (let s = s\<lparr>header := set_random_header now counter fid (header s)\<rparr>;
          (hits, g) = randomize_hits r (rz_n_hits rz) (rz_gen rz);
          (markers, g) = randomize_markers r (rz_n_markers rz) g
      in (s\<lparr>hit_data := hits, marker_data := markers\<rparr>, rz\<lparr>rz_gen := g\<rparr>))"

section \<open>Commands\<close>

datatype ReceiveType = invalid | acq_on | acq_off

text \<open>The objects \<^verbatim>\<open>Starter{}\<close> and \<^verbatim>\<open>Stopper{}\<close> built here never get an endpoint.\<close>

fun get_msg_from_receive_type :: "zpp_bits \<Rightarrow> ReceiveType \<Rightarrow> bytes" where
  "get_msg_from_receive_type z invalid = []"
| "get_msg_from_receive_type z acq_on = get_response_msg (mk_Starter z ''Starter'' ())"
| "get_msg_from_receive_type z acq_off = get_response_msg (mk_Stopper z ''Stopper'' ())"

fun get_send_msg_from_receive_type :: "zpp_bits \<Rightarrow> ReceiveType \<Rightarrow> bytes" where
  "get_send_msg_from_receive_type z invalid = []"
| "get_send_msg_from_receive_type z acq_on = msg_serialize z (map (zpp_u32 z) (get_suffix Starter)) []"
| "get_send_msg_from_receive_type z acq_off = msg_serialize z (map (zpp_u32 z) (get_suffix Stopper)) []"

definition ends_with :: "'a list \<Rightarrow> 'a list \<Rightarrow> bool" where
  "ends_with s x \<longleftrightarrow> length x \<le> length s \<and> drop (length s - length x) s = x"

definition msg_map :: "zpp_bits \<Rightarrow> (bytes \<times> ReceiveType) list" where
  "msg_map z = fst (map_try_emplace (get_send_msg_from_receive_type z acq_off) acq_off
     (fst (map_try_emplace (get_send_msg_from_receive_type z acq_on) acq_on [])))"

definition check_receive_msg_type :: "zpp_bits \<Rightarrow> bytes \<Rightarrow> ReceiveType" where
  "check_receive_msg_type z msg =
     (case find (\<lambda>suffix_type. ends_with msg (fst suffix_type)) (msg_map z) of
        None \<Rightarrow> invalid | Some (_, t) \<Rightarrow> t)"

section \<open>The emulators\<close>

record FecConfig =
  cfg_ip :: string
  cfg_port :: nat
  is_sent_data_only :: bool
  remote_data_port :: nat
  cfg_n_hits :: MinMax
  cfg_n_markers :: MinMax

text \<open>A sending coroutine: before its first second is over, at the head of its loop, about to
  send, ended, aborted.\<close>

datatype sender = Sd_wait | Sd_check | Sd_send | Sd_done | Sd_aborted

record 'g FECEmulator =
  em_config :: FecConfig
  em_fec_id :: u8
  em_delay_time :: nat
  is_switched_off :: bool
  n_frames_sent :: nat
  em_serializer :: StructSerializer
  em_data_struct :: StructData
  em_randomizer :: "'g Randomizer"
  em_listening :: bool
  em_senders :: "sender list"

record world_config =
  frame_wait_time_ns :: nat
  non_stop :: bool
  cfg_FECs :: "FecConfig list"

text \<open>\<open>w_sent\<close> and \<open>w_responses\<close> record the datagrams of the emulators, newest first, and
  \<open>w_drawn\<close> the structures drawn for the datagrams of \<open>w_sent\<close>.\<close>

record ('g, 'e) World =
  w_config :: world_config
  w_frame_counter :: u32
  fec_servers :: "'g FECEmulator list"
  w_sent :: "(nat \<times> bytes) list"
  w_drawn :: "(nat \<times> StructData) list"
  w_responses :: "(nat \<times> 'e \<times> bytes) list"

definition mk_FECEmulator :: "FecConfig \<Rightarrow> 'g \<Rightarrow> 'g FECEmulator" where
  "mk_FECEmulator c g = \<lparr>em_config = c, em_fec_id = 0, em_delay_time = 3, is_switched_off = True,
     n_frames_sent = 0, em_serializer = mk_StructSerializer 1, em_data_struct = default_struct,
     em_randomizer = \<lparr>rz_n_hits = cfg_n_hits c, rz_n_markers = cfg_n_markers c, rz_gen = g\<rparr>,
     em_listening = False, em_senders = []\<rparr>"

definition mk_World :: "world_config \<Rightarrow> ('g, 'e) World" where
  "mk_World c = \<lparr>w_config = c, w_frame_counter = 0, fec_servers = [], w_sent = [], w_drawn = [],
     w_responses = []\<rparr>"

text \<open>The identifiers count up in eight bits. \<open>gens\<close> seeds the generator of each emulator.\<close>

definition world_init :: "(nat \<Rightarrow> 'g) \<Rightarrow> ('g, 'e) World \<Rightarrow> ('g, 'e) World" where
  "world_init gens w = w\<lparr>fec_servers := fec_servers w @
     map (\<lambda>(i, c). (mk_FECEmulator c (gens i))\<lparr>em_delay_time := frame_wait_time_ns (w_config w),
                      em_fec_id := of_nat i\<rparr>)
       (enumerate 0 (cfg_FECs (w_config w)))\<rparr>"

definition request_frame_counter :: "('g, 'e) World \<Rightarrow> u32 \<times> ('g, 'e) World" where
  "request_frame_counter w = (w_frame_counter w, w\<lparr>w_frame_counter := w_frame_counter w + 1\<rparr>)"

definition reset_frame_counter :: "('g, 'e) World \<Rightarrow> ('g, 'e) World" where
  "reset_frame_counter w = w\<lparr>w_frame_counter := 0\<rparr>"

definition upd_fec :: "nat \<Rightarrow> ('g FECEmulator \<Rightarrow> 'g FECEmulator) \<Rightarrow> ('g, 'e) World \<Rightarrow> ('g, 'e) World" where
  "upd_fec k f w = w\<lparr>fec_servers := (fec_servers w)[k := f (fec_servers w ! k)]\<rparr>"

definition do_if_acq_on :: "nat \<Rightarrow> ('g, 'e) World \<Rightarrow> ('g, 'e) World" where
  "do_if_acq_on k w =
     (let w = reset_frame_counter w;
          w = upd_fec k (\<lambda>f. f\<lparr>is_switched_off := False\<rparr>) w
      in upd_fec k (\<lambda>f. f\<lparr>em_senders := em_senders f @ [Sd_wait]\<rparr>) w)"

definition do_if_acq_off :: "nat \<Rightarrow> ('g, 'e) World \<Rightarrow> ('g, 'e) World" where
  "do_if_acq_off k w = upd_fec k (\<lambda>f. f\<lparr>is_switched_off := True\<rparr>) w"

definition wait_for_connection :: "nat \<Rightarrow> ('g, 'e) World \<Rightarrow> ('g, 'e) World" where
  "wait_for_connection k w =
     (if is_sent_data_only (em_config (fec_servers w ! k)) then do_if_acq_on k w
      else upd_fec k (\<lambda>f. f\<lparr>em_listening := True\<rparr>) w)"

definition world_launch :: "('g, 'e) World \<Rightarrow> ('g, 'e) World" where
  "world_launch w = fold wait_for_connection [0..<length (fec_servers w)] w"

text \<open>A round of \<^verbatim>\<open>listen_coro\<close>. The answer goes back to the sender whatever the type.\<close>

definition send_response :: "zpp_bits \<Rightarrow> nat \<Rightarrow> 'e \<Rightarrow> ReceiveType \<Rightarrow> ('g, 'e) World \<Rightarrow> ('g, 'e) World" where
  [simp]: "send_response z k endpoint result_type w =
     w\<lparr>w_responses := (k, endpoint, get_msg_from_receive_type z result_type) # w_responses w\<rparr>"

definition listen_round :: "zpp_bits \<Rightarrow> nat \<Rightarrow> 'e \<Rightarrow> bytes \<Rightarrow> ('g, 'e) World \<Rightarrow> ('g, 'e) World" where
  "listen_round z k remote_endpoint datagram w =
     (let msg = take SMALL_READ_MSG_BUFFER_SIZE datagram;
          result = check_receive_msg_type z msg;
          w = send_response z k remote_endpoint result w
      in case result of
           invalid \<Rightarrow> w
         | acq_on \<Rightarrow> do_if_acq_on k w
         | acq_off \<Rightarrow>
             let w = do_if_acq_off k w
             in if \<not> non_stop (w_config w) then upd_fec k (\<lambda>f. f\<lparr>em_listening := False\<rparr>) w else w)"

definition construct_binary_data ::
  "zpp_bits \<Rightarrow> 'g rng \<Rightarrow> u32 \<Rightarrow> nat \<Rightarrow> ('g, 'e) World \<Rightarrow> (conv_error + nat) \<times> ('g, 'e) World" where
  "construct_binary_data z r now k w =
     (let (counter, w) = request_frame_counter w;
          f = fec_servers w ! k;
          (s, rz) = randomize_data_struct r now counter (em_fec_id f) (em_data_struct f) (em_randomizer f);
          (res, ss) = ser_convert z (em_serializer f) s 0
      in (res, upd_fec k (\<lambda>f. f\<lparr>em_data_struct := s, em_randomizer := rz, em_serializer := ss\<rparr>)
            (w\<lparr>w_drawn := (k, s) # w_drawn w\<rparr>)))"

definition set_sender :: "nat \<Rightarrow> nat \<Rightarrow> sender \<Rightarrow> ('g, 'e) World \<Rightarrow> ('g, 'e) World" where
  "set_sender k i p = upd_fec k (\<lambda>f. f\<lparr>em_senders := (em_senders f)[i := p]\<rparr>)"

text \<open>The body of the loop of \<^verbatim>\<open>start_send_data\<close> after its first suspension.\<close>

definition send_round ::
  "zpp_bits \<Rightarrow> 'g rng \<Rightarrow> u32 \<Rightarrow> nat \<Rightarrow> nat \<Rightarrow> ('g, 'e) World \<Rightarrow> ('g, 'e) World" where
  "send_round z r now k i w =
     (let (res, w) = construct_binary_data z r now k w
      in case res of
           Inl _ \<Rightarrow> set_sender k i Sd_done w
         | Inr _ \<Rightarrow>
             let read_str = ser_view (em_serializer (fec_servers w ! k)) 0;
                 w = w\<lparr>w_sent := (k, read_str) # w_sent w\<rparr>;
                 w = upd_fec k (\<lambda>f. f\<lparr>n_frames_sent := n_frames_sent f + 1\<rparr>) w
             in set_sender k i Sd_check w)"

text \<open>\<^verbatim>\<open>expires_after\<close> on the timer the coroutines of an emulator share aborts the waits of the
  others that have not expired yet: an aborted one leaves its coroutine with an exception, or, in
  the wait after a frame, waiting for ever on the other timer. It sends nothing more.\<close>

definition sender_active :: "sender \<Rightarrow> bool" where
  "sender_active p \<longleftrightarrow> p \<noteq> Sd_done \<and> p \<noteq> Sd_aborted"

inductive wd_step :: "zpp_bits \<Rightarrow> 'g rng \<Rightarrow> ('g, 'e) World \<Rightarrow> ('g, 'e) World \<Rightarrow> bool" for z r where
  wd_message: "k < length (fec_servers w) \<Longrightarrow> em_listening (fec_servers w ! k) \<Longrightarrow>
    wd_step z r w (listen_round z k e datagram w)"
| wd_first_second: "k < length (fec_servers w) \<Longrightarrow> i < length (em_senders (fec_servers w ! k)) \<Longrightarrow>
    em_senders (fec_servers w ! k) ! i = Sd_wait \<Longrightarrow> wd_step z r w (set_sender k i Sd_check w)"
| wd_check: "k < length (fec_servers w) \<Longrightarrow> i < length (em_senders (fec_servers w ! k)) \<Longrightarrow>
    em_senders (fec_servers w ! k) ! i = Sd_check \<Longrightarrow>
    wd_step z r w (set_sender k i (if is_switched_off (fec_servers w ! k) then Sd_done else Sd_send) w)"
| wd_send: "k < length (fec_servers w) \<Longrightarrow> i < length (em_senders (fec_servers w ! k)) \<Longrightarrow>
    em_senders (fec_servers w ! k) ! i = Sd_send \<Longrightarrow> wd_step z r w (send_round z r now k i w)"
| wd_abort: "k < length (fec_servers w) \<Longrightarrow> i < length (em_senders (fec_servers w ! k)) \<Longrightarrow>
    j < length (em_senders (fec_servers w ! k)) \<Longrightarrow> i \<noteq> j \<Longrightarrow>
    sender_active (em_senders (fec_servers w ! k) ! i) \<Longrightarrow> sender_active (em_senders (fec_servers w ! k) ! j) \<Longrightarrow>
    wd_step z r w (set_sender k i Sd_aborted w)"

section \<open>What is drawn\<close>

lemma of_nat_less_2p:
  assumes "c < 2 ^ n" "n < LENGTH('a::len)"
  shows "(of_nat c :: 'a word) < 2 ^ n"
proof -
  have "(2 :: nat) ^ n < 2 ^ LENGTH('a)" using assms(2) by simp
  then have "c < 2 ^ LENGTH('a)" using assms(1) by (rule less_trans [rotated])
  then have "unat (of_nat c :: 'a word) = c" by (simp add: unsigned_of_nat take_bit_nat_eq_self_iff)
  then show ?thesis using assms by (simp add: word_less_nat_alt unat_2p)
qed

lemma rng_less: "rng_documented r \<Longrightarrow> fst (rng_uniform r 0 (2 ^ n - 1) g) < 2 ^ n"
  unfolding rng_documented_def by (metis Suc_pred' le0 le_imp_less_Suc zero_less_numeral zero_less_power)

lemma rng_word:
  "rng_documented r \<Longrightarrow> n < LENGTH('a::len) \<Longrightarrow> (of_nat (fst (rng_uniform r 0 (2 ^ n - 1) g)) :: 'a word) < 2 ^ n"
  by (simp only: of_nat_less_2p rng_less)

lemma random_hit_in_range: "rng_documented r \<Longrightarrow> hit_in_range (fst (random_hit r g))"
  unfolding random_hit_def hit_in_range_def split_def Let_def bit_max_defs bit_length_defs fst_conv HitData.simps
  by (intro conjI rng_word) simp_all

lemma random_marker_in_range: "rng_documented r \<Longrightarrow> marker_in_range (fst (random_marker r g))"
  unfolding random_marker_def marker_in_range_def split_def Let_def bit_max_defs bit_length_defs fst_conv MarkerData.simps
  using rng_word [where 'a = 8 and n = 5] rng_word [where 'a = 64 and n = "10 + 32"]
  by (intro conjI) simp_all

lemma repeat_draw_length [simp]: "length (fst (repeat_draw n f g)) = n"
  by (induction n arbitrary: g) (simp_all add: split_def Let_def)

lemma repeat_draw_all: "(\<And>g. P (fst (f g))) \<Longrightarrow> list_all P (fst (repeat_draw n f g))"
  by (induction n arbitrary: g) (simp_all add: split_def Let_def)

definition in_min_max :: "MinMax \<Rightarrow> nat \<Rightarrow> bool" where
  "in_min_max mm n \<longleftrightarrow> mm_min mm \<le> n \<and> n \<le> mm_max mm"

definition min_max_ok :: "MinMax \<Rightarrow> bool" where
  "min_max_ok mm \<longleftrightarrow> mm_min mm \<le> mm_max mm"

lemma randomize_data_struct_result:
  assumes "rng_documented r"
  shows "struct_in_range (fst (randomize_data_struct r now c fid s rz))"
    and "min_max_ok (rz_n_hits rz) \<Longrightarrow>
      in_min_max (rz_n_hits rz) (length (hit_data (fst (randomize_data_struct r now c fid s rz))))"
    and "min_max_ok (rz_n_markers rz) \<Longrightarrow>
      in_min_max (rz_n_markers rz) (length (marker_data (fst (randomize_data_struct r now c fid s rz))))"
    and "header (fst (randomize_data_struct r now c fid s rz)) = \<lparr>frame_counter = c,
      vmm_tag = (0x56, 0x4D, 0x33), fec_id = fid, udp_timestamp = now, overflow = 0\<rparr>"
    and "rz_n_hits (snd (randomize_data_struct r now c fid s rz)) = rz_n_hits rz"
    and "rz_n_markers (snd (randomize_data_struct r now c fid s rz)) = rz_n_markers rz"
  using assms
  by (auto simp: randomize_data_struct_def randomize_hits_def randomize_markers_def set_random_header_def
      struct_in_range_def split_def Let_def in_min_max_def min_max_ok_def rng_documented_def
      intro!: repeat_draw_all random_hit_in_range random_marker_in_range)

section \<open>Serialising again into the same buffer\<close>

text \<open>Documented: a write inside the vector leaves what follows it unchanged.\<close>

definition zpp_keeps_tail :: "zpp_bits \<Rightarrow> bool" where
  "zpp_keeps_tail z \<longleftrightarrow> (\<forall>b p w. p + length w \<le> length b \<longrightarrow>
     zpp_store z b p w = take p b @ w @ drop (p + length w) b)"

lemma zpp_ref_keeps_tail [simp]: "zpp_keeps_tail zpp_ref"
  by (simp add: zpp_keeps_tail_def zpp_ref_def)

lemma zpp_store_exact:
  assumes "zpp_documented z" "zpp_keeps_tail z" "p \<le> length b"
  shows "zpp_store z b p w = take p b @ w @ drop (p + length w) b"
  using assms by (cases "p + length w \<le> length b") (simp_all add: zpp_keeps_tail_def zpp_store_end)

lemma arc_writes_over:
  assumes "zpp_documented z" "zpp_keeps_tail z"
  shows "arc_pos a \<le> length (arc_data a) \<Longrightarrow>
    arc_data (arc_writes z ws a) =
      take (arc_pos a) (arc_data a) @ concat ws @ drop (arc_pos a + length (concat ws)) (arc_data a)"
proof (induction ws arbitrary: a)
  case (Cons w ws)
  have s: "arc_data (arc_write z w a) = take (arc_pos a) (arc_data a) @ w @ drop (arc_pos a + length w) (arc_data a)"
    using assms Cons.prems by (simp add: arc_write_def zpp_store_exact)
  have p: "arc_pos (arc_write z w a) = arc_pos a + length w" by (simp add: arc_write_def)
  show ?case using Cons.IH [of "arc_write z w a"] Cons.prems
    by (simp add: s p drop_drop add.commute add.left_commute min_absorb2)
qed simp

lemma ser_convert_over:
  assumes "zpp_documented z" "zpp_keeps_tail z" "struct_in_range s"
    "length (ss_output_data ss) = 1" "length (ss_compact_data_buffer ss) = 1"
  shows "\<exists>x. ser_convert z ss s 0 = (Inr (length (marker_data s) + length (hit_data s)),
    \<lparr>ss_output_data = [frame_bytes s @ drop (length (frame_bytes s)) (ss_output_data ss ! 0)],
     ss_compact_data_buffer = [x]\<rparr>)"
proof -
  obtain a b where ab: "ss_output_data ss = [a]" "ss_compact_data_buffer ss = [b]"
    using assms(4,5) by (auto simp: length_Suc_conv)
  have "concat (struct_chunks [b] 0 s) = frame_bytes s"
    by (intro struct_chunks_empty) simp
  then show ?thesis
    using ser_convert_ok [OF assms(1) _ _ assms(3), of 0 ss] arc_writes_over [OF assms(1,2), of "arc_open a"]
    by (auto simp: ab arc_open_def)
qed

section \<open>Which command a message is\<close>

definition receive_type_of :: "command_class \<Rightarrow> ReceiveType" where
  "receive_type_of cl = (case cl of Starter \<Rightarrow> acq_on | Stopper \<Rightarrow> acq_off)"

lemma get_send_msg_eq [wire_simps]:
  "zpp_documented z \<Longrightarrow> get_send_msg_from_receive_type z (receive_type_of cl) = suffix_bytes cl"
  using suffix_encoded [of z cl] by (cases cl) (simp_all add: receive_type_of_def msg_serialize_eq)

lemma get_msg_eq [wire_simps]:
  "zpp_documented z \<Longrightarrow> get_msg_from_receive_type z (receive_type_of cl) = response_bytes cl"
  using response_encoded [of z cl "''Starter''" "()"] response_encoded [of z cl "''Stopper''" "()"]
  by (cases cl) (simp_all add: receive_type_of_def get_response_msg_def)

lemma suffix_less: "suffix_bytes Stopper < suffix_bytes Starter"
  by (simp add: suffix_bytes_def on_off_def)

lemma msg_map_eq:
  assumes "zpp_documented z"
  shows "msg_map z = [(suffix_bytes Stopper, acq_off), (suffix_bytes Starter, acq_on)]"
  using get_send_msg_eq [OF assms, of Starter] get_send_msg_eq [OF assms, of Stopper] suffix_less
  by (simp add: msg_map_def receive_type_of_def)

lemma check_receive_eq:
  "zpp_documented z \<Longrightarrow> check_receive_msg_type z msg =
     (if ends_with msg (suffix_bytes Stopper) then acq_off
      else if ends_with msg (suffix_bytes Starter) then acq_on else invalid)"
  by (simp add: check_receive_msg_type_def msg_map_eq)

lemma ends_with_append: "length u = length v \<Longrightarrow> ends_with (x @ u) v \<longleftrightarrow> u = v"
  by (auto simp: ends_with_def)

lemma suffix_inject [simp]: "suffix_bytes a = suffix_bytes b \<longleftrightarrow> a = b"
  by (simp add: suffix_bytes_def)

lemma length_suffix [simp]: "length (suffix_bytes cl) = 12"
  by (simp add: suffix_bytes_def)

lemma check_receive_message:
  "zpp_documented z \<Longrightarrow> check_receive_msg_type z (x @ message_bytes cl) = receive_type_of cl"
  using ends_with_append [of "suffix_bytes cl" "suffix_bytes Stopper" "x @ take 12 (message_bytes cl)"]
    ends_with_append [of "suffix_bytes cl" "suffix_bytes Starter" "x @ take 12 (message_bytes cl)"]
  by (cases cl) (simp_all add: check_receive_eq message_bytes_def receive_type_of_def)

section \<open>Properties of the protocol\<close>

text \<open>
  C21. The two sides of the protocol fit: the emulator takes exactly the messages that end in a
  command's suffix for that command, in particular the message a command object sends (sent once
  or several times in one datagram); its answer is accepted by that command and by no command of
  the other class; and an answer is never taken for a command.\<close>

theorem emulator_handshake:
  assumes "zpp_documented z"
  shows "check_receive_msg_type z (concat (replicate (Suc n) (message_bytes cl))) = receive_type_of cl \<and>
    (check_response (mk_command z cl' name e) (get_msg_from_receive_type z (receive_type_of cl)) \<longleftrightarrow> cl' = cl) \<and>
    (check_receive_msg_type z msg = receive_type_of cl \<longleftrightarrow> ends_with msg (suffix_bytes cl)) \<and>
    check_receive_msg_type z (get_msg_from_receive_type z (receive_type_of cl)) = invalid"
proof (intro conjI)
  show "check_receive_msg_type z (concat (replicate (Suc n) (message_bytes cl))) = receive_type_of cl"
    using check_receive_message [OF assms, of "concat (replicate n (message_bytes cl))" cl]
    by (simp only: concat_replicate_snoc)
  show "check_response (mk_command z cl' name e) (get_msg_from_receive_type z (receive_type_of cl)) \<longleftrightarrow> cl' = cl"
    using assms by (auto simp: get_msg_eq check_response_mk')
  have "\<not> (ends_with msg (suffix_bytes Stopper) \<and> ends_with msg (suffix_bytes Starter))"
    by (auto simp: ends_with_def)
  then show "check_receive_msg_type z msg = receive_type_of cl \<longleftrightarrow> ends_with msg (suffix_bytes cl)"
    using assms by (cases cl) (auto simp: check_receive_eq receive_type_of_def)
  show "check_receive_msg_type z (get_msg_from_receive_type z (receive_type_of cl)) = invalid"
    using assms
    by (simp add: get_msg_eq check_receive_eq) (simp add: ends_with_def response_bytes_def suffix_bytes_def)
qed

lemma emulator_handshake_witness:
  "check_receive_msg_type zpp_ref (message_bytes Starter) = acq_on \<and>
   check_receive_msg_type zpp_ref (response_bytes Stopper) = invalid"
  using emulator_handshake [OF zpp_ref_documented, of 0 Starter Starter "''Starter''" "()" "[]"]
    emulator_handshake [OF zpp_ref_documented, of 0 Stopper Stopper "''Stopper''" "()" "[]"]
    get_msg_eq [OF zpp_ref_documented, of Stopper]
  by (simp add: receive_type_of_def)

section \<open>The invariant of the world\<close>

text \<open>What never changes of an emulator, and what a datagram of it looks like.\<close>

definition em_fixed :: "'g FECEmulator \<Rightarrow> u8 \<times> MinMax \<times> MinMax" where
  "em_fixed f = (em_fec_id f, rz_n_hits (em_randomizer f), rz_n_markers (em_randomizer f))"

definition frame_of_struct :: "u8 \<times> MinMax \<times> MinMax \<Rightarrow> StructData \<Rightarrow> bytes \<Rightarrow> bool" where
  "frame_of_struct fx s d \<longleftrightarrow> struct_in_range s \<and> take (length (frame_bytes s)) d = frame_bytes s \<and>
     fec_id (header s) = fst fx \<and> vmm_tag (header s) = (0x56, 0x4D, 0x33) \<and>
     (min_max_ok (fst (snd fx)) \<longrightarrow> in_min_max (fst (snd fx)) (length (hit_data s))) \<and>
     (min_max_ok (snd (snd fx)) \<longrightarrow> in_min_max (snd (snd fx)) (length (marker_data s)))"

definition em_ok :: "'g FECEmulator \<Rightarrow> bool" where
  "em_ok f \<longleftrightarrow> length (ss_output_data (em_serializer f)) = 1 \<and>
     length (ss_compact_data_buffer (em_serializer f)) = 1"

definition sent_by :: "nat \<Rightarrow> ('g, 'e) World \<Rightarrow> bytes list" where
  "sent_by k w = map snd (filter (\<lambda>(j, d). j = k) (w_sent w))"

text \<open>A datagram and the structure drawn for it.\<close>

definition drawn_and_sent :: "(u8 \<times> MinMax \<times> MinMax) list \<Rightarrow> nat \<times> bytes \<Rightarrow> nat \<times> StructData \<Rightarrow> bool" where
  "drawn_and_sent fxs sent drawn \<longleftrightarrow> fst drawn = fst sent \<and> fst sent < length fxs \<and>
     frame_of_struct (fxs ! fst sent) (snd drawn) (snd sent)"

definition wd_inv :: "(u8 \<times> MinMax \<times> MinMax) list \<Rightarrow> ('g, 'e) World \<Rightarrow> bool" where
  "wd_inv fxs w \<longleftrightarrow> map em_fixed (fec_servers w) = fxs \<and> list_all em_ok (fec_servers w) \<and>
     list_all2 (drawn_and_sent fxs) (w_sent w) (w_drawn w) \<and>
     (\<forall>k < length fxs. n_frames_sent (fec_servers w ! k) = length (sent_by k w))"

lemma upd_fec_simps [simp]:
  "w_sent (upd_fec k f w) = w_sent w" "w_drawn (upd_fec k f w) = w_drawn w" "w_responses (upd_fec k f w) = w_responses w"
  "w_config (upd_fec k f w) = w_config w" "w_frame_counter (upd_fec k f w) = w_frame_counter w"
  "length (fec_servers (upd_fec k f w)) = length (fec_servers w)"
  "sent_by j (upd_fec k f w) = sent_by j w"
  by (simp_all add: upd_fec_def sent_by_def)

lemma upd_fec_nth:
  "j < length (fec_servers w) \<Longrightarrow>
     fec_servers (upd_fec k f w) ! j = (if j = k then f (fec_servers w ! k) else fec_servers w ! j)"
  by (simp add: upd_fec_def nth_list_update)

text \<open>Updates that leave the fixed parts, the buffers and the count alone.\<close>

definition harmless :: "('g FECEmulator \<Rightarrow> 'g FECEmulator) \<Rightarrow> bool" where
  "harmless f \<longleftrightarrow> (\<forall>x. em_fixed (f x) = em_fixed x \<and> em_ok (f x) = em_ok x \<and> n_frames_sent (f x) = n_frames_sent x)"

lemma wd_inv_upd_fec:
  assumes "wd_inv fxs w" "k < length (fec_servers w)"
    "em_fixed (f (fec_servers w ! k)) = em_fixed (fec_servers w ! k)"
    "em_ok (f (fec_servers w ! k))" "n_frames_sent (f (fec_servers w ! k)) = n_frames_sent (fec_servers w ! k)"
  shows "wd_inv fxs (upd_fec k f w)"
proof -
  have "map em_fixed (fec_servers (upd_fec k f w)) = fxs"
  proof -
    have "map em_fixed (fec_servers (upd_fec k f w)) = (map em_fixed (fec_servers w))[k := em_fixed (fec_servers w ! k)]"
      using assms(3) by (simp add: upd_fec_def map_update)
    also have "\<dots> = map em_fixed (fec_servers w)"
      using assms(2) by (metis list_update_id nth_map)
    finally show ?thesis using assms(1) by (simp add: wd_inv_def)
  qed
  moreover have "list_all em_ok (fec_servers (upd_fec k f w))"
    using assms by (auto simp: wd_inv_def list_all_length upd_fec_nth)
  moreover have len: "length fxs = length (fec_servers w)"
    using assms(1) by (auto simp: wd_inv_def)
  ultimately show ?thesis
    using assms(1,2,5) unfolding wd_inv_def by (simp add: upd_fec_nth)
qed

lemma wd_inv_len: "wd_inv fxs w \<Longrightarrow> length fxs = length (fec_servers w)"
  by (auto simp: wd_inv_def)

lemma list_all2_left: "list_all2 P xs ys \<Longrightarrow> x \<in> set xs \<Longrightarrow> \<exists>y. (x, y) \<in> set (zip xs ys) \<and> P x y"
  by (induction rule: list_all2_induct) auto

lemma wd_inv_sent:
  assumes "wd_inv fxs w" "(k, d) \<in> set (w_sent w)"
  shows "\<exists>s. ((k, d), (k, s)) \<in> set (zip (w_sent w) (w_drawn w)) \<and> k < length fxs \<and> frame_of_struct (fxs ! k) s d"
  using list_all2_left [of "drawn_and_sent fxs" "w_sent w" "w_drawn w" "(k, d)"] assms
  by (auto simp: wd_inv_def drawn_and_sent_def)

lemma wd_inv_em_ok: "wd_inv fxs w \<Longrightarrow> k < length (fec_servers w) \<Longrightarrow> em_ok (fec_servers w ! k)"
  by (auto simp: wd_inv_def list_all_length)

lemma wd_inv_harmless:
  "wd_inv fxs w \<Longrightarrow> k < length (fec_servers w) \<Longrightarrow> harmless f \<Longrightarrow> wd_inv fxs (upd_fec k f w)"
  by (rule wd_inv_upd_fec) (auto simp: harmless_def wd_inv_em_ok)

lemma harmless_updates [simp]:
  "harmless (\<lambda>f. f\<lparr>is_switched_off := b\<rparr>)" "harmless (\<lambda>f. f\<lparr>em_senders := g f\<rparr>)"
  "harmless (\<lambda>f. f\<lparr>em_listening := b\<rparr>)"
  by (simp_all add: harmless_def em_fixed_def em_ok_def)

lemma wd_inv_counter [simp]:
  "wd_inv fxs (w\<lparr>w_frame_counter := c\<rparr>) = wd_inv fxs w" "wd_inv fxs (w\<lparr>w_responses := rs\<rparr>) = wd_inv fxs w"
  "wd_inv fxs (reset_frame_counter w) = wd_inv fxs w"
  by (simp_all add: wd_inv_def sent_by_def reset_frame_counter_def)

lemma reset_frame_counter_servers [simp]: "fec_servers (reset_frame_counter w) = fec_servers w"
  by (simp add: reset_frame_counter_def)

lemma wd_inv_on: "wd_inv fxs w \<Longrightarrow> k < length (fec_servers w) \<Longrightarrow> wd_inv fxs (do_if_acq_on k w)"
  by (simp add: do_if_acq_on_def Let_def wd_inv_harmless)

lemma wd_inv_listen:
  "wd_inv fxs w \<Longrightarrow> k < length (fec_servers w) \<Longrightarrow> wd_inv fxs (listen_round z k e d w)"
  by (cases "check_receive_msg_type z (take SMALL_READ_MSG_BUFFER_SIZE d)")
    (simp_all add: listen_round_def Let_def wd_inv_on do_if_acq_off_def wd_inv_harmless)

lemma construct_binary_data_ok:
  assumes "zpp_documented z" "rng_documented r" "em_ok (fec_servers w ! k)" "k < length (fec_servers w)"
  obtains n f' s w' where "construct_binary_data z r now k w = (Inr n, w')"
    "fec_servers w' = (fec_servers w)[k := f']" "w_sent w' = w_sent w" "w_drawn w' = (k, s) # w_drawn w" "em_ok f'"
    "em_fixed f' = em_fixed (fec_servers w ! k)"
    "n_frames_sent f' = n_frames_sent (fec_servers w ! k)" "em_senders f' = em_senders (fec_servers w ! k)"
    "is_switched_off f' = is_switched_off (fec_servers w ! k)"
    "frame_of_struct (em_fixed (fec_servers w ! k)) s (ser_view (em_serializer f') 0)"
proof -
  let ?f = "fec_servers w ! k"
  let ?rds = "randomize_data_struct r now (w_frame_counter w) (em_fec_id ?f) (em_data_struct ?f) (em_randomizer ?f)"
  obtain s rz where s: "?rds = (s, rz)" by (cases ?rds)
  note rr = randomize_data_struct_result [OF assms(2), where now = now and c = "w_frame_counter w" and
      fid = "em_fec_id ?f" and s = "em_data_struct ?f" and rz = "em_randomizer ?f", unfolded s fst_conv snd_conv]
  have l: "0 < length (ss_output_data (em_serializer ?f))" "0 < length (ss_compact_data_buffer (em_serializer ?f))"
    using assms(3) by (simp_all add: em_ok_def)
  obtain x where sc: "ser_convert z (em_serializer ?f) s 0 = (Inr (length (marker_data s) + length (hit_data s)), x)"
      and x: "length (ss_output_data x) = 1" "length (ss_compact_data_buffer x) = 1"
    using ser_convert_ok [OF assms(1) l rr(1)] assms(3) that by (auto simp: em_ok_def)
  have "\<exists>out. fst (ser_run z (em_serializer ?f) s 0) = Inr out \<and> take (length (frame_bytes s)) out = frame_bytes s"
    using ser_run_output [OF assms(1) l rr(1)] assms(3)
      struct_chunks_empty [of "ss_compact_data_buffer (em_serializer ?f)" 0 s]
    by (auto simp: em_ok_def Let_def)
  then have "take (length (frame_bytes s)) (ser_view x 0) = frame_bytes s"
    by (simp add: ser_run_def sc)
  then have "frame_of_struct (em_fixed ?f) s (ser_view x 0)"
    using rr by (auto simp: frame_of_struct_def em_fixed_def)
  with that [of _ "upd_fec k (\<lambda>f. f\<lparr>em_data_struct := s, em_randomizer := rz, em_serializer := x\<rparr>)
        (w\<lparr>w_frame_counter := w_frame_counter w + 1, w_drawn := (k, s) # w_drawn w\<rparr>)" "?f\<lparr>em_data_struct := s, em_randomizer := rz, em_serializer := x\<rparr>" s]
  show thesis using rr x assms(4)
    by (simp add: construct_binary_data_def request_frame_counter_def Let_def s sc upd_fec_def em_fixed_def em_ok_def)
qed

lemma send_round_ok:
  assumes "zpp_documented z" "rng_documented r" "em_ok (fec_servers w ! k)" "k < length (fec_servers w)"
  obtains f' d s w' where "send_round z r now k i w = w'"
    "fec_servers w' = (fec_servers w)[k := f'\<lparr>em_senders := (em_senders (fec_servers w ! k))[i := Sd_check]\<rparr>]"
    "w_sent w' = (k, d) # w_sent w" "w_drawn w' = (k, s) # w_drawn w" "em_ok f'" "em_fixed f' = em_fixed (fec_servers w ! k)"
    "n_frames_sent f' = n_frames_sent (fec_servers w ! k) + 1"
    "is_switched_off f' = is_switched_off (fec_servers w ! k)"
    "frame_of_struct (em_fixed (fec_servers w ! k)) s d"
proof -
  obtain n f' s w1 where c: "construct_binary_data z r now k w = (Inr n, w1)"
    "fec_servers w1 = (fec_servers w)[k := f']" "w_sent w1 = w_sent w" "w_drawn w1 = (k, s) # w_drawn w" "em_ok f'"
    "em_fixed f' = em_fixed (fec_servers w ! k)"
    "n_frames_sent f' = n_frames_sent (fec_servers w ! k)" "em_senders f' = em_senders (fec_servers w ! k)"
    "is_switched_off f' = is_switched_off (fec_servers w ! k)"
    "frame_of_struct (em_fixed (fec_servers w ! k)) s (ser_view (em_serializer f') 0)"
    by (rule construct_binary_data_ok [OF assms, where now = now])
  show thesis
  proof (rule that [OF refl, where f' = "f'\<lparr>n_frames_sent := n_frames_sent f' + 1\<rparr>"])
    show "w_sent (send_round z r now k i w) = (k, ser_view (em_serializer f') 0) # w_sent w"
      and "w_drawn (send_round z r now k i w) = (k, s) # w_drawn w"
      using assms(4) c by (simp_all add: send_round_def Let_def set_sender_def)
    show "fec_servers (send_round z r now k i w) = (fec_servers w)[k :=
        f'\<lparr>n_frames_sent := n_frames_sent f' + 1\<rparr>\<lparr>em_senders := (em_senders (fec_servers w ! k))[i := Sd_check]\<rparr>]"
      using assms(4) c by (simp add: send_round_def Let_def set_sender_def upd_fec_def)
  qed (use c in \<open>simp_all add: em_ok_def em_fixed_def\<close>)
qed

lemma wd_inv_send:
  assumes "zpp_documented z" "rng_documented r" "wd_inv fxs w" "k < length (fec_servers w)"
  shows "wd_inv fxs (send_round z r now k i w)"
proof -
  obtain f' d sd w' where s: "send_round z r now k i w = w'"
    "fec_servers w' = (fec_servers w)[k := f'\<lparr>em_senders := (em_senders (fec_servers w ! k))[i := Sd_check]\<rparr>]"
    "w_sent w' = (k, d) # w_sent w" "w_drawn w' = (k, sd) # w_drawn w" "em_ok f'" "em_fixed f' = em_fixed (fec_servers w ! k)"
    "n_frames_sent f' = n_frames_sent (fec_servers w ! k) + 1"
    "is_switched_off f' = is_switched_off (fec_servers w ! k)"
    "frame_of_struct (em_fixed (fec_servers w ! k)) sd d"
    by (rule send_round_ok [OF assms(1,2) wd_inv_em_ok [OF assms(3,4)] assms(4), where now = now and i = i])
  have fxs: "fxs = map em_fixed (fec_servers w)" using assms(3) by (simp add: wd_inv_def)
  have "map em_fixed (fec_servers w') = (map em_fixed (fec_servers w))[k := em_fixed (fec_servers w ! k)]"
    using s(6) by (simp add: s(2) map_update em_fixed_def)
  also have "\<dots> = fxs" using assms(4) by (metis fxs list_update_id nth_map)
  finally have fixed: "map em_fixed (fec_servers w') = fxs" .
  have "list_all em_ok (fec_servers w')"
    using assms(3,4) s(5) by (auto simp: s(2) wd_inv_def list_all_length nth_list_update em_ok_def)
  moreover have "list_all2 (drawn_and_sent fxs) (w_sent w') (w_drawn w')"
    using assms(3,4) s(9) by (auto simp: s(3,4) wd_inv_def drawn_and_sent_def)
  moreover have "\<forall>j < length fxs. n_frames_sent (fec_servers w' ! j) = length (sent_by j w')"
    using assms(3,4) s(7) by (auto simp: s(2,3) wd_inv_def nth_list_update sent_by_def)
  ultimately show ?thesis using fixed s(1) by (simp add: wd_inv_def)
qed

lemma wd_inv_step:
  assumes "zpp_documented z" "rng_documented r" "wd_inv fxs w" "wd_step z r w w'"
  shows "wd_inv fxs w'"
  using assms(4,3)
  by (induction rule: wd_step.induct)
    (simp_all add: wd_inv_listen set_sender_def wd_inv_harmless wd_inv_send [OF assms(1,2)])

text \<open>The emulators after \<^verbatim>\<open>init\<close> and \<^verbatim>\<open>launch\<close>.\<close>

definition config_fixed :: "world_config \<Rightarrow> (u8 \<times> MinMax \<times> MinMax) list" where
  "config_fixed c = map (\<lambda>(i, fc). (of_nat i, cfg_n_hits fc, cfg_n_markers fc)) (enumerate 0 (cfg_FECs c))"

definition world_start :: "(nat \<Rightarrow> 'g) \<Rightarrow> world_config \<Rightarrow> ('g, 'e) World" where
  "world_start gens c = world_launch (world_init gens (mk_World c))"

lemma wd_inv_init: "wd_inv (config_fixed c) (world_init gens (mk_World c))"
proof -
  have "map em_fixed (fec_servers (world_init gens (mk_World c))) = config_fixed c"
    by (simp add: world_init_def mk_World_def config_fixed_def mk_FECEmulator_def em_fixed_def split_def)
  then show ?thesis
    by (auto simp: wd_inv_def world_init_def mk_World_def mk_FECEmulator_def em_ok_def list_all_iff
        mk_StructSerializer_def sent_by_def config_fixed_def nth_enumerate_eq)
qed

lemma wd_inv_launch: "wd_inv fxs w \<Longrightarrow> wd_inv fxs (world_launch w)"
proof -
  assume inv: "wd_inv fxs w"
  have run: "wd_inv fxs (fold wait_for_connection ks u) \<and> length (fec_servers (fold wait_for_connection ks u)) = length (fec_servers u)"
    if "wd_inv fxs u" "\<forall>k \<in> set ks. k < length (fec_servers u)" for ks u
    using that
  proof (induction ks arbitrary: u)
    case (Cons k ks)
    have "wd_inv fxs (wait_for_connection k u)" "length (fec_servers (wait_for_connection k u)) = length (fec_servers u)"
      using Cons.prems by (simp_all add: wait_for_connection_def wd_inv_on wd_inv_harmless do_if_acq_on_def Let_def)
    then show ?case using Cons by simp
  qed simp
  show ?thesis using run [OF inv, of "[0..<length (fec_servers w)]"] by (simp add: world_launch_def)
qed

interpretation wd: invariant_system
  "\<lambda>w. zpp_documented z \<and> rng_documented r \<and> w = world_start gens c" "wd_step z r"
  "\<lambda>w. zpp_documented z \<and> rng_documented r \<and> wd_inv (config_fixed c) w" for z r gens c
  by unfold_locales (auto simp: world_start_def wd_inv_launch wd_inv_init wd_inv_step)

text \<open>
  C22. Whatever commands arrive, however the coroutines of the emulators interleave and whatever
  is drawn, every datagram an emulator sends starts with the frame of a structure within range
  that carries the emulator's identifier and the tag VM3 and has as many hits and markers as the
  configuration allows, and the emulator counts them exactly.\<close>

theorem emulator_frames_valid:
  assumes "zpp_documented z" "rng_documented r" "steps (wd_step z r) (world_start gens c) w"
    "k < length (cfg_FECs c)"
  shows "n_frames_sent (fec_servers w ! k) = length (sent_by k w) \<and>
    (\<forall>d \<in> set (sent_by k w). \<exists>s. struct_in_range s \<and> take (length (frame_bytes s)) d = frame_bytes s \<and>
      fec_id (header s) = of_nat k \<and> vmm_tag (header s) = (0x56, 0x4D, 0x33) \<and>
      (min_max_ok (cfg_n_hits (cfg_FECs c ! k)) \<longrightarrow>
         in_min_max (cfg_n_hits (cfg_FECs c ! k)) (length (hit_data s))) \<and>
      (min_max_ok (cfg_n_markers (cfg_FECs c ! k)) \<longrightarrow>
         in_min_max (cfg_n_markers (cfg_FECs c ! k)) (length (marker_data s))))"
proof -
  have inv: "wd_inv (config_fixed c) w"
    using wd.inv_steps [OF assms(3), of c] assms(1,2) by (simp add: world_start_def wd_inv_launch wd_inv_init)
  have k: "k < length (config_fixed c)" using assms(4) by (simp add: config_fixed_def)
  have fx: "config_fixed c ! k = (of_nat k, cfg_n_hits (cfg_FECs c ! k), cfg_n_markers (cfg_FECs c ! k))"
    using assms(4) by (simp add: config_fixed_def nth_enumerate_eq)
  have "\<forall>d \<in> set (sent_by k w). \<exists>s. frame_of_struct (config_fixed c ! k) s d"
    using wd_inv_sent [OF inv] by (fastforce simp: sent_by_def)
  moreover have "n_frames_sent (fec_servers w ! k) = length (sent_by k w)"
    using inv k by (simp add: wd_inv_def)
  ultimately show ?thesis by (simp add: fx frame_of_struct_def)
qed

text \<open>A header followed by any elements.\<close>

definition words_frame :: "ReceiveDataHeader \<Rightarrow> 48 word list \<Rightarrow> bytes" where
  "words_frame h ws = header_bytes_of h @ concat (map element_bytes_of ws)"

definition struct_words :: "StructData \<Rightarrow> 48 word list" where
  "struct_words s = map hit_word (hit_data s) @ map marker_word (marker_data s)"

lemma frame_bytes_words: "frame_bytes s = words_frame (header s) (struct_words s)"
  by (simp add: frame_bytes_def words_frame_def struct_words_def)

lemma length_words_frame [simp]: "length (words_frame h ws) = 16 + 6 * length ws"
  by (simp only: words_frame_def length_append length_concat_elements length_header_bytes_of)

lemma drop_words_frame: "drop (16 + 6 * n) (words_frame h ws) = concat (map element_bytes_of (drop n ws))"
proof -
  have "drop (16 + 6 * n) (words_frame h ws) = drop (6 * n) (concat (map element_bytes_of ws))"
    by (simp add: words_frame_def)
  also have "drop (6 * n) (concat (map element_bytes_of ws)) = concat (map element_bytes_of (drop n ws))"
  proof (cases "n \<le> length ws")
    case True
    have l: "length (concat (map element_bytes_of (take n ws))) = 6 * n" using True by simp
    have "concat (map element_bytes_of ws) =
        concat (map element_bytes_of (take n ws)) @ concat (map element_bytes_of (drop n ws))"
      by (simp only: append_take_drop_id flip: concat_append map_append)
    then have "drop (6 * n) (concat (map element_bytes_of ws)) = drop (length (concat (map element_bytes_of (take n ws))))
        (concat (map element_bytes_of (take n ws)) @ concat (map element_bytes_of (drop n ws)))"
      by (simp only: l)
    then show ?thesis by (simp only: drop_append drop_all order_refl diff_self_eq_0 append_Nil drop_0)
  qed simp
  finally show ?thesis .
qed

lemma struct_of_words:
  "struct_of (words_frame h ws) = \<lparr>header = h,
     marker_data = map array_to_marker (filter (\<lambda>e. \<not> check_is_hit e) ws),
     hit_data = map array_to_hit (filter check_is_hit ws)\<rparr>"
proof -
  have "frame_elements (words_frame h ws) = ws"
    using elements_of_concat [of ws "[]"]
    by (simp add: frame_elements_def element_count_def) (simp add: words_frame_def)
  moreover have "header_of (words_frame h ws) = h"
    by (simp add: words_frame_def header_of_header_bytes_of)
  ultimately show ?thesis by (simp add: struct_of_def)
qed

text \<open>The hits and markers among the elements of a structure, and among a rest of them.\<close>

lemma struct_words_parts:
  assumes "struct_in_range s"
  shows "map array_to_hit (filter check_is_hit (drop n (struct_words s))) = drop n (hit_data s)"
    and "map array_to_marker (filter (\<lambda>e. \<not> check_is_hit e) (drop n (struct_words s))) =
      drop (n - length (hit_data s)) (marker_data s)"
proof -
  have h: "map array_to_hit (map hit_word hs) = hs" if "set hs \<subseteq> set (hit_data s)" for hs
    using that assms by (simp, intro map_idI) (auto simp: array_to_hit_hit_word struct_in_range_def list_all_iff)
  have m: "map array_to_marker (map marker_word ms) = ms" if "set ms \<subseteq> set (marker_data s)" for ms
    using that assms by (simp, intro map_idI) (auto simp: array_to_marker_marker_word struct_in_range_def list_all_iff)
  have d: "drop n (struct_words s) = map hit_word (drop n (hit_data s)) @
      map marker_word (drop (n - length (hit_data s)) (marker_data s))"
    by (simp add: struct_words_def drop_map)
  have f: "filter check_is_hit (map hit_word hs) = map hit_word hs"
    "filter (\<lambda>e. \<not> check_is_hit e) (map hit_word hs) = []"
    "filter check_is_hit (map marker_word ms) = []"
    "filter (\<lambda>e. \<not> check_is_hit e) (map marker_word ms) = map marker_word ms" for hs ms
    by (simp_all add: filter_empty_conv filter_id_conv hit_word_is_hit marker_word_is_marker)
  show "map array_to_hit (filter check_is_hit (drop n (struct_words s))) = drop n (hit_data s)"
    using h [of "drop n (hit_data s)"] by (simp only: d filter_append f append_Nil2 set_drop_subset)
  show "map array_to_marker (filter (\<lambda>e. \<not> check_is_hit e) (drop n (struct_words s))) =
      drop (n - length (hit_data s)) (marker_data s)"
    using m [of "drop (n - length (hit_data s)) (marker_data s)"]
    by (simp only: d filter_append f append_Nil set_drop_subset)
qed

text \<open>
  A frame shorter than an earlier one of the same emulator is sent with the rest of that
  one behind it, since the serialiser's buffer is never cleared: the receiver reads the header
  and elements of the new frame and then the elements the old frame had beyond them.\<close>

theorem emulator_stale_elements:
  assumes "zpp_documented z" "zpp_keeps_tail z" "struct_in_range s" "struct_in_range t"
    "hit_data t \<noteq> [] \<or> marker_data t \<noteq> []" "line < sd_n_lines sd"
  shows "let ss = snd (ser_convert z (mk_StructSerializer 1) s 0);
      datagram = ser_view (snd (ser_convert z ss t 0)) 0;
      n = length (hit_data t) + length (marker_data t)
    in fst (deser_run z sd datagram line) = Inr \<lparr>header = header t,
      marker_data = marker_data t @ drop (n - length (hit_data s)) (marker_data s),
      hit_data = hit_data t @ drop n (hit_data s)\<rparr>"
proof -
  obtain x where s: "ser_convert z (mk_StructSerializer 1) s 0 =
      (Inr (length (marker_data s) + length (hit_data s)),
       \<lparr>ss_output_data = [frame_bytes s], ss_compact_data_buffer = [x]\<rparr>)"
    using ser_convert_over [OF assms(1-3), of "mk_StructSerializer 1"] by (auto simp: mk_StructSerializer_def)
  let ?d = "frame_bytes t @ drop (length (frame_bytes t)) (frame_bytes s)"
  obtain y where t: "ser_convert z \<lparr>ss_output_data = [frame_bytes s], ss_compact_data_buffer = [x]\<rparr> t 0 =
      (Inr (length (marker_data t) + length (hit_data t)),
       \<lparr>ss_output_data = [?d], ss_compact_data_buffer = [y]\<rparr>)"
    using ser_convert_over [OF assms(1,2,4), of "\<lparr>ss_output_data = [frame_bytes s], ss_compact_data_buffer = [x]\<rparr>"]
    by auto
  let ?n = "length (hit_data t) + length (marker_data t)"
  have d: "?d = words_frame (header t) (struct_words t @ drop ?n (struct_words s))"
    using drop_words_frame [of ?n "header s" "struct_words s"]
    by (simp add: frame_bytes_words [of t] frame_bytes_words [of s])
      (simp add: struct_words_def words_frame_def)
  have "22 \<le> length ?d" using assms(5) by (auto simp: neq_Nil_conv)
  then have "fst (deser_run z sd ?d line) = Inr (struct_of ?d)"
    using assms(1,6) by (simp add: deser_run_def deser_convert_eq sd_n_lines_def)
  moreover have "struct_of ?d = \<lparr>header = header t,
      marker_data = marker_data t @ drop (?n - length (hit_data s)) (marker_data s),
      hit_data = hit_data t @ drop ?n (hit_data s)\<rparr>"
    by (simp only: d struct_of_words filter_append map_append struct_words_parts [OF assms(3)]
        struct_words_parts [OF assms(4), of 0, simplified])
  ultimately show ?thesis unfolding Let_def s snd_conv t ser_view_def by simp
qed

section \<open>Switching off\<close>

text \<open>The senders of an emulator that are about to send.\<close>

definition about_to_send :: "'g FECEmulator \<Rightarrow> nat" where
  "about_to_send f = count (mset (em_senders f)) Sd_send"

text \<open>A step after which emulator \<open>k\<close> is switched off.\<close>

definition off_step :: "zpp_bits \<Rightarrow> 'g rng \<Rightarrow> nat \<Rightarrow> ('g, 'e) World \<Rightarrow> ('g, 'e) World \<Rightarrow> bool" where
  "off_step z r k w w' \<longleftrightarrow> wd_step z r w w' \<and> is_switched_off (fec_servers w' ! k)"

lemma upd_fec_other: "j \<noteq> k \<Longrightarrow> fec_servers (upd_fec k f w) ! j = fec_servers w ! j"
  by (simp add: upd_fec_def)

lemma count_update:
  "i < length xs \<Longrightarrow> count (mset (xs[i := x])) y = count (mset xs) y - (if xs ! i = y then 1 else 0) + (if x = y then 1 else 0)"
  by (auto simp: mset_update)

lemma count_nth: "i < length xs \<Longrightarrow> xs ! i = y \<Longrightarrow> 0 < count (mset xs) y"
  by (metis count_greater_zero_iff nth_mem set_mset_mset)

lemma off_step_bound:
  assumes "zpp_documented z" "rng_documented r" "wd_inv fxs w" "k < length (fec_servers w)"
    "is_switched_off (fec_servers w ! k)" "off_step z r k w w'"
  shows "n_frames_sent (fec_servers w' ! k) + about_to_send (fec_servers w' ! k) \<le>
    n_frames_sent (fec_servers w ! k) + about_to_send (fec_servers w ! k)"
proof -
  have off: "is_switched_off (fec_servers w' ! k)" and st: "wd_step z r w w'"
    using assms(6) by (simp_all add: off_step_def)
  show ?thesis
    using st
  proof cases
    case (wd_message j e d)
    then show ?thesis
    proof (cases "check_receive_msg_type z (take SMALL_READ_MSG_BUFFER_SIZE d)")
      case acq_on
      with wd_message off assms(4) have "j \<noteq> k"
        by (auto simp: listen_round_def Let_def do_if_acq_on_def upd_fec_nth)
      with wd_message acq_on show ?thesis
        by (simp add: listen_round_def Let_def do_if_acq_on_def upd_fec_other)
    qed (use wd_message assms(4) in \<open>simp_all add: listen_round_def Let_def do_if_acq_off_def upd_fec_nth about_to_send_def\<close>)
  next
    case (wd_first_second j i)
    then show ?thesis using assms(4)
      by (simp add: set_sender_def upd_fec_nth about_to_send_def count_update)
  next
    case (wd_check j i)
    then show ?thesis using assms(4,5)
      by (cases "j = k") (simp_all add: set_sender_def upd_fec_nth about_to_send_def count_update)
  next
    case (wd_send j i now)
    obtain f' d sd w1 where s: "send_round z r now j i w = w1"
      "fec_servers w1 = (fec_servers w)[j := f'\<lparr>em_senders := (em_senders (fec_servers w ! j))[i := Sd_check]\<rparr>]"
      "w_sent w1 = (j, d) # w_sent w" "w_drawn w1 = (j, sd) # w_drawn w" "em_ok f'" "em_fixed f' = em_fixed (fec_servers w ! j)"
      "n_frames_sent f' = n_frames_sent (fec_servers w ! j) + 1"
      "is_switched_off f' = is_switched_off (fec_servers w ! j)"
      "frame_of_struct (em_fixed (fec_servers w ! j)) sd d"
      by (rule send_round_ok [OF assms(1,2) wd_inv_em_ok [OF assms(3) wd_send(2)] wd_send(2), where now = now and i = i])
    show ?thesis
      using wd_send s assms(4) count_nth [OF wd_send(3,4)]
      by (cases "j = k") (simp_all add: about_to_send_def count_update)
  next
    case (wd_abort j i i')
    then show ?thesis using assms(4)
      by (cases "j = k") (simp_all add: set_sender_def upd_fec_nth about_to_send_def count_update)
  qed
qed

lemma wd_inv_steps:
  "zpp_documented z \<Longrightarrow> rng_documented r \<Longrightarrow> steps (wd_step z r) (world_start gens c) w \<Longrightarrow> wd_inv (config_fixed c) w"
  using wd.inv_steps [of z r _ w c] by (simp add: world_start_def wd_inv_launch wd_inv_init)

text \<open>
  C23. Switching off stops an emulator: as long as it stays switched off it sends at most one more
  frame for every coroutine that had passed the test of the switch before, however long the
  world runs on.\<close>

theorem acq_off_stops_sending:
  assumes "zpp_documented z" "rng_documented r" "steps (wd_step z r) (world_start gens c) w"
    "k < length (cfg_FECs c)" "is_switched_off (fec_servers w ! k)" "steps (off_step z r k) w w'"
  shows "n_frames_sent (fec_servers w' ! k) \<le> n_frames_sent (fec_servers w ! k) + about_to_send (fec_servers w ! k)"
proof -
  have "n_frames_sent (fec_servers w' ! k) + about_to_send (fec_servers w' ! k) \<le>
      n_frames_sent (fec_servers w ! k) + about_to_send (fec_servers w ! k)"
    if "steps (off_step z r k) w w'" "wd_inv (config_fixed c) w" "is_switched_off (fec_servers w ! k)" for w w'
    using that
  proof (induction rule: steps.induct)
    case (steps_step u v x)
    have k: "k < length (fec_servers u)"
      using wd_inv_len [OF steps_step.prems(1)] assms(4) by (simp add: config_fixed_def)
    have "wd_inv (config_fixed c) v" "is_switched_off (fec_servers v ! k)"
      using steps_step.hyps(1) wd_inv_step [OF assms(1,2) steps_step.prems(1)] by (auto simp: off_step_def)
    then show ?case
      using off_step_bound [OF assms(1,2) steps_step.prems(1) k steps_step.prems(2) steps_step.hyps(1)] steps_step.IH
      by linarith
  qed simp
  from this [OF assms(6) wd_inv_steps [OF assms(1-3)] assms(5)] show ?thesis by linarith
qed

section \<open>The application and the emulators together\<close>

lemma listen_round_message:
  assumes "zpp_documented z" "k < length (fec_servers w)"
  shows "w_responses (listen_round z k e (message_bytes cl) w) = (k, e, response_bytes cl) # w_responses w"
    and "length (fec_servers (listen_round z k e (message_bytes cl) w)) = length (fec_servers w)"
    and "j < length (fec_servers w) \<Longrightarrow> is_switched_off (fec_servers (listen_round z k e (message_bytes cl) w) ! j) \<longleftrightarrow>
      (if j = k then cl = Stopper else is_switched_off (fec_servers w ! j))"
proof -
  have "length (message_bytes cl) = 24" by (simp add: message_bytes_def suffix_bytes_def)
  then have t: "take SMALL_READ_MSG_BUFFER_SIZE (message_bytes cl) = message_bytes cl"
    by (simp add: SMALL_READ_MSG_BUFFER_SIZE_def)
  have c: "check_receive_msg_type z (message_bytes cl) = receive_type_of cl"
    using check_receive_message [OF assms(1), of "[]"] by simp
  have m: "get_msg_from_receive_type z (receive_type_of cl) = response_bytes cl"
    by (rule get_msg_eq [OF assms(1)])
  let ?w = "w\<lparr>w_responses := (k, e, response_bytes cl) # w_responses w\<rparr>"
  have eq: "listen_round z k e (message_bytes cl) w = (case cl of Starter \<Rightarrow> do_if_acq_on k ?w
      | Stopper \<Rightarrow> let w = do_if_acq_off k ?w
          in if \<not> non_stop (w_config w) then upd_fec k (\<lambda>f. f\<lparr>em_listening := False\<rparr>) w else w)"
    unfolding listen_round_def t c send_response_def Let_def m by (cases cl) (simp_all add: receive_type_of_def)
  show "w_responses (listen_round z k e (message_bytes cl) w) = (k, e, response_bytes cl) # w_responses w"
    unfolding eq by (cases cl) (simp_all add: do_if_acq_on_def do_if_acq_off_def reset_frame_counter_def Let_def)
  show "length (fec_servers (listen_round z k e (message_bytes cl) w)) = length (fec_servers w)"
    unfolding eq by (cases cl) (simp_all add: do_if_acq_on_def do_if_acq_off_def Let_def)
  show "is_switched_off (fec_servers (listen_round z k e (message_bytes cl) w) ! j) \<longleftrightarrow>
      (if j = k then cl = Stopper else is_switched_off (fec_servers w ! j))" if "j < length (fec_servers w)"
    unfolding eq using that
    by (cases cl) (simp_all add: do_if_acq_on_def do_if_acq_off_def upd_fec_nth Let_def)
qed

lemma listen_round_other:
  assumes "j \<noteq> k"
  shows "fec_servers (listen_round z k e d w) ! j = fec_servers w ! j"
  using assms by (cases "check_receive_msg_type z (take SMALL_READ_MSG_BUFFER_SIZE d)")
    (simp_all add: listen_round_def Let_def do_if_acq_on_def do_if_acq_off_def upd_fec_other)

text \<open>A round of every emulator of \<open>ks\<close> on the message of a command.\<close>

definition commanded :: "(nat \<Rightarrow> 'e) \<Rightarrow> command_class \<Rightarrow> nat list \<Rightarrow> (nat \<times> 'e \<times> bytes) list" where
  "commanded ep cl ks = map (\<lambda>k. (k, ep k, message_bytes cl)) ks"

lemma mset_commanded:
  assumes "mset xs = mset (commanded ep cl ks)"
  shows "xs = commanded ep cl (map fst xs) \<and> mset (map fst xs) = mset ks"
proof -
  have "set xs = set (commanded ep cl ks)" using assms by (metis set_mset_mset)
  then have "\<forall>x \<in> set xs. x = (fst x, ep (fst x), message_bytes cl)" by (auto simp: commanded_def)
  then have "xs = commanded ep cl (map fst xs)" by (simp add: commanded_def map_idI)
  moreover have "mset (map fst xs) = mset ks"
    using arg_cong [OF assms, of "image_mset fst"] by (simp add: commanded_def multiset.map_comp comp_def)
  ultimately show ?thesis by blast
qed

definition receive_commands :: "zpp_bits \<Rightarrow> 'e \<Rightarrow> (nat \<times> 'd \<times> bytes) list \<Rightarrow> ('g, 'e) World \<Rightarrow> ('g, 'e) World" where
  "receive_commands z app xs w = fold (\<lambda>(k, e, d). listen_round z k app d) xs w"

lemma listen_rounds:
  assumes "zpp_documented z"
  shows "\<forall>k \<in> set ks. k < length (fec_servers w) \<and> em_listening (fec_servers w ! k) \<Longrightarrow> distinct ks \<Longrightarrow>
    steps (wd_step z r) w (receive_commands z app (commanded ep cl ks) w) \<and>
    w_responses (receive_commands z app (commanded ep cl ks) w) =
      rev (map (\<lambda>k. (k, app, response_bytes cl)) ks) @ w_responses w \<and>
    (\<forall>j < length (fec_servers w).
      is_switched_off (fec_servers (receive_commands z app (commanded ep cl ks) w) ! j) \<longleftrightarrow>
        (if j \<in> set ks then cl = Stopper else is_switched_off (fec_servers w ! j)))"
proof (induction ks arbitrary: w)
  case (Cons k ks)
  let ?w = "listen_round z k app (message_bytes cl) w"
  note r = listen_round_message [OF assms, where k = k and w = w and e = app and cl = cl]
  have k: "k < length (fec_servers w)" "em_listening (fec_servers w ! k)" using Cons.prems(1) by simp_all
  have "\<forall>j \<in> set ks. j < length (fec_servers ?w) \<and> em_listening (fec_servers ?w ! j)"
  proof
    fix j assume "j \<in> set ks"
    moreover from this Cons.prems(2) have "j \<noteq> k" by auto
    ultimately show "j < length (fec_servers ?w) \<and> em_listening (fec_servers ?w ! j)"
      using Cons.prems(1) r(2) [OF k(1)] listen_round_other [of j k z app "message_bytes cl" w] by simp
  qed
  moreover have "wd_step z r w ?w" by (rule wd_message [OF k])
  ultimately show ?case using Cons.IH [of ?w] Cons.prems(2) k(1)
    by (auto simp: r receive_commands_def commanded_def intro: steps_step)
qed (simp add: receive_commands_def commanded_def steps_refl)

lemma fs_inv_receive_all:
  "fs_inv cl eps rs s \<Longrightarrow> fs_inv cl eps (rev xs @ rs) (fold (\<lambda>(e, p). listen_received e p) xs s)"
proof (induction xs arbitrary: rs s)
  case (Cons x xs)
  obtain e p where "x = (e, p)" by (cases x)
  with Cons.IH [OF fs_inv_received [OF Cons.prems, of e p]] show ?case by simp
qed simp

lemma fs_inv_launch: "fs_inv cl eps rs s \<Longrightarrow> fs_inv cl eps rs (snd (launch_send_actions s))"
  by (simp add: launch_send_actions_def fs_inv_def connections_ok_def waiting_def)

text \<open>
  C24. The application and the emulators together: when the emulators addressed are different ones
  that listen, the datagrams that switching sends are rounds of their listening coroutines, in
  whatever order they arrive; every emulator addressed is then switched on or off as commanded,
  each has sent one answer, and when the answers arrive, in any order, the socket has nothing left
  to wait for.\<close>

theorem switching_emulators_completes:
  assumes "zpp_documented z" "\<forall>k \<in> set ks. k < length (fec_servers w) \<and> em_listening (fec_servers w ! k)"
    "distinct ks"
    "(datagrams, socket) = launch_send_actions (switch_FECs z cl name ne (map ep ks) mk_FecCommandSocket)"
    "mset arrived = mset (zip ks datagrams)" "w' = fold (\<lambda>(k, e, d). listen_round z k app d) arrived w"
    "mset answers = mset (map (\<lambda>(k, e, m). (ep k, m)) (take (length ks) (w_responses w')))"
  shows "steps (wd_step z r) w w' \<and>
    (\<forall>k \<in> set ks. is_switched_off (fec_servers w' ! k) \<longleftrightarrow> cl = Stopper) \<and>
    length (w_responses w') = length (w_responses w) + length ks \<and>
    is_finished (fold (\<lambda>(e, p). listen_received e p) answers socket)"
proof -
  let ?s = "switch_FECs z cl name ne (map ep ks) mk_FecCommandSocket"
  have d: "datagrams = map (\<lambda>k. (ep k, message_bytes cl)) ks"
    using fst_launch_switch [OF assms(1), of cl name ne "map ep ks"]
    by (simp add: assms(4) [symmetric] comp_def)
  have "zip ks datagrams = commanded ep cl ks" unfolding d commanded_def by (induction ks) simp_all
  then obtain js where js: "arrived = commanded ep cl js" "mset js = mset ks"
    using mset_commanded [of arrived ep cl ks] assms(5) by metis
  have set: "set js = set ks" "length js = length ks" "distinct js"
    using js(2) assms(3) by (metis set_mset_mset, metis size_mset, metis mset_eq_imp_distinct_iff)
  have w: "steps (wd_step z r) w w'" "w_responses w' = rev (map (\<lambda>k. (k, app, response_bytes cl)) js) @ w_responses w"
    "\<forall>k \<in> set ks. is_switched_off (fec_servers w' ! k) \<longleftrightarrow> cl = Stopper"
    using listen_rounds [OF assms(1), of js w r app ep cl] assms(2) set
    by (simp_all add: assms(6) js(1) receive_commands_def)
  have a: "mset answers = mset (map (\<lambda>k. (ep k, response_bytes cl)) ks)"
    using js(2) set(2) by (simp add: assms(7) w(2) rev_map [symmetric] comp_def)
  have "fs_inv cl (map ep ks) (rev answers) (fold (\<lambda>(e, p). listen_received e p) answers socket)"
    using fs_inv_receive_all [OF fs_inv_launch [OF fs_inv_switch_FECs [OF assms(1) fs_inv_start, of cl "map ep ks" name ne]],
      where xs = answers] assms(4) by (metis append_Nil append_Nil2 snd_conv)
  moreover have "count_list (map ep ks) e \<le> count_list (rev answers) (e, response_bytes cl)" for e
  proof -
    have "count_list (rev answers) (e, response_bytes cl) = count (mset answers) (e, response_bytes cl)"
      by (simp add: count_mset)
    also have "\<dots> = count_list (map (\<lambda>k. (ep k, response_bytes cl)) ks) (e, response_bytes cl)"
      by (simp only: a count_mset)
    also have "\<dots> = count_list (map ep ks) e" by (induction ks) simp_all
    finally show ?thesis by simp
  qed
  ultimately show ?thesis using w set(2) by (simp add: fs_inv_finished)
qed

section \<open>Concrete runs\<close>

definition sample_fec_config :: FecConfig where
  "sample_fec_config = \<lparr>cfg_ip = ''127.0.0.1'', cfg_port = 6600, is_sent_data_only = False, remote_data_port = 6006,
     cfg_n_hits = \<lparr>mm_min = 1, mm_max = 2\<rparr>, cfg_n_markers = \<lparr>mm_min = 0, mm_max = 1\<rparr>\<rparr>"

definition sample_world_config :: world_config where
  "sample_world_config = \<lparr>frame_wait_time_ns = 1000, non_stop = True, cfg_FECs = [sample_fec_config]\<rparr>"

definition sample_world :: "(nat, unit) World" where
  "sample_world = world_start (\<lambda>_. 0) sample_world_config"

lemmas sample_world_defs = sample_world_def world_start_def world_launch_def world_init_def mk_World_def
  sample_world_config_def sample_fec_config_def mk_FECEmulator_def wait_for_connection_def upd_fec_def

lemma sample_world_server:
  "length (fec_servers sample_world) = 1" "em_listening (fec_servers sample_world ! 0)"
  "is_switched_off (fec_servers sample_world ! 0)" "em_senders (fec_servers sample_world ! 0) = []"
  "n_frames_sent (fec_servers sample_world ! 0) = 0"
  by (simp_all add: sample_world_defs)

definition sample_world_on :: "(nat, unit) World" where
  "sample_world_on = listen_round zpp_ref 0 () (message_bytes Starter) sample_world"

lemma listen_round_on:
  "listen_round zpp_ref 0 () (message_bytes Starter) w =
     do_if_acq_on 0 (w\<lparr>w_responses := (0, (), response_bytes Starter) # w_responses w\<rparr>)"
proof -
  have "take SMALL_READ_MSG_BUFFER_SIZE (message_bytes Starter) = message_bytes Starter"
    by (simp add: SMALL_READ_MSG_BUFFER_SIZE_def message_bytes_def suffix_bytes_def)
  moreover have "check_receive_msg_type zpp_ref (message_bytes Starter) = acq_on"
    using check_receive_message [of zpp_ref "[]" Starter] by (simp add: receive_type_of_def)
  moreover have "get_msg_from_receive_type zpp_ref acq_on = response_bytes Starter"
    using get_msg_eq [of zpp_ref Starter] by (simp add: receive_type_of_def)
  ultimately show ?thesis by (simp add: listen_round_def Let_def)
qed

lemma sample_world_on_steps:
  "steps (wd_step zpp_ref rng_ref) sample_world
     (send_round zpp_ref rng_ref 7 0 0 (set_sender 0 0 Sd_send (set_sender 0 0 Sd_check sample_world_on)))"
proof -
  have on: "length (fec_servers sample_world_on) = 1" "em_senders (fec_servers sample_world_on ! 0) = [Sd_wait]"
    "\<not> is_switched_off (fec_servers sample_world_on ! 0)"
    using sample_world_server
    by (simp_all add: sample_world_on_def listen_round_on do_if_acq_on_def Let_def upd_fec_nth)
  let ?w1 = "set_sender 0 0 Sd_check sample_world_on"
  have w1: "length (fec_servers ?w1) = 1" "em_senders (fec_servers ?w1 ! 0) = [Sd_check]"
    "\<not> is_switched_off (fec_servers ?w1 ! 0)"
    using on by (simp_all add: set_sender_def upd_fec_nth)
  let ?w2 = "set_sender 0 0 Sd_send ?w1"
  have w2: "length (fec_servers ?w2) = 1" "em_senders (fec_servers ?w2 ! 0) = [Sd_send]"
    using w1 by (simp_all add: set_sender_def upd_fec_nth)
  have "wd_step zpp_ref rng_ref sample_world sample_world_on"
    unfolding sample_world_on_def by (rule wd_message) (simp_all add: sample_world_server)
  moreover have "wd_step zpp_ref rng_ref sample_world_on ?w1"
    by (rule wd_first_second) (simp_all add: on)
  moreover have "wd_step zpp_ref rng_ref ?w1 ?w2"
    using wd_check [of 0 ?w1 0 zpp_ref rng_ref] w1 by simp
  moreover have "wd_step zpp_ref rng_ref ?w2 (send_round zpp_ref rng_ref 7 0 0 ?w2)"
    by (rule wd_send) (simp_all add: w2)
  ultimately show ?thesis by (blast intro: steps_step steps_refl)
qed

lemma emulator_frames_valid_witness:
  "let w = send_round zpp_ref rng_ref 7 0 0 (set_sender 0 0 Sd_send (set_sender 0 0 Sd_check sample_world_on))
   in n_frames_sent (fec_servers w ! 0) = length (sent_by 0 w)"
  using emulator_frames_valid [OF zpp_ref_documented rng_ref_documented sample_world_on_steps [unfolded sample_world_def], of 0]
  by (simp add: Let_def sample_world_config_def)

lemma emulator_stale_elements_witness:
  "let t = sample_struct\<lparr>hit_data := []\<rparr>;
      ss = snd (ser_convert zpp_ref (mk_StructSerializer 1) sample_struct 0);
      datagram = ser_view (snd (ser_convert zpp_ref ss t 0)) 0
    in fst (deser_run zpp_ref (mk_StructDeserializer 1) datagram 0) = Inr \<lparr>header = header t,
      marker_data = marker_data t @ marker_data sample_struct, hit_data = []\<rparr>"
  using emulator_stale_elements [of zpp_ref sample_struct "sample_struct\<lparr>hit_data := []\<rparr>" 0 "mk_StructDeserializer 1"]
    sample_struct_in_range
  by (simp add: Let_def struct_in_range_def sd_n_lines_def mk_StructDeserializer_def) (simp add: sample_struct_def)

lemma acq_off_stops_sending_witness:
  "n_frames_sent (fec_servers (listen_round zpp_ref 0 () [] sample_world) ! 0) = 0"
proof -
  have inv: "listen_round zpp_ref 0 () [] sample_world = sample_world\<lparr>w_responses := (0, (), []) # w_responses sample_world\<rparr>"
    by (simp add: listen_round_def Let_def check_receive_eq ends_with_def)
  have "wd_step zpp_ref rng_ref sample_world (listen_round zpp_ref 0 () [] sample_world)"
    by (rule wd_message) (simp_all add: sample_world_server)
  then have "steps (off_step zpp_ref rng_ref 0) sample_world (listen_round zpp_ref 0 () [] sample_world)"
    by (intro steps_one) (simp add: off_step_def inv sample_world_server)
  from acq_off_stops_sending [OF zpp_ref_documented rng_ref_documented
      steps_refl [of _ sample_world, unfolded sample_world_def] _ _ this [unfolded sample_world_def]]
  show ?thesis
    using sample_world_server unfolding sample_world_def [symmetric]
    by (simp add: sample_world_config_def about_to_send_def)
qed

lemma switching_emulators_completes_witness:
  "is_finished (listen_received (5 :: nat) (response_bytes Starter)
     (snd (launch_send_actions (switch_FECs zpp_ref Starter ''Starter'' 0 [5] mk_FecCommandSocket))))"
proof -
  let ?x = "launch_send_actions (switch_FECs zpp_ref Starter ''Starter'' (0 :: nat) (map (\<lambda>_. 5) [0 :: nat]) mk_FecCommandSocket)"
  have "fst ?x = [(5, message_bytes Starter)]"
    using fst_launch_switch [OF zpp_ref_documented, of Starter "''Starter''" "0 :: nat" "[5]"] by simp
  then have x: "([(5, message_bytes Starter)], snd ?x) = ?x" by (metis prod.collapse)
  show ?thesis
    using switching_emulators_completes [OF zpp_ref_documented _ _ x _ refl, of sample_world _ "[(5, response_bytes Starter)]" "()" undefined]
    by (simp add: sample_world_server listen_round_on do_if_acq_on_def reset_frame_counter_def Let_def)
qed

end
