(* ===== verification/App_Lifecycle.thy ===== *)
theory App_Lifecycle
  imports Sink_Manager Buffer_Queue Fec_Socket
begin

text \<open>
  The life of the application: \<^verbatim>\<open>Config\<close> (\<^verbatim>\<open>devices/Configuration.hpp\<close>), \<^verbatim>\<open>App\<close>
  (\<^verbatim>\<open>Application.{hpp,cpp}\<close>), the parts of \<^verbatim>\<open>workflow::AnalysisHandle\<close> that it starts
  and stops, and the action modes of \<^verbatim>\<open>srs_control.cpp\<close>. What the operating system answers
  (name resolution, binding a port, how long a future takes) is the environment \<open>app_env\<close>.
  A step of the program ends normally, with an exception, by blocking for ever, or with
  undefined behaviour (the use of a value that is not there). The exit runs after the actions
  of the main function here, as it does when it is triggered while the workflow is running.
\<close>

section \<open>Outcomes\<close>

datatype app_exception = Ex_sink sink_error | Ex_resolve string | Ex_port int

datatype undefined_use = Missing_future | Missing_task_diagram

datatype 'a outcome = Done 'a | Throws app_exception 'a | Undefined undefined_use | Blocks

fun o_bind :: "'a outcome \<Rightarrow> ('a \<Rightarrow> 'a outcome) \<Rightarrow> 'a outcome" where
  "o_bind (Done a) f = f a"
| "o_bind (Throws e a) f = Throws e a"
| "o_bind (Undefined u) f = Undefined u"
| "o_bind Blocks f = Blocks"

section \<open>Configuration\<close>

datatype DataPrintMode = print_speed | print_header | print_raw | print_all

datatype ActionMode = am_all | am_acq_on | am_acq_off | am_read_only | am_none

record Config =
  fec_control_local_port :: int
  fec_control_remote_port :: int
  fec_data_receive_ports :: "int list"
  data_buffer_size :: nat
  remote_fec_ips :: "string list"
  buffer_queue_capacity :: nat
  output_filenames :: "string list"
  output_split :: nat
  time_wait_after_acq_off_ms :: nat
  enable_frame_counter_check :: bool
  warn_if_data_drop :: bool
  show_thread_id :: bool
  data_print_mode :: DataPrintMode

definition DEFAULT_SRS_CONTROL_PORT :: int where "DEFAULT_SRS_CONTROL_PORT = 6600"

definition default_Config :: Config where
  "default_Config = \<lparr>fec_control_local_port = 6007, fec_control_remote_port = DEFAULT_SRS_CONTROL_PORT,
     fec_data_receive_ports = [6006], data_buffer_size = 80000, remote_fec_ips = [''10.0.0.2''],
     buffer_queue_capacity = 100, output_filenames = [], output_split = 1,
     time_wait_after_acq_off_ms = 1000, enable_frame_counter_check = False, warn_if_data_drop = False,
     show_thread_id = False, data_print_mode = print_speed\<rparr>"

section \<open>The analysis handle\<close>

text \<open>\<open>ah_task_diagram\<close>: whether the task diagram exists, that is, whether \<^verbatim>\<open>start\<close> has
  run. \<open>ah_stop_markers\<close>: the sizes of the bulks of stop markers queued, newest first.\<close>

record AnalysisHandle =
  ah_is_data_drop_warn :: bool
  ah_n_lines :: nat
  ah_is_stopped :: bool
  ah_print_mode :: DataPrintMode
  ah_writers :: Manager
  ah_queue_config :: bq_Config
  ah_task_diagram :: bool
  ah_monitors :: nat
  ah_stop_markers :: "nat list"

definition mk_AnalysisHandle :: "Config \<Rightarrow> nat \<Rightarrow> AnalysisHandle" where
  "mk_AnalysisHandle cfg n_lines = \<lparr>ah_is_data_drop_warn = warn_if_data_drop cfg, ah_n_lines = n_lines,
     ah_is_stopped = True, ah_print_mode = print_speed,
     ah_writers = (if enable_frame_counter_check cfg then enable_frame_count_checker mk_Manager else mk_Manager),
     ah_queue_config = \<lparr>buffer_size = data_buffer_size cfg, reserve_size = buffer_queue_capacity cfg div 2,
       queue_capacity = buffer_queue_capacity cfg\<rparr>,
     ah_task_diagram = False, ah_monitors = 0, ah_stop_markers = []\<rparr>"

text \<open>\<^verbatim>\<open>start\<close>, up to the run of the task diagram: a frame monitor and the speed monitor are
  started on demand.\<close>

definition ah_start :: "Config \<Rightarrow> AnalysisHandle \<Rightarrow> AnalysisHandle" where
  "ah_start cfg h =
     (let h = h\<lparr>ah_is_stopped := False\<rparr>;
          h = h\<lparr>ah_task_diagram := True\<rparr>;
          h = (if enable_frame_counter_check cfg \<and> frame_count_checker (ah_writers h) \<noteq> None
               then h\<lparr>ah_monitors := ah_monitors h + 1\<rparr> else h)
      in if ah_print_mode h = print_speed then h\<lparr>ah_monitors := ah_monitors h + 1\<rparr> else h)"

definition ah_stop_monitor :: "AnalysisHandle \<Rightarrow> AnalysisHandle" where
  "ah_stop_monitor h = h\<lparr>ah_monitors := 0\<rparr>"

text \<open>\<^verbatim>\<open>stop_workflow\<close> waits for the task diagram; only the call that turns the flag queues
  the stop markers.\<close>

definition ah_stop_workflow :: "AnalysisHandle \<Rightarrow> AnalysisHandle option" where
  "ah_stop_workflow h =
     (if \<not> ah_task_diagram h then None
      else if \<not> ah_is_stopped h
      then Some (h\<lparr>ah_is_stopped := True, ah_stop_markers := ah_n_lines h # ah_stop_markers h\<rparr>)
      else Some h)"

text \<open>\<^verbatim>\<open>print_statistics\<close> goes through the task diagram without asking for it.\<close>

definition ah_print_statistics :: "AnalysisHandle \<Rightarrow> undefined_use option" where
  "ah_print_statistics h = (if ah_task_diagram h then None else Some Missing_task_diagram)"

section \<open>The application\<close>

datatype future_status = ready | timeout | deferred

text \<open>\<^verbatim>\<open>std::expected<std::future<void>, std::error_code>\<close>: an error, a future without a shared
  state, or one with it.\<close>

datatype SwitchFuture = Unexpected string | Fut_invalid | Fut_valid

datatype cancel_method = No_cancel | By_signal | By_timer nat

text \<open>\<open>ae_bind n port\<close>: the error of the \<open>n\<close>-th bind of the run, if it fails.
  \<open>ae_status\<close>: the status after the wait for the switch-on and the switch-off future.\<close>

record app_env =
  ae_sink :: sink_env
  ae_zpp :: zpp_bits
  ae_resolve :: "string \<Rightarrow> int \<Rightarrow> string + endpoint list"
  ae_bind :: "nat \<Rightarrow> int \<Rightarrow> string option"
  ae_on_status :: future_status
  ae_off_status :: future_status

record App =
  app_config :: Config
  runtime_sec :: nat
  remote_fec_endpoints :: "endpoint list"
  switch_on_future :: SwitchFuture
  switch_off_future :: SwitchFuture
  workflow_handler :: "AnalysisHandle option"
  data_sockets :: "int list"
  cancelled_sockets :: "int list"
  app_cancel :: cancel_method
  app_binds :: nat
  app_datagrams :: "(endpoint \<times> bytes) list"

definition mk_App :: "Config \<Rightarrow> App" where
  "mk_App cfg = \<lparr>app_config = cfg, runtime_sec = 0, remote_fec_endpoints = [], switch_on_future = Fut_invalid,
     switch_off_future = Fut_invalid, workflow_handler = None, data_sockets = [], cancelled_sockets = [],
     app_cancel = No_cancel, app_binds = 0, app_datagrams = []\<rparr>"

definition app_set_print_mode :: "DataPrintMode \<Rightarrow> App \<Rightarrow> App" where
  "app_set_print_mode mode a = a\<lparr>app_config := (app_config a)\<lparr>data_print_mode := mode\<rparr>\<rparr>"

definition app_set_output_filenames :: "string list \<Rightarrow> nat \<Rightarrow> App \<Rightarrow> App" where
  "app_set_output_filenames filenames n_lines a =
     a\<lparr>app_config := (app_config a)\<lparr>output_filenames := filenames, output_split := n_lines\<rparr>\<rparr>"

definition set_runtime_sec :: "nat \<Rightarrow> App \<Rightarrow> App" where
  "set_runtime_sec n a = a\<lparr>runtime_sec := n\<rparr>"

definition add_remote_fec_endpoint :: "app_env \<Rightarrow> string \<Rightarrow> int \<Rightarrow> App \<Rightarrow> App outcome" where
  "add_remote_fec_endpoint env remote_ip port_number a =
     (case ae_resolve env remote_ip port_number of
        Inl e \<Rightarrow> Throws (Ex_resolve e) a
      | Inr [] \<Rightarrow> Done a
      | Inr (ep # _) \<Rightarrow> Done (a\<lparr>remote_fec_endpoints := remote_fec_endpoints a @ [ep]\<rparr>))"

fun add_all_endpoints :: "app_env \<Rightarrow> string list \<Rightarrow> App \<Rightarrow> App outcome" where
  "add_all_endpoints env [] a = Done a"
| "add_all_endpoints env (ip # ips) a =
     o_bind (add_remote_fec_endpoint env ip DEFAULT_SRS_CONTROL_PORT a) (add_all_endpoints env ips)"

definition set_remote_fec_endpoints :: "app_env \<Rightarrow> App \<Rightarrow> App outcome" where
  "set_remote_fec_endpoints env a = add_all_endpoints env (remote_fec_ips (app_config a)) a"

definition check_port_number_validity :: "App \<Rightarrow> App outcome" where
  "check_port_number_validity a =
     (if fec_control_local_port (app_config a) \<in> set (fec_data_receive_ports (app_config a))
      then Throws (Ex_port (fec_control_local_port (app_config a))) a else Done a)"

definition set_cancel_method :: "App \<Rightarrow> App" where
  "set_cancel_method a = a\<lparr>app_cancel := (if runtime_sec a = 0 then By_signal else By_timer (runtime_sec a))\<rparr>"

definition app_init :: "app_env \<Rightarrow> App \<Rightarrow> App outcome" where
  "app_init env a =
     (let cfg = app_config a;
          h = mk_AnalysisHandle cfg (output_split cfg);
          h = h\<lparr>ah_print_mode := data_print_mode cfg\<rparr>;
          (res, m) = set_output_filenames ((ae_sink env)\<lparr>env_n_lines := output_split cfg\<rparr>)
             (output_filenames cfg) (ah_writers h);
          a = a\<lparr>workflow_handler := Some (h\<lparr>ah_writers := m\<rparr>)\<rparr>
      in case res of
           Inl e \<Rightarrow> Throws (Ex_sink e) a
         | Inr _ \<Rightarrow> o_bind (o_bind (set_remote_fec_endpoints env a) check_port_number_validity)
             (\<lambda>a. Done (set_cancel_method a)))"

text \<open>\<^verbatim>\<open>create\<close> of a socket binds it.\<close>

definition app_bind :: "app_env \<Rightarrow> int \<Rightarrow> App \<Rightarrow> string option \<times> App" where
  "app_bind env port a = (ae_bind env (app_binds a) port, a\<lparr>app_binds := app_binds a + 1\<rparr>)"

definition app_switch_FECs :: "app_env \<Rightarrow> command_class \<Rightarrow> string \<Rightarrow> App \<Rightarrow> SwitchFuture \<times> App" where
  "app_switch_FECs env cl connection_name a =
     (let (err, a) = app_bind env (fec_control_local_port (app_config a)) a
      in case err of
           Some e \<Rightarrow> (Unexpected e, a)
         | None \<Rightarrow>
             let s = switch_FECs (ae_zpp env) cl connection_name ('''', 0) (remote_fec_endpoints a) mk_FecCommandSocket;
                 (datagrams, s) = launch_send_actions s
             in (Fut_valid, a\<lparr>app_datagrams := app_datagrams a @ datagrams\<rparr>))"

definition switch_on :: "app_env \<Rightarrow> App \<Rightarrow> App" where
  "switch_on env a = (let (f, a) = app_switch_FECs env Starter ''Starter'' a in a\<lparr>switch_on_future := f\<rparr>)"

definition switch_off :: "app_env \<Rightarrow> App \<Rightarrow> App" where
  "switch_off env a = (let (f, a) = app_switch_FECs env Stopper ''Stopper'' a in a\<lparr>switch_off_future := f\<rparr>)"

definition read_data_port :: "app_env \<Rightarrow> int \<Rightarrow> App \<Rightarrow> App" where
  "read_data_port env port a =
     (let (err, a) = app_bind env port a
      in case err of Some _ \<Rightarrow> a | None \<Rightarrow> a\<lparr>data_sockets := data_sockets a @ [port]\<rparr>)"

definition read_data :: "app_env \<Rightarrow> App \<Rightarrow> App" where
  "read_data env a = fold (read_data_port env) (fec_data_receive_ports (app_config a)) a"

definition start_workflow :: "App \<Rightarrow> App" where
  "start_workflow a = a\<lparr>workflow_handler := map_option (ah_start (app_config a)) (workflow_handler a)\<rparr>"

text \<open>The arrow on an expected value that holds an error is undefined.\<close>

definition wait_for_switch_action :: "future_status \<Rightarrow> SwitchFuture \<Rightarrow> undefined_use + future_status option" where
  "wait_for_switch_action st f =
     (case f of Unexpected _ \<Rightarrow> Inl Missing_future | Fut_invalid \<Rightarrow> Inr None | Fut_valid \<Rightarrow> Inr (Some st))"

definition wait_for_reading_finish :: "App \<Rightarrow> App" where
  "wait_for_reading_finish a = a\<lparr>cancelled_sockets := cancelled_sockets a @ data_sockets a\<rparr>"

definition exit_and_switch_off :: "app_env \<Rightarrow> App \<Rightarrow> App outcome" where
  "exit_and_switch_off env a =
     (let a = a\<lparr>app_cancel := No_cancel\<rparr>;
          a = a\<lparr>workflow_handler := map_option ah_stop_monitor (workflow_handler a)\<rparr>
      in case wait_for_switch_action (ae_on_status env) (switch_on_future a) of
           Inl u \<Rightarrow> Undefined u
         | Inr st \<Rightarrow>
             let a = (if st = Some ready then switch_off env a else a);
                 a = wait_for_reading_finish a
             in case workflow_handler a of
                  None \<Rightarrow> Undefined Missing_task_diagram
                | Some h \<Rightarrow>
                    (case ah_stop_workflow h of
                       None \<Rightarrow> Blocks
                     | Some h \<Rightarrow> Done (a\<lparr>workflow_handler := Some h\<rparr>)))"

text \<open>The destructor, then the helper that is destroyed after the handler.\<close>

definition action_after_destructor :: "app_env \<Rightarrow> App \<Rightarrow> App outcome" where
  "action_after_destructor env a =
     (case wait_for_switch_action (ae_off_status env) (switch_off_future a) of
        Inl u \<Rightarrow> Undefined u | Inr _ \<Rightarrow> Done a)"

definition destroy_App :: "app_env \<Rightarrow> App \<Rightarrow> App outcome" where
  "destroy_App env a =
     (case workflow_handler a of
        None \<Rightarrow> action_after_destructor env a
      | Some h \<Rightarrow>
          (case ah_print_statistics h of
             Some u \<Rightarrow> Undefined u
           | None \<Rightarrow> action_after_destructor env (a\<lparr>workflow_handler := None\<rparr>)))"

text \<open>The action modes of the main function. The two modes that wait for the workflow return
  when the exit has stopped it.\<close>

fun run_action :: "app_env \<Rightarrow> ActionMode \<Rightarrow> App \<Rightarrow> App outcome" where
  "run_action env am_all a = exit_and_switch_off env (switch_on env (read_data env (start_workflow a)))"
| "run_action env am_acq_on a = Done (switch_on env a)"
| "run_action env am_acq_off a = Done (switch_off env a)"
| "run_action env am_read_only a = exit_and_switch_off env (read_data env (start_workflow a))"
| "run_action env am_none a = Done a"

text \<open>An exception is caught after the application has been destroyed.\<close>

definition main_run :: "app_env \<Rightarrow> Config \<Rightarrow> DataPrintMode \<Rightarrow> nat \<Rightarrow> ActionMode \<Rightarrow> App outcome" where
  "main_run env cfg print_mode n mode =
     (let a = set_runtime_sec n (app_set_print_mode print_mode (mk_App cfg))
      in case o_bind (app_init env a) (run_action env mode) of
           Done a \<Rightarrow> destroy_App env a
         | Throws e a \<Rightarrow> destroy_App env a
         | Undefined u \<Rightarrow> Undefined u
         | Blocks \<Rightarrow> Blocks)"

section \<open>What initialisation leaves\<close>

text \<open>Whether an outcome, with or without an exception, satisfies a predicate.\<close>

fun o_all :: "('a \<Rightarrow> bool) \<Rightarrow> 'a outcome \<Rightarrow> bool" where
  "o_all P (Done a) = P a"
| "o_all P (Throws e a) = P a"
| "o_all P (Undefined u) = False"
| "o_all P Blocks = False"

lemma o_all_bind: "o_all P r \<Longrightarrow> (\<And>a. P a \<Longrightarrow> o_all P (f a)) \<Longrightarrow> o_all P (o_bind r f)"
  by (cases r) auto

lemma o_bind_Done [simp]: "o_bind r f = Done b \<longleftrightarrow> (\<exists>a. r = Done a \<and> f a = Done b)"
  by (cases r) auto

definition not_started :: "App \<Rightarrow> bool" where
  "not_started a \<longleftrightarrow> (case workflow_handler a of None \<Rightarrow> False | Some h \<Rightarrow> \<not> ah_task_diagram h)"

lemma add_all_endpoints_handler:
  "not_started a \<Longrightarrow> o_all not_started (add_all_endpoints env ips a)"
proof (induction ips arbitrary: a)
  case (Cons ip ips)
  have "o_all not_started (add_remote_fec_endpoint env ip DEFAULT_SRS_CONTROL_PORT a)"
    using Cons.prems by (simp add: add_remote_fec_endpoint_def not_started_def split: sum.split list.split)
  then show ?case by (simp add: o_all_bind Cons.IH)
qed simp

lemma app_init_not_started: "o_all not_started (app_init env a)"
proof -
  let ?h = "(mk_AnalysisHandle (app_config a) (output_split (app_config a)))\<lparr>ah_print_mode := data_print_mode (app_config a)\<rparr>"
  obtain res m where m: "set_output_filenames ((ae_sink env)\<lparr>env_n_lines := output_split (app_config a)\<rparr>)
      (output_filenames (app_config a)) (ah_writers (mk_AnalysisHandle (app_config a) (output_split (app_config a)))) = (res, m)"
    by fastforce
  let ?a = "a\<lparr>workflow_handler := Some (?h\<lparr>ah_writers := m\<rparr>)\<rparr>"
  have a: "not_started ?a" by (simp add: not_started_def mk_AnalysisHandle_def)
  have "o_all not_started (set_remote_fec_endpoints env ?a)"
    using add_all_endpoints_handler [OF a] by (simp add: set_remote_fec_endpoints_def)
  then have "o_all not_started (o_bind (o_bind (set_remote_fec_endpoints env ?a) check_port_number_validity)
      (\<lambda>a. Done (set_cancel_method a)))"
    by (intro o_all_bind) (simp_all add: check_port_number_validity_def, simp add: not_started_def set_cancel_method_def)
  with a show ?thesis by (cases res) (simp_all add: app_init_def Let_def m)
qed

lemma switch_handler [simp]:
  "workflow_handler (switch_on env a) = workflow_handler a" "workflow_handler (switch_off env a) = workflow_handler a"
  by (simp_all add: switch_on_def switch_off_def app_switch_FECs_def app_bind_def split_def Let_def split: option.split)

lemma destroy_not_started: "not_started a \<Longrightarrow> destroy_App env a = Undefined Missing_task_diagram"
  by (auto simp: not_started_def destroy_App_def ah_print_statistics_def split: option.splits)

section \<open>Initialisation\<close>

definition resolved :: "app_env \<Rightarrow> string \<Rightarrow> endpoint list" where
  "resolved env ip = (case ae_resolve env ip DEFAULT_SRS_CONTROL_PORT of Inr (ep # _) \<Rightarrow> [ep] | _ \<Rightarrow> [])"

lemma add_all_endpoints_done:
  "add_all_endpoints env ips a = Done b \<Longrightarrow>
     b = a\<lparr>remote_fec_endpoints := remote_fec_endpoints a @ concat (map (resolved env) ips)\<rparr> \<and>
     (\<forall>ip \<in> set ips. \<exists>eps. ae_resolve env ip DEFAULT_SRS_CONTROL_PORT = Inr eps)"
proof (induction ips arbitrary: a)
  case (Cons ip ips)
  then show ?case
    by (force simp: add_remote_fec_endpoint_def resolved_def split: sum.splits list.splits)
qed simp

text \<open>
  C25. An initialisation that ends normally has made the sinks of the configured outputs for the
  configured number of lines, has resolved every FEC address with the default control port
  (whatever remote port is configured) and kept the first endpoint of each, has made sure that
  the control port receives no data, and has chosen between the signal and the timer by the run
  time.\<close>

theorem app_init_outcome:
  assumes "app_init env a = Done b"
  shows "(\<exists>h. workflow_handler b = Some h \<and> ah_n_lines h = output_split (app_config a) \<and>
      set_output_filenames ((ae_sink env)\<lparr>env_n_lines := output_split (app_config a)\<rparr>) (output_filenames (app_config a))
        (ah_writers (mk_AnalysisHandle (app_config a) (output_split (app_config a)))) = (Inr (), ah_writers h)) \<and>
    remote_fec_endpoints b = remote_fec_endpoints a @ concat (map (resolved env) (remote_fec_ips (app_config a))) \<and>
    (\<forall>ip \<in> set (remote_fec_ips (app_config a)). \<exists>eps. ae_resolve env ip 6600 = Inr eps) \<and>
    fec_control_local_port (app_config a) \<notin> set (fec_data_receive_ports (app_config a)) \<and>
    app_cancel b = (if runtime_sec a = 0 then By_signal else By_timer (runtime_sec a))"
proof -
  let ?h = "(mk_AnalysisHandle (app_config a) (output_split (app_config a)))\<lparr>ah_print_mode := data_print_mode (app_config a)\<rparr>"
  obtain res m where m: "set_output_filenames ((ae_sink env)\<lparr>env_n_lines := output_split (app_config a)\<rparr>)
      (output_filenames (app_config a)) (ah_writers (mk_AnalysisHandle (app_config a) (output_split (app_config a)))) = (res, m)"
    by fastforce
  let ?a = "a\<lparr>workflow_handler := Some (?h\<lparr>ah_writers := m\<rparr>)\<rparr>"
  have "res = Inr ()" using assms by (cases res) (auto simp: app_init_def Let_def m)
  moreover obtain c where c: "set_remote_fec_endpoints env ?a = Done c" "check_port_number_validity c = Done c"
      "b = set_cancel_method c"
    using assms calculation by (auto simp: app_init_def Let_def m check_port_number_validity_def split: if_splits)
  moreover note add_all_endpoints_done [OF c(1) [unfolded set_remote_fec_endpoints_def]]
  ultimately show ?thesis using m
    by (auto simp: set_cancel_method_def check_port_number_validity_def mk_AnalysisHandle_def
        DEFAULT_SRS_CONTROL_PORT_def split: if_splits)
qed

text \<open>No object is destroyed cleanly whose workflow was not started.\<close>

lemma main_run_undefined:
  assumes "mode \<in> {am_acq_on, am_acq_off, am_none} \<or>
    (\<exists>e b. app_init env (set_runtime_sec n (app_set_print_mode pm (mk_App cfg))) = Throws e b)"
  shows "main_run env cfg pm n mode = Undefined Missing_task_diagram"
proof -
  let ?r = "app_init env (set_runtime_sec n (app_set_print_mode pm (mk_App cfg)))"
  have r: "o_all not_started ?r" by (rule app_init_not_started)
  show ?thesis
  proof (cases ?r)
    case (Done a)
    with assms have "\<exists>b. run_action env mode a = Done b \<and> workflow_handler b = workflow_handler a" by auto
    moreover have "not_started a" using r Done by simp
    ultimately show ?thesis using Done by (auto simp: main_run_def not_started_def intro!: destroy_not_started)
  qed (use r in \<open>simp_all add: main_run_def destroy_not_started\<close>)
qed

text \<open>
  C26. The modes that do not start the workflow never end cleanly: switching on only, switching
  off only and doing nothing all end in the destructor's use of the task diagram that does not
  exist, and so does every mode when the initialisation throws.\<close>

theorem modes_without_workflow_undefined:
  assumes "mode \<in> {am_acq_on, am_acq_off, am_none} \<or>
    (\<exists>e b. app_init env (set_runtime_sec n (app_set_print_mode pm (mk_App cfg))) = Throws e b)"
  shows "main_run env cfg pm n mode = Undefined Missing_task_diagram"
  using assms by (rule main_run_undefined)

section \<open>A full run\<close>

definition bound_ports :: "app_env \<Rightarrow> nat \<Rightarrow> int list \<Rightarrow> int list" where
  "bound_ports env n ports = map snd (filter (\<lambda>(i, port). ae_bind env i port = None) (enumerate n ports))"

lemma read_data_eq:
  "fold (read_data_port env) ports a =
     a\<lparr>data_sockets := data_sockets a @ bound_ports env (app_binds a) ports, app_binds := app_binds a + length ports\<rparr>"
proof (induction ports arbitrary: a)
  case (Cons port ports)
  then show ?case
    by (cases "ae_bind env (app_binds a) port") (simp_all add: read_data_port_def app_bind_def bound_ports_def)
qed (simp add: bound_ports_def)

lemma app_switch_FECs_eq:
  assumes "zpp_documented (ae_zpp env)"
  shows "app_switch_FECs env cl name a =
    (case ae_bind env (app_binds a) (fec_control_local_port (app_config a)) of
       Some e \<Rightarrow> (Unexpected e, a\<lparr>app_binds := app_binds a + 1\<rparr>)
     | None \<Rightarrow> (Fut_valid, a\<lparr>app_binds := app_binds a + 1, app_datagrams := app_datagrams a @
         map (\<lambda>e. (e, message_bytes cl)) (remote_fec_endpoints a)\<rparr>))"
  using fst_launch_switch [OF assms, of cl name "('''', 0) :: endpoint" "remote_fec_endpoints a"]
  by (simp add: app_switch_FECs_def app_bind_def split_def Let_def split: option.split)

definition control_bind :: "app_env \<Rightarrow> Config \<Rightarrow> nat \<Rightarrow> bool" where
  "control_bind env cfg n \<longleftrightarrow> ae_bind env (length (fec_data_receive_ports cfg) + n) (fec_control_local_port cfg) = None"

lemma app_init_fresh:
  assumes "app_init env (mk_App cfg) = Done b"
  shows "\<exists>h m. b = (mk_App cfg)\<lparr>workflow_handler := Some (h\<lparr>ah_writers := m\<rparr>), app_cancel := By_signal,
      remote_fec_endpoints := concat (map (resolved env) (remote_fec_ips cfg))\<rparr> \<and>
    h = (mk_AnalysisHandle cfg (output_split cfg))\<lparr>ah_print_mode := data_print_mode cfg\<rparr>"
proof -
  obtain res m where m: "set_output_filenames ((ae_sink env)\<lparr>env_n_lines := output_split cfg\<rparr>)
      (output_filenames cfg) (ah_writers (mk_AnalysisHandle cfg (output_split cfg))) = (res, m)"
    by fastforce
  let ?h = "(mk_AnalysisHandle cfg (output_split cfg))\<lparr>ah_print_mode := data_print_mode cfg\<rparr>"
  let ?a = "(mk_App cfg)\<lparr>workflow_handler := Some (?h\<lparr>ah_writers := m\<rparr>)\<rparr>"
  have cfg: "app_config (mk_App cfg) = cfg" by (simp add: mk_App_def)
  have "res = Inr ()" using assms by (cases res) (auto simp: app_init_def Let_def m cfg)
  then obtain c where c: "set_remote_fec_endpoints env ?a = Done c" "b = set_cancel_method c"
    using assms by (auto simp: app_init_def Let_def m cfg check_port_number_validity_def split: if_splits)
  from add_all_endpoints_done [OF c(1) [unfolded set_remote_fec_endpoints_def]] c(2)
  show ?thesis by (auto simp: set_cancel_method_def mk_App_def)
qed

text \<open>
  C27. A full run (workflow, reading, switching on, exit): if the control port can be bound,
  every FEC gets the command on, and at the exit, when the switching on has completed, the
  command off; every data socket that could be opened is cancelled, and the workflow is told to
  stop exactly once, with one marker for every line. If the control port cannot be bound, for
  the switching on or for the switching off, the run ends in undefined behaviour, and
  otherwise it ends normally.\<close>

theorem full_run_outcome:
  assumes "zpp_documented (ae_zpp env)" "app_init env (mk_App cfg) = Done b"
  shows "case run_action env am_all b of
      Done c \<Rightarrow> control_bind env cfg 0 \<and>
        app_datagrams c = map (\<lambda>e. (e, message_bytes Starter)) (remote_fec_endpoints b) @
          (if ae_on_status env = ready \<and> control_bind env cfg 1
           then map (\<lambda>e. (e, message_bytes Stopper)) (remote_fec_endpoints b) else []) \<and>
        data_sockets c = bound_ports env 0 (fec_data_receive_ports cfg) \<and>
        cancelled_sockets c = data_sockets c \<and>
        (\<exists>h. workflow_handler c = Some h \<and> ah_stop_markers h = [output_split cfg] \<and> ah_is_stopped h) \<and>
        destroy_App env c = (if ae_on_status env = ready \<and> \<not> control_bind env cfg 1
          then Undefined Missing_future else Done (c\<lparr>workflow_handler := None\<rparr>))
    | Undefined u \<Rightarrow> \<not> control_bind env cfg 0 \<and> u = Missing_future
    | _ \<Rightarrow> False"
proof -
  obtain h m where b: "b = (mk_App cfg)\<lparr>workflow_handler := Some (h\<lparr>ah_writers := m\<rparr>), app_cancel := By_signal,
      remote_fec_endpoints := concat (map (resolved env) (remote_fec_ips cfg))\<rparr>"
    and h: "h = (mk_AnalysisHandle cfg (output_split cfg))\<lparr>ah_print_mode := data_print_mode cfg\<rparr>"
    using app_init_fresh [OF assms(2)] by blast
  note sw = app_switch_FECs_eq [OF assms(1)]
  note run = start_workflow_def read_data_def read_data_eq switch_on_def switch_off_def sw control_bind_def
    exit_and_switch_off_def wait_for_switch_action_def wait_for_reading_finish_def ah_stop_workflow_def
    ah_start_def ah_stop_monitor_def mk_AnalysisHandle_def destroy_App_def ah_print_statistics_def
    action_after_destructor_def
  show ?thesis
  proof (cases "control_bind env cfg 0")
    case False
    then show ?thesis by (auto simp: b mk_App_def run Let_def)
  next
    case True
    then have on: "ae_bind env (length (fec_data_receive_ports cfg)) (fec_control_local_port cfg) = None"
      by (simp add: control_bind_def)
    show ?thesis
    proof (cases "ae_on_status env = ready")
      case True
      then show ?thesis using on
        by (cases "ae_bind env (Suc (length (fec_data_receive_ports cfg))) (fec_control_local_port cfg)")
          (simp_all add: b h mk_App_def run Let_def)
    next
      case False
      then show ?thesis using on by (simp add: b h mk_App_def run Let_def)
    qed
  qed
qed

section \<open>Concrete runs\<close>

definition sample_env :: app_env where
  "sample_env = \<lparr>ae_sink = \<lparr>env_n_lines = 1, env_can_open = (\<lambda>_. True), env_resolve = (\<lambda>_ _. Inr []), env_has_root = False,
       env_root = root_ref\<rparr>,
     ae_zpp = zpp_ref, ae_resolve = (\<lambda>ip port. Inr [(ip, of_int port)]), ae_bind = (\<lambda>n port. None),
     ae_on_status = ready, ae_off_status = ready\<rparr>"

lemma sample_init:
  "app_init sample_env (mk_App default_Config) = Done ((mk_App default_Config)\<lparr>
     workflow_handler := Some (mk_AnalysisHandle default_Config 1), app_cancel := By_signal,
     remote_fec_endpoints := [(''10.0.0.2'', 6600)]\<rparr>)"
  by (simp add: app_init_def sample_env_def default_Config_def mk_App_def Let_def set_remote_fec_endpoints_def
      add_remote_fec_endpoint_def DEFAULT_SRS_CONTROL_PORT_def check_port_number_validity_def set_cancel_method_def
      mk_AnalysisHandle_def)

lemma app_init_outcome_witness:
  "fec_control_local_port default_Config \<notin> set (fec_data_receive_ports default_Config) \<and>
   concat (map (resolved sample_env) [''10.0.0.2'']) = [(''10.0.0.2'', 6600)]"
  using app_init_outcome [OF sample_init] by (simp add: mk_App_def default_Config_def)

lemma modes_without_workflow_undefined_witness:
  "main_run sample_env default_Config print_speed 0 am_acq_on = Undefined Missing_task_diagram"
  by (rule modes_without_workflow_undefined) simp

lemma full_run_outcome_witness:
  "\<exists>c. run_action sample_env am_all ((mk_App default_Config)\<lparr>
     workflow_handler := Some (mk_AnalysisHandle default_Config 1), app_cancel := By_signal,
     remote_fec_endpoints := [(''10.0.0.2'', 6600)]\<rparr>) = Done c \<and>
   app_datagrams c = [((''10.0.0.2'', 6600), message_bytes Starter), ((''10.0.0.2'', 6600), message_bytes Stopper)] \<and>
   cancelled_sockets c = [6006]"
  using full_run_outcome [OF _ sample_init]
  by (auto simp: sample_env_def control_bind_def bound_ports_def default_Config_def split: outcome.splits)

end
