(* ===== verification/Log_Check.thy ===== *)
theory Log_Check
  imports Srs_Prelude "HOL-Library.AList" "HOL-Library.Sublist"
begin

text \<open>
  The scope log and its check: \<^verbatim>\<open>ExitLogger\<close> (\<^verbatim>\<open>utils/ExitLogger.hpp\<close>), which logs the
  begin and the end of a scope, and \<^verbatim>\<open>srs_check.cpp\<close>, which reads the log file of the last
  instance and reports the scopes that were not left. The regular expression library is a
  parameter \<open>ctre\<close>; \<open>ctre_documented\<close> says what a whole match of the pattern of the source
  is. The index of every access to the vector of lines is checked, so that an access outside
  of it is the value \<open>None\<close>.
\<close>

section \<open>The log\<close>

definition exit_logger_begin :: string where "exit_logger_begin = ''------->>''"

definition exit_logger_end :: string where "exit_logger_end = ''<<-------''"

definition file_logger_new_instance_str :: string where
  "file_logger_new_instance_str = ''----------------------new log instance----------------------''"

text \<open>What an \<^verbatim>\<open>ExitLogger\<close> logs: its marker, the function and the tag.\<close>

definition scope_name :: "string \<Rightarrow> string \<Rightarrow> string" where
  "scope_name function_name tag =
     (let tag = (if tag = [] then ''function'' else tag) in function_name @ '' ('' @ tag @ '')'')"

definition exit_logger_message :: "string \<Rightarrow> string \<Rightarrow> string" where
  "exit_logger_message marker name = marker @ '' '' @ name"

text \<open>The pattern of the file sink: \<^verbatim>\<open>[date][level][thread] message\<close>.\<close>

record log_prefix =
  lp_date :: string
  lp_level :: string
  lp_thread :: string

definition prefix_text :: "log_prefix \<Rightarrow> string" where
  "prefix_text p = ''['' @ lp_date p @ '']['' @ lp_level p @ '']['' @ lp_thread p @ ''] ''"

definition file_line :: "log_prefix \<Rightarrow> string \<Rightarrow> string" where
  "file_line p msg = prefix_text p @ msg @ [CHR 0x0A]"

section \<open>Reading the file\<close>

record LogFile =
  input_file :: string
  line_counter :: nat
  content :: "string list"
  call_map :: "(string \<times> int) list"

definition default_init_n_lines :: nat where "default_init_n_lines = 1000"

definition grow_to :: "nat \<Rightarrow> LogFile \<Rightarrow> LogFile" where
  "grow_to n_lines f =
     (if n_lines \<le> length (content f) then f else f\<lparr>content := vec_resize (content f) n_lines []\<rparr>)"

text \<open>A file that cannot be opened is an exception.\<close>

definition mk_LogFile :: "string option \<Rightarrow> string + LogFile" where
  "mk_LogFile text =
     (case text of
        None \<Rightarrow> Inl ''failed to open the file''
      | Some s \<Rightarrow> Inr (grow_to default_init_n_lines
          \<lparr>input_file = s, line_counter = 0, content = [], call_map = []\<rparr>))"

text \<open>\<^verbatim>\<open>std::getline\<close> fails when there is no character left.\<close>

definition getline :: "string \<Rightarrow> (string \<times> string) option" where
  "getline s = (if s = [] then None
     else Some (takeWhile (\<lambda>c. c \<noteq> CHR 0x0A) s, drop 1 (dropWhile (\<lambda>c. c \<noteq> CHR 0x0A) s)))"

lemma getline_shorter: "getline s = Some (l, rest) \<Longrightarrow> length rest < length s"
  using length_dropWhile_le [of "\<lambda>c. c \<noteq> CHR 0x0A" s] by (cases s) (auto simp: getline_def le_imp_less_Suc)

definition ends_with :: "string \<Rightarrow> string \<Rightarrow> bool" where
  "ends_with s t \<longleftrightarrow> length t \<le> length s \<and> drop (length s - length t) s = t"

function lf_read :: "LogFile \<Rightarrow> LogFile option" where
  "lf_read f =
     (let f = (if line_counter f \<ge> length (content f) then grow_to (length (content f) * 2) f else f)
      in if line_counter f \<ge> length (content f) then None
         else case getline (input_file f) of
                None \<Rightarrow> Some (f\<lparr>content := (content f)[line_counter f := []]\<rparr>)
              | Some (line, rest) \<Rightarrow>
                  lf_read (f\<lparr>input_file := rest, content := (content f)[line_counter f := line],
                    line_counter := (if ends_with line file_logger_new_instance_str then 0 else line_counter f + 1)\<rparr>))"
  by auto
termination
  by (relation "measure (\<lambda>f. length (input_file f))")
    (auto simp: grow_to_def split: if_splits dest: getline_shorter)

declare lf_read.simps [simp del]

definition lf_lines :: "LogFile \<Rightarrow> string list" where
  "lf_lines f = take (line_counter f) (content f)"

section \<open>Analysis\<close>

text \<open>The pattern \<^verbatim>\<open>\[.*\]\[.+\]\[\d+\] marker (.*)\<close> of the source, with its group.\<close>

definition is_digit :: "char \<Rightarrow> bool" where
  "is_digit c \<longleftrightarrow> (48 :: nat) \<le> of_char c \<and> (of_char c :: nat) \<le> 57"

definition in_pattern :: "string \<Rightarrow> string \<Rightarrow> string \<Rightarrow> bool" where
  "in_pattern marker line cap \<longleftrightarrow>
     (\<exists>p. line = prefix_text p @ marker @ '' '' @ cap \<and> lp_level p \<noteq> [] \<and> lp_thread p \<noteq> [] \<and>
       list_all is_digit (lp_thread p))"

type_synonym ctre = "string \<Rightarrow> string \<Rightarrow> string option"

text \<open>A match is one of the ways to match, and there is one when the line can be matched.\<close>

definition ctre_documented :: "ctre \<Rightarrow> bool" where
  "ctre_documented m \<longleftrightarrow>
     (\<forall>marker line cap. m marker line = Some cap \<longrightarrow> in_pattern marker line cap) \<and>
     (\<forall>marker line cap. in_pattern marker line cap \<longrightarrow> m marker line \<noteq> None)"

definition count_call :: "string \<Rightarrow> int \<Rightarrow> (string \<times> int) list \<Rightarrow> (string \<times> int) list" where
  "count_call name d cm =
     (let old = (case map_of cm name of None \<Rightarrow> 0 | Some v \<Rightarrow> v) in AList.update name (old + d) cm)"

definition analyse_line :: "ctre \<Rightarrow> string \<Rightarrow> (string \<times> int) list \<Rightarrow> (string \<times> int) list" where
  "analyse_line m line_str cm =
     (case m exit_logger_begin line_str of
        Some name \<Rightarrow> count_call name 1 cm
      | None \<Rightarrow>
          (case m exit_logger_end line_str of
             Some name \<Rightarrow> count_call name (-1) cm
           | None \<Rightarrow> cm))"

definition lf_analysis :: "ctre \<Rightarrow> LogFile \<Rightarrow> LogFile" where
  "lf_analysis m f = f\<lparr>call_map := fold (analyse_line m) (lf_lines f) (call_map f)\<rparr>"

text \<open>The result and the scopes that are printed.\<close>

definition lf_summarize :: "LogFile \<Rightarrow> bool \<times> string list" where
  "lf_summarize f =
     (if call_map f = [] then (True, [])
      else
        let open_scopes = filter (\<lambda>kv. snd kv \<noteq> 0) (call_map f)
        in if open_scopes = [] then (True, []) else (False, map fst open_scopes))"

section \<open>The program\<close>

datatype check_result = Exit_with nat "string list" | Out_of_bounds

text \<open>\<open>open_file\<close>: the text of a file that can be opened.\<close>

definition check_main :: "ctre \<Rightarrow> (string \<Rightarrow> string option) \<Rightarrow> string \<Rightarrow> bool \<Rightarrow> check_result" where
  "check_main m open_file filename is_show_last_log =
     (case mk_LogFile (open_file filename) of
        Inl e \<Rightarrow> Exit_with 0 [e]
      | Inr f \<Rightarrow>
          (case lf_read f of
             None \<Rightarrow> Out_of_bounds
           | Some f \<Rightarrow>
               if is_show_last_log then Exit_with 0 (lf_lines f)
               else let (ok, printed) = lf_summarize (lf_analysis m f)
                    in Exit_with (if ok then 0 else 1) printed))"

section \<open>What is read\<close>

text \<open>Reference: the lines of a text, and those after the last start of an instance.\<close>

function text_lines :: "string \<Rightarrow> string list" where
  "text_lines s = (case getline s of None \<Rightarrow> [] | Some (l, rest) \<Rightarrow> l # text_lines rest)"
  by auto
termination
  by (relation "measure length") (auto dest: getline_shorter)

declare text_lines.simps [simp del]

definition last_instance :: "string list \<Rightarrow> string list" where
  "last_instance ls = rev (takeWhile (\<lambda>l. \<not> ends_with l file_logger_new_instance_str) (rev ls))"

lemma take_update_Suc: "k < length xs \<Longrightarrow> take (Suc k) (xs[k := x]) = take k xs @ [x]"
  by (simp add: take_Suc_conv_app_nth take_update_cancel)

lemma lf_read_lines:
  "length (content f) > 0 \<Longrightarrow> line_counter f \<le> length (content f) \<Longrightarrow>
   \<forall>l \<in> set (lf_lines f). \<not> ends_with l file_logger_new_instance_str \<Longrightarrow>
   \<exists>g. lf_read f = Some g \<and> lf_lines g = last_instance (lf_lines f @ text_lines (input_file f)) \<and>
     call_map g = call_map f"
proof (induction f rule: lf_read.induct)
  case (1 f)
  define h where "h = (if line_counter f \<ge> length (content f) then grow_to (length (content f) * 2) f else f)"
  have h: "line_counter h = line_counter f" "input_file h = input_file f" "call_map h = call_map f"
      "line_counter h < length (content h)" "lf_lines h = lf_lines f"
    using "1.prems"(1,2) by (auto simp: h_def grow_to_def lf_lines_def take_vec_resize)
  let ?acc = "lf_lines f"
  have acc: "last_instance ?acc = ?acc"
  proof -
    have "takeWhile (\<lambda>l. \<not> ends_with l file_logger_new_instance_str) (rev ?acc) = rev ?acc"
      using "1.prems"(3) by (subst takeWhile_eq_all_conv) auto
    then show ?thesis by (simp only: last_instance_def rev_rev_ident)
  qed
  show ?case
  proof (cases "getline (input_file h)")
    case None
    then have "lf_read f = Some (h\<lparr>content := (content h)[line_counter h := []]\<rparr>)"
      using h(4) by (subst lf_read.simps) (simp add: Let_def flip: h_def)
    moreover have "text_lines (input_file f) = []"
      using None h(2) by (subst text_lines.simps) simp
    ultimately show ?thesis using acc h by (simp add: lf_lines_def)
  next
    case (Some p)
    then obtain line rest where p: "getline (input_file h) = Some (line, rest)" by (cases p) auto
    let ?next = "h\<lparr>input_file := rest, content := (content h)[line_counter h := line],
      line_counter := (if ends_with line file_logger_new_instance_str then 0 else line_counter h + 1)\<rparr>"
    have step: "lf_read f = lf_read ?next"
      using h(4) p by (subst lf_read.simps) (simp add: Let_def flip: h_def)
    have lines: "lf_lines ?next = (if ends_with line file_logger_new_instance_str then [] else ?acc @ [line])"
      using h by (simp add: lf_lines_def take_update_Suc)
    have "\<exists>g. lf_read ?next = Some g \<and>
        lf_lines g = last_instance (lf_lines ?next @ text_lines (input_file ?next)) \<and> call_map g = call_map ?next"
      using "1.prems" h p lines by (intro "1.IH" [OF h_def]) (auto split: if_splits)
    moreover have "text_lines (input_file f) = line # text_lines rest"
      using p h(2) by (subst text_lines.simps) simp
    moreover have "last_instance (?acc @ line # ls) = last_instance (lf_lines ?next @ ls)" for ls
    proof (cases "ends_with line file_logger_new_instance_str")
      case True
      then show ?thesis
        unfolding lines by (simp add: last_instance_def takeWhile_tail)
    next
      case False
      then show ?thesis using lines by simp
    qed
    ultimately show ?thesis using step h by auto
  qed
qed

lemma new_log_read:
  "\<exists>f g. mk_LogFile (Some s) = Inr f \<and> lf_read f = Some g \<and> lf_lines g = last_instance (text_lines s) \<and> call_map g = []"
  using lf_read_lines [of "grow_to default_init_n_lines \<lparr>input_file = s, line_counter = 0, content = [], call_map = []\<rparr>"]
  by (simp add: mk_LogFile_def grow_to_def default_init_n_lines_def lf_lines_def)

section \<open>What is counted\<close>

definition call_count :: "(string \<times> int) list \<Rightarrow> string \<Rightarrow> int" where
  "call_count cm name = (case map_of cm name of None \<Rightarrow> 0 | Some v \<Rightarrow> v)"

definition scopes_begun :: "ctre \<Rightarrow> string \<Rightarrow> string list \<Rightarrow> nat" where
  "scopes_begun m name ls = length (filter (\<lambda>l. m exit_logger_begin l = Some name) ls)"

definition scopes_ended :: "ctre \<Rightarrow> string \<Rightarrow> string list \<Rightarrow> nat" where
  "scopes_ended m name ls =
     length (filter (\<lambda>l. m exit_logger_begin l = None \<and> m exit_logger_end l = Some name) ls)"

lemma count_call_simps:
  "call_count (count_call name d cm) k = call_count cm k + (if k = name then d else 0)"
  "distinct (map fst cm) \<Longrightarrow> distinct (map fst (count_call name d cm))"
  by (auto simp: count_call_def call_count_def Let_def update_conv' distinct_update split: option.split)

lemma analysed:
  "call_count (fold (analyse_line m) ls cm) k =
     call_count cm k + int (scopes_begun m k ls) - int (scopes_ended m k ls)"
  "distinct (map fst cm) \<Longrightarrow> distinct (map fst (fold (analyse_line m) ls cm))"
  by (induction ls arbitrary: cm)
    (auto simp: analyse_line_def scopes_begun_def scopes_ended_def count_call_simps split: option.split)

lemma summarised:
  assumes "distinct (map fst (call_map f))"
  shows "(fst (lf_summarize f) \<longleftrightarrow> (\<forall>k. call_count (call_map f) k = 0)) \<and>
    set (snd (lf_summarize f)) = {k. call_count (call_map f) k \<noteq> 0}"
proof -
  have "call_count (call_map f) k \<noteq> 0 \<longleftrightarrow> (\<exists>v. (k, v) \<in> set (call_map f) \<and> v \<noteq> 0)" for k
    unfolding map_of_eq_Some_iff [OF assms, symmetric] by (simp add: call_count_def split: option.split)
  then have "{k. call_count (call_map f) k \<noteq> 0} = fst ` set (filter (\<lambda>kv. snd kv \<noteq> 0) (call_map f))"
    by (auto simp: image_iff Bex_def)
  moreover have "call_map f = [] \<Longrightarrow> filter (\<lambda>kv. snd kv \<noteq> 0) (call_map f) = []" by simp
  moreover have "(\<forall>k. call_count (call_map f) k = 0) \<longleftrightarrow> {k. call_count (call_map f) k \<noteq> 0} = {}" by auto
  ultimately show ?thesis by (auto simp: lf_summarize_def Let_def filter_empty_conv)
qed

lemma check_main_read:
  "\<exists>f. check_main m (\<lambda>_. Some s) filename False =
     (let (ok, printed) = lf_summarize (lf_analysis m f) in Exit_with (if ok then 0 else 1) printed) \<and>
   call_map (lf_analysis m f) = fold (analyse_line m) (last_instance (text_lines s)) []"
proof -
  obtain f g where "mk_LogFile (Some s) = Inr f" "lf_read f = Some g"
      "lf_lines g = last_instance (text_lines s)" "call_map g = []"
    using new_log_read by blast
  then show ?thesis by (intro exI [of _ g]) (simp add: check_main_def lf_analysis_def)
qed

text \<open>
  C28. The check of a log file always ends, within the bounds of its vector of lines. When the
  file can be opened and the log is not just shown, it prints exactly the scopes that the last
  instance in the file has begun and ended a different number of times, and the exit status is
  a failure exactly when there is one; a file that cannot be opened is no failure.\<close>

theorem srs_check_outcome:
  "case check_main m open_file filename show_log of
     Out_of_bounds \<Rightarrow> False
   | Exit_with code printed \<Rightarrow>
       (open_file filename = None \<and> code = 0) \<or>
       (\<exists>s. open_file filename = Some s \<and> show_log \<and> code = 0 \<and> printed = last_instance (text_lines s)) \<or>
       (\<exists>s. open_file filename = Some s \<and> \<not> show_log \<and>
         set printed = {k. scopes_begun m k (last_instance (text_lines s)) \<noteq> scopes_ended m k (last_instance (text_lines s))} \<and>
         (code = 1 \<and> printed \<noteq> [] \<or> code = 0 \<and> printed = []))"
proof (cases "open_file filename")
  case None
  then show ?thesis by (simp add: check_main_def mk_LogFile_def)
next
  case (Some s)
  obtain f g where f: "mk_LogFile (Some s) = Inr f" "lf_read f = Some g"
      "lf_lines g = last_instance (text_lines s)" "call_map g = []"
    using new_log_read by blast
  show ?thesis
  proof (cases show_log)
    case True
    then show ?thesis using Some f by (simp add: check_main_def)
  next
    case False
    let ?a = "lf_analysis m g"
    have "distinct (map fst (call_map ?a))" using f(4) by (simp add: lf_analysis_def analysed(2))
    note sum = summarised [OF this]
    moreover have "call_count (call_map ?a) k = int (scopes_begun m k (last_instance (text_lines s))) -
        int (scopes_ended m k (last_instance (text_lines s)))" for k
      using f by (simp add: lf_analysis_def analysed(1) call_count_def [of "[]"])
    ultimately have "set (snd (lf_summarize ?a)) =
        {k. scopes_begun m k (last_instance (text_lines s)) \<noteq> scopes_ended m k (last_instance (text_lines s))}"
      and "fst (lf_summarize ?a) \<longleftrightarrow> snd (lf_summarize ?a) = []"
      by (auto simp flip: set_empty)
    then show ?thesis using Some f False by (simp add: check_main_def split_def Let_def)
  qed
qed

section \<open>The log of a run\<close>

text \<open>What a run logs: beginnings and ends of scopes, and other messages.\<close>

datatype log_event = Scope_begin log_prefix string | Scope_end log_prefix string | Other_message log_prefix string

fun event_line :: "log_event \<Rightarrow> string" where
  "event_line (Scope_begin p name) = prefix_text p @ exit_logger_message exit_logger_begin name"
| "event_line (Scope_end p name) = prefix_text p @ exit_logger_message exit_logger_end name"
| "event_line (Other_message p msg) = prefix_text p @ msg"

definition log_text :: "log_event list \<Rightarrow> string" where
  "log_text evs = concat (map (\<lambda>e. event_line e @ [CHR 0x0A]) evs)"

fun event_prefix :: "log_event \<Rightarrow> log_prefix" where
  "event_prefix (Scope_begin p _) = p"
| "event_prefix (Scope_end p _) = p"
| "event_prefix (Other_message p _) = p"

fun event_message :: "log_event \<Rightarrow> string" where
  "event_message (Scope_begin _ name) = name"
| "event_message (Scope_end _ name) = name"
| "event_message (Other_message _ msg) = msg"

text \<open>Lines as the logger writes them: the fields of the prefix hold no arrows, the thread is
  a number, and no message holds a marker or starts an instance.\<close>

definition prefix_ok :: "log_prefix \<Rightarrow> bool" where
  "prefix_ok p \<longleftrightarrow> lp_level p \<noteq> [] \<and> lp_thread p \<noteq> [] \<and> list_all is_digit (lp_thread p) \<and>
     CHR ''>'' \<notin> set (prefix_text p) \<and> CHR ''<'' \<notin> set (prefix_text p)"

definition event_ok :: "log_event \<Rightarrow> bool" where
  "event_ok e \<longleftrightarrow> prefix_ok (event_prefix e) \<and> CHR 0x0A \<notin> set (event_line e) \<and>
     \<not> ends_with (event_line e) file_logger_new_instance_str \<and>
     \<not> sublist exit_logger_begin (event_message e) \<and> \<not> sublist exit_logger_end (event_message e)"

lemma marker_unique:
  assumes "CHR ''>'' \<notin> set p" "\<not> sublist exit_logger_begin name"
    and "p @ exit_logger_begin @ '' '' @ name = q @ exit_logger_begin @ '' '' @ cap"
  shows "cap = name"
proof -
  from assms(3) obtain us where
    "(p = q @ us \<and> us @ exit_logger_begin @ '' '' @ name = exit_logger_begin @ '' '' @ cap) \<or>
     (p @ us = q \<and> exit_logger_begin @ '' '' @ name = us @ exit_logger_begin @ '' '' @ cap)"
    by (meson append_eq_append_conv2)
  then show ?thesis
  proof (elim disjE conjE)
    assume "p = q @ us" "us @ exit_logger_begin @ '' '' @ name = exit_logger_begin @ '' '' @ cap"
    with assms(1) show ?thesis
      by (auto simp: exit_logger_begin_def append_eq_Cons_conv)
  next
    assume us: "exit_logger_begin @ '' '' @ name = us @ exit_logger_begin @ '' '' @ cap"
    have "us = [] \<or> (\<exists>vs. name = vs @ exit_logger_begin @ '' '' @ cap)"
      using us by (auto simp: exit_logger_begin_def Cons_eq_append_conv)
    then show ?thesis using assms(2) us by (auto simp: sublist_def)
  qed
qed

lemma end_marker_unique:
  assumes "CHR ''<'' \<notin> set p" "\<not> sublist exit_logger_end name"
    and "p @ exit_logger_end @ '' '' @ name = q @ exit_logger_end @ '' '' @ cap"
  shows "cap = name"
proof -
  from assms(3) obtain us where
    "(p = q @ us \<and> us @ exit_logger_end @ '' '' @ name = exit_logger_end @ '' '' @ cap) \<or>
     (p @ us = q \<and> exit_logger_end @ '' '' @ name = us @ exit_logger_end @ '' '' @ cap)"
    by (meson append_eq_append_conv2)
  then show ?thesis
  proof (elim disjE conjE)
    assume "p = q @ us" "us @ exit_logger_end @ '' '' @ name = exit_logger_end @ '' '' @ cap"
    with assms(1) show ?thesis
      by (auto simp: exit_logger_end_def append_eq_Cons_conv)
  next
    assume us: "exit_logger_end @ '' '' @ name = us @ exit_logger_end @ '' '' @ cap"
    have "us = [] \<or> (\<exists>vs. name = vs @ exit_logger_end @ '' '' @ cap)"
      using us by (auto simp: exit_logger_end_def Cons_eq_append_conv)
    then show ?thesis using assms(2) us by (auto simp: sublist_def)
  qed
qed

text \<open>A marker can only stand in the message of a line.\<close>

lemma no_begin_marker:
  assumes "CHR ''>'' \<notin> set p" "\<not> sublist exit_logger_begin msg" "p \<noteq> []" "last p = CHR '' ''"
  shows "p @ msg \<noteq> q @ exit_logger_begin @ t"
proof
  assume "p @ msg = q @ exit_logger_begin @ t"
  then obtain us where "(p = q @ us \<and> us @ msg = exit_logger_begin @ t) \<or> (p @ us = q \<and> msg = us @ exit_logger_begin @ t)"
    by (meson append_eq_append_conv2)
  then show False
  proof (elim disjE conjE)
    assume us: "p = q @ us" "us @ msg = exit_logger_begin @ t"
    show False
    proof (cases us rule: rev_cases)
      case Nil
      then show False using us assms(2) by (auto simp: sublist_def)
    next
      case (snoc vs c)
      with us assms(4) have "c = CHR '' ''" by simp
      with us snoc assms(1) show False
        by (auto simp: exit_logger_begin_def append_eq_Cons_conv)
    qed
  qed (use assms(2) in \<open>auto simp: sublist_def\<close>)
qed

lemma no_end_marker:
  assumes "CHR ''<'' \<notin> set p" "\<not> sublist exit_logger_end msg"
  shows "p @ msg \<noteq> q @ exit_logger_end @ t"
proof
  assume "p @ msg = q @ exit_logger_end @ t"
  then obtain us where "(p = q @ us \<and> us @ msg = exit_logger_end @ t) \<or> (p @ us = q \<and> msg = us @ exit_logger_end @ t)"
    by (meson append_eq_append_conv2)
  then show False
  proof (elim disjE conjE)
    assume us: "p = q @ us" "us @ msg = exit_logger_end @ t"
    show False
    proof (cases us)
      case Nil
      then show False using us assms(2) by (auto simp: sublist_def)
    qed (use us assms(1) in \<open>auto simp: exit_logger_end_def\<close>)
  qed (use assms(2) in \<open>auto simp: sublist_def\<close>)
qed

lemma prefix_text_end: "prefix_text p \<noteq> []" "last (prefix_text p) = CHR '' ''"
  by (simp_all add: prefix_text_def)

lemma ctre_matches:
  assumes "ctre_documented m" "in_pattern marker line cap" "\<And>c. in_pattern marker line c \<Longrightarrow> c = cap"
  shows "m marker line = Some cap"
  using assms unfolding ctre_documented_def by (metis not_None_eq)

lemma ctre_no_match:
  "ctre_documented m \<Longrightarrow> (\<And>c. \<not> in_pattern marker line c) \<Longrightarrow> m marker line = None"
  unfolding ctre_documented_def by (metis not_None_eq)

lemma event_matches:
  assumes "ctre_documented m" "event_ok e"
  shows "m exit_logger_begin (event_line e) = (case e of Scope_begin _ name \<Rightarrow> Some name | _ \<Rightarrow> None)"
    and "(case e of Scope_begin _ _ \<Rightarrow> True | _ \<Rightarrow>
      m exit_logger_end (event_line e) = (case e of Scope_end _ name \<Rightarrow> Some name | _ \<Rightarrow> None))"
proof -
  have "m exit_logger_begin (event_line e) = (case e of Scope_begin _ name \<Rightarrow> Some name | _ \<Rightarrow> None) \<and>
    (case e of Scope_begin _ _ \<Rightarrow> True | _ \<Rightarrow>
      m exit_logger_end (event_line e) = (case e of Scope_end _ name \<Rightarrow> Some name | _ \<Rightarrow> None))"
  proof (cases e)
    case (Scope_begin p name)
    then have ok: "prefix_ok p" "\<not> sublist exit_logger_begin name"
      using assms(2) by (simp_all add: event_ok_def)
    have "m exit_logger_begin (event_line e) = Some name"
    proof (rule ctre_matches [OF assms(1)])
      show "in_pattern exit_logger_begin (event_line e) name"
        using Scope_begin ok(1) by (auto simp: in_pattern_def exit_logger_message_def prefix_ok_def)
      show "c = name" if "in_pattern exit_logger_begin (event_line e) c" for c
        using that Scope_begin ok marker_unique [of "prefix_text p" name]
        by (auto simp: in_pattern_def exit_logger_message_def prefix_ok_def)
    qed
    then show ?thesis using Scope_begin by simp
  next
    case (Scope_end p name)
    then have ok: "prefix_ok p" "\<not> sublist exit_logger_begin name" "\<not> sublist exit_logger_end name"
      using assms(2) by (simp_all add: event_ok_def)
    have "\<not> sublist exit_logger_begin (exit_logger_end @ '' '' @ name)"
      using ok(2) unfolding exit_logger_begin_def exit_logger_end_def by (auto simp: sublist_Cons_right)
    then have "m exit_logger_begin (event_line e) = None"
      using ok(1) Scope_end no_begin_marker [OF _ _ prefix_text_end, of p]
      by (intro ctre_no_match [OF assms(1)]) (auto simp: in_pattern_def exit_logger_message_def prefix_ok_def)
    moreover have "m exit_logger_end (event_line e) = Some name"
    proof (rule ctre_matches [OF assms(1)])
      show "in_pattern exit_logger_end (event_line e) name"
        using Scope_end ok(1) by (auto simp: in_pattern_def exit_logger_message_def prefix_ok_def)
      show "c = name" if "in_pattern exit_logger_end (event_line e) c" for c
        using that Scope_end ok end_marker_unique [of "prefix_text p" name]
        by (auto simp: in_pattern_def exit_logger_message_def prefix_ok_def)
    qed
    ultimately show ?thesis using Scope_end by simp
  next
    case (Other_message p msg)
    then have ok: "prefix_ok p" "\<not> sublist exit_logger_begin msg" "\<not> sublist exit_logger_end msg"
      using assms(2) by (simp_all add: event_ok_def)
    have "m exit_logger_begin (event_line e) = None"
      using ok Other_message no_begin_marker [OF _ ok(2) prefix_text_end, of p]
      by (intro ctre_no_match [OF assms(1)]) (auto simp: in_pattern_def prefix_ok_def)
    moreover have "m exit_logger_end (event_line e) = None"
      using ok Other_message no_end_marker [OF _ ok(3), of "prefix_text p"]
      by (intro ctre_no_match [OF assms(1)]) (auto simp: in_pattern_def prefix_ok_def)
    ultimately show ?thesis using Other_message by simp
  qed
  then show "m exit_logger_begin (event_line e) = (case e of Scope_begin _ name \<Rightarrow> Some name | _ \<Rightarrow> None)"
    and "(case e of Scope_begin _ _ \<Rightarrow> True | _ \<Rightarrow>
      m exit_logger_end (event_line e) = (case e of Scope_end _ name \<Rightarrow> Some name | _ \<Rightarrow> None))"
    by blast+
qed

lemma text_lines_line: "CHR 0x0A \<notin> set l \<Longrightarrow> text_lines (l @ CHR 0x0A # rest) = l # text_lines rest"
  by (subst text_lines.simps) (simp add: getline_def takeWhile_upto dropWhile_upto)

lemma text_lines_all:
  "\<forall>l \<in> set ls. CHR 0x0A \<notin> set l \<Longrightarrow>
     text_lines (concat (map (\<lambda>l. l @ [CHR 0x0A]) ls) @ rest) = ls @ text_lines rest"
  by (induction ls) (simp_all add: text_lines_line)

lemma text_lines_Nil [simp]: "text_lines [] = []"
  by (subst text_lines.simps) (simp add: getline_def)

lemma log_text_lines: "list_all event_ok evs \<Longrightarrow> text_lines (log_text evs) = map event_line evs"
  using text_lines_all [of "map event_line evs" "[]"]
  by (simp add: log_text_def comp_def list_all_iff event_ok_def)

lemma last_instance_after:
  assumes "ends_with l file_logger_new_instance_str" "\<forall>x \<in> set ls. \<not> ends_with x file_logger_new_instance_str"
  shows "last_instance (old @ l # ls) = ls"
proof -
  have "takeWhile (\<lambda>l. \<not> ends_with l file_logger_new_instance_str) (rev ls @ l # rev old) = rev ls"
    using assms by (subst takeWhile_append2) auto
  then show ?thesis by (simp add: last_instance_def)
qed

text \<open>The scopes that are running after some events, of all threads; a scope ends only when it
  is running.\<close>

fun run_scope :: "log_event \<Rightarrow> string list option \<Rightarrow> string list option" where
  "run_scope e None = None"
| "run_scope (Scope_begin _ name) (Some open) = Some (name # open)"
| "run_scope (Scope_end _ name) (Some open) = (if name \<in> set open then Some (remove1 name open) else None)"
| "run_scope (Other_message _ _) (Some open) = Some open"

lemma count_list_remove1: "count_list (remove1 x xs) k = count_list xs k - (if k = x then 1 else 0)"
  by (induction xs) (auto simp: count_list_0_iff dest: split_list)

lemma running_count:
  assumes "ctre_documented m"
  shows "list_all event_ok evs \<Longrightarrow> fold run_scope evs (Some r) = Some open \<Longrightarrow>
    int (count_list open k) = int (count_list r k) + int (scopes_begun m k (map event_line evs)) -
      int (scopes_ended m k (map event_line evs))"
proof (induction evs arbitrary: r)
  case (Cons e evs)
  have none: "fold run_scope evs None = None" for evs by (induction evs) simp_all
  note m = event_matches [OF assms, of e]
  from Cons show ?case
  proof (cases e)
    case (Scope_end p name)
    with Cons.prems none have in_r: "name \<in> set r" by (auto split: if_splits)
    then have "count_list r name \<noteq> 0" by (simp add: count_list_0_iff)
    then show ?thesis using Cons.IH [of "remove1 name r"] Cons.prems Scope_end m in_r
      by (auto simp: scopes_begun_def scopes_ended_def count_list_remove1)
  qed (use m in \<open>auto simp: scopes_begun_def scopes_ended_def\<close>)
qed (simp add: scopes_begun_def scopes_ended_def)

text \<open>
  C29. The check understands the log: for a run whose threads have begun and ended scopes in
  any order and are still in the scopes \<open>open\<close>, the check of the log file, whatever older
  instances it holds, prints exactly the names of these scopes and fails exactly when there is
  one.\<close>

theorem srs_check_reports_open_scopes:
  assumes "ctre_documented m" "list_all event_ok evs" "fold run_scope evs (Some []) = Some open"
    and "\<forall>l \<in> set old. CHR 0x0A \<notin> set l" "CHR 0x0A \<notin> set (prefix_text p)"
  shows "\<exists>printed. check_main m
      (\<lambda>_. Some (concat (map (\<lambda>l. l @ [CHR 0x0A]) old) @ file_line p file_logger_new_instance_str @ log_text evs))
      filename False = Exit_with (if open = [] then 0 else 1) printed \<and> set printed = set open"
proof -
  let ?s = "concat (map (\<lambda>l. l @ [CHR 0x0A]) old) @ file_line p file_logger_new_instance_str @ log_text evs"
  let ?l = "prefix_text p @ file_logger_new_instance_str"
  have nl: "CHR 0x0A \<notin> set ?l" using assms(5) by (simp add: file_logger_new_instance_str_def)
  have "text_lines ?s = old @ ?l # map event_line evs"
    using text_lines_all [OF assms(4)] text_lines_line [OF nl] log_text_lines [OF assms(2)]
    by (simp add: file_line_def)
  moreover have "ends_with ?l file_logger_new_instance_str" by (simp add: ends_with_def)
  moreover have "\<forall>x \<in> set (map event_line evs). \<not> ends_with x file_logger_new_instance_str"
    using assms(2) by (auto simp: list_all_iff event_ok_def)
  ultimately have inst: "last_instance (text_lines ?s) = map event_line evs"
    by (simp add: last_instance_after)
  obtain f where f: "check_main m (\<lambda>_. Some ?s) filename False =
      (let (ok, printed) = lf_summarize (lf_analysis m f) in Exit_with (if ok then 0 else 1) printed)"
      "call_map (lf_analysis m f) = fold (analyse_line m) (map event_line evs) []"
    using check_main_read [of m ?s filename] unfolding inst by blast
  have count: "call_count (call_map (lf_analysis m f)) k = int (count_list open k)" for k
    using running_count [OF assms(1-3), of k] by (simp add: f(2) analysed(1) call_count_def [of "[]"])
  have "distinct (map fst (call_map (lf_analysis m f)))" by (simp add: f(2) analysed(2))
  note sum = summarised [OF this]
  have "set (snd (lf_summarize (lf_analysis m f))) = set open" using sum count by (auto simp: count_list_0_iff)
  moreover have "fst (lf_summarize (lf_analysis m f)) \<longleftrightarrow> open = []"
    using sum count by (auto simp: count_list_0_iff)
  ultimately show ?thesis by (simp add: f(1) split_def Let_def)
qed

section \<open>A matcher, and a concrete log\<close>

text \<open>A matcher for the pattern: it tries the splits of the line from the right.\<close>

fun has_separator :: "string \<Rightarrow> bool" where
  "has_separator (a # b # c # r) \<longleftrightarrow> a = CHR '']'' \<and> b = CHR ''['' \<or> has_separator (b # c # r)"
| "has_separator _ = False"

lemma has_separator_iff: "has_separator s \<longleftrightarrow> (\<exists>d l. s = d @ '']['' @ l \<and> l \<noteq> [])"
proof (induction s rule: has_separator.induct)
  case (1 a b c r)
  show ?case
  proof
    assume "has_separator (a # b # c # r)"
    then show "\<exists>d l. a # b # c # r = d @ '']['' @ l \<and> l \<noteq> []"
    proof (simp only: has_separator.simps, elim disjE conjE)
      assume "a = CHR '']''" "b = CHR ''[''"
      then show ?thesis by (intro exI [of _ "[]"] exI [of _ "c # r"]) simp
    next
      assume "has_separator (b # c # r)"
      then obtain d l where "b # c # r = d @ '']['' @ l" "l \<noteq> []" using 1 by blast
      then show ?thesis by (intro exI [of _ "a # d"] exI [of _ l]) simp
    qed
  next
    assume "\<exists>d l. a # b # c # r = d @ '']['' @ l \<and> l \<noteq> []"
    then obtain d l where "a # b # c # r = d @ '']['' @ l" "l \<noteq> []" by blast
    note dl = this
    show "has_separator (a # b # c # r)"
    proof (cases d)
      case Nil
      then show ?thesis using dl by (cases l) simp_all
    next
      case (Cons x d')
      then have "has_separator (b # c # r)" using dl 1 by auto
      then show ?thesis by simp
    qed
  qed
qed (auto simp: Cons_eq_append_conv)

definition is_prefix_text :: "string \<Rightarrow> bool" where
  "is_prefix_text s \<longleftrightarrow>
     (let r = rev s; digits = takeWhile is_digit (drop 2 r); rest = dropWhile is_digit (drop 2 r)
      in take 2 r = '' ]'' \<and> digits \<noteq> [] \<and> take 2 rest = ''[]'' \<and>
         (case rev (drop 2 rest) of [] \<Rightarrow> False | c # cs \<Rightarrow> c = CHR ''['' \<and> has_separator cs))"

lemma take2: "take 2 r = [a, b] \<longleftrightarrow> (\<exists>t. r = a # b # t)"
  by (cases r; cases "tl r") (auto simp: numeral_2_eq_2)

lemma is_prefix_text_iff:
  "is_prefix_text s \<longleftrightarrow> (\<exists>p. s = prefix_text p \<and> lp_level p \<noteq> [] \<and> lp_thread p \<noteq> [] \<and> list_all is_digit (lp_thread p))"
proof
  assume ok: "is_prefix_text s"
  let ?d = "drop 2 (rev s)"
  from ok obtain t where t: "rev s = '' ]'' @ t" by (auto simp: is_prefix_text_def Let_def take2)
  from ok obtain u where u: "dropWhile is_digit ?d = ''[]'' @ u" by (auto simp: is_prefix_text_def Let_def take2)
  from ok u obtain cs where cs: "rev u = CHR ''['' # cs" "has_separator cs"
    by (auto simp: is_prefix_text_def Let_def split: list.splits)
  then obtain d l where dl: "cs = d @ '']['' @ l" "l \<noteq> []" by (auto simp: has_separator_iff)
  let ?t = "rev (takeWhile is_digit ?d)"
  have "rev s = '' ]'' @ takeWhile is_digit ?d @ ''[]'' @ u"
    using t u takeWhile_dropWhile_id [of is_digit ?d] by simp
  then have "s = rev u @ '']['' @ ?t @ ''] ''" by (simp add: rev_swap)
  then have "s = prefix_text \<lparr>lp_date = d, lp_level = l, lp_thread = ?t\<rparr>"
    by (simp add: prefix_text_def cs dl)
  moreover have "list_all is_digit ?t" by (auto simp: list_all_iff dest: set_takeWhileD)
  moreover have "?t \<noteq> []" using ok by (simp add: is_prefix_text_def Let_def)
  ultimately show "\<exists>p. s = prefix_text p \<and> lp_level p \<noteq> [] \<and> lp_thread p \<noteq> [] \<and> list_all is_digit (lp_thread p)"
    using dl(2) by (intro exI) auto
next
  assume "\<exists>p. s = prefix_text p \<and> lp_level p \<noteq> [] \<and> lp_thread p \<noteq> [] \<and> list_all is_digit (lp_thread p)"
  then obtain p where p: "s = prefix_text p" "lp_level p \<noteq> []" "lp_thread p \<noteq> []" "list_all is_digit (lp_thread p)"
    by blast
  have nd: "\<not> is_digit (CHR ''['')" by (simp add: is_digit_def)
  have "drop 2 (rev s) = rev (lp_thread p) @ ''[]'' @ rev (lp_level p) @ ''[]'' @ rev (lp_date p) @ ''[''"
    by (simp add: p(1) prefix_text_def)
  then have "takeWhile is_digit (drop 2 (rev s)) = rev (lp_thread p)"
    "dropWhile is_digit (drop 2 (rev s)) = ''[]'' @ rev (lp_level p) @ ''[]'' @ rev (lp_date p) @ ''[''"
    using p(4) nd by (auto simp: takeWhile_append dropWhile_append list_all_iff)
  moreover have "has_separator (lp_date p @ '']['' @ lp_level p)"
    using p(2) by (auto simp: has_separator_iff)
  ultimately show "is_prefix_text s" using p(3)
    by (simp add: is_prefix_text_def Let_def p(1)) (simp add: prefix_text_def)
qed

definition ctre_ref :: ctre where
  "ctre_ref marker line =
     (let m = marker @ '' ''
      in case filter (\<lambda>i. take (length m) (drop i line) = m \<and> is_prefix_text (take i line)) (rev [0..<length line]) of
           [] \<Rightarrow> None | i # _ \<Rightarrow> Some (drop (i + length m) line))"

lemma ctre_ref_split:
  "in_pattern marker line cap \<longleftrightarrow>
     (\<exists>i < length line. take (length (marker @ '' '')) (drop i line) = marker @ '' '' \<and> is_prefix_text (take i line) \<and>
        cap = drop (i + length (marker @ '' '')) line)"
proof
  assume "in_pattern marker line cap"
  then obtain p where p: "line = prefix_text p @ (marker @ '' '') @ cap" "is_prefix_text (prefix_text p)"
    by (auto simp: in_pattern_def is_prefix_text_iff)
  then show "\<exists>i < length line. take (length (marker @ '' '')) (drop i line) = marker @ '' '' \<and> is_prefix_text (take i line) \<and>
        cap = drop (i + length (marker @ '' '')) line"
    by (intro exI [of _ "length (prefix_text p)"]) simp
next
  assume "\<exists>i < length line. take (length (marker @ '' '')) (drop i line) = marker @ '' '' \<and> is_prefix_text (take i line) \<and>
        cap = drop (i + length (marker @ '' '')) line"
  then obtain i where i: "take (length (marker @ '' '')) (drop i line) = marker @ '' ''" "is_prefix_text (take i line)"
      "cap = drop (i + length (marker @ '' '')) line" by blast
  have "line = take i line @ take (length (marker @ '' '')) (drop i line) @ drop (length (marker @ '' '')) (drop i line)"
    by (simp only: append_take_drop_id)
  then have "line = take i line @ (marker @ '' '') @ cap" using i(1,3) by (simp add: add.commute)
  moreover obtain p where "take i line = prefix_text p" "lp_level p \<noteq> []" "lp_thread p \<noteq> []" "list_all is_digit (lp_thread p)"
    using i(2) by (auto simp: is_prefix_text_iff)
  ultimately show "in_pattern marker line cap" unfolding in_pattern_def by (intro exI [of _ p]) simp
qed

lemma ctre_ref_documented: "ctre_documented ctre_ref"
  unfolding ctre_documented_def
proof (intro conjI allI impI)
  fix marker line cap
  let ?f = "filter (\<lambda>i. take (length (marker @ '' '')) (drop i line) = marker @ '' '' \<and> is_prefix_text (take i line))
    (rev [0..<length line])"
  show "in_pattern marker line cap" if m: "ctre_ref marker line = Some cap"
  proof -
    from m obtain i js where "?f = i # js" "cap = drop (i + length (marker @ '' '')) line"
      by (auto simp: ctre_ref_def Let_def split: list.splits)
    moreover from this(1) have "i \<in> set ?f" by (simp only: list.set_intros)
    then have "i < length line" "take (length (marker @ '' '')) (drop i line) = marker @ '' ''" "is_prefix_text (take i line)"
      by auto
    ultimately show ?thesis unfolding ctre_ref_split by (intro exI [of _ i] conjI)
  qed
  show "ctre_ref marker line \<noteq> None" if "in_pattern marker line cap"
  proof -
    from that have "?f \<noteq> []" unfolding ctre_ref_split filter_empty_conv by auto
    then show ?thesis by (cases ?f) (simp_all add: ctre_ref_def Let_def)
  qed
qed

definition sample_prefix :: log_prefix where
  "sample_prefix = \<lparr>lp_date = ''2025-06-01 12:00:00'', lp_level = ''trace'', lp_thread = ''7''\<rparr>"

definition sample_events :: "log_event list" where
  "sample_events = [Scope_begin sample_prefix (scope_name ''main'' ''''), Scope_begin sample_prefix (scope_name ''f'' ''x''),
     Other_message sample_prefix ''hello'', Scope_end sample_prefix (scope_name ''f'' ''x'')]"

lemma sample_events_ok: "list_all event_ok sample_events"
  by code_simp

lemma sample_events_running: "fold run_scope sample_events (Some []) = Some [''main (function)'']"
  by code_simp

lemma srs_check_reports_open_scopes_witness:
  "\<exists>printed. check_main ctre_ref (\<lambda>_. Some (concat (map (\<lambda>l. l @ [CHR 0x0A]) [''old'']) @
      file_line sample_prefix file_logger_new_instance_str @ log_text sample_events)) ''log'' False = Exit_with 1 printed \<and>
    set printed = {''main (function)''}"
  using srs_check_reports_open_scopes [OF ctre_ref_documented sample_events_ok sample_events_running, of "[''old'']" sample_prefix "''log''"]
  by (simp add: prefix_text_def sample_prefix_def)

end
