(* ===== verification/Workflow_Control.thy ===== *)
theory Workflow_Control
  imports State_Machine
begin

text \<open>
  Starting and stopping of the workflow from several threads: \<^verbatim>\<open>AnalysisHandle::start\<close> on the
  workflow thread, any number of calls of \<^verbatim>\<open>AnalysisHandle::stop_workflow\<close> on other threads,
  and the flags \<^verbatim>\<open>is_pipeline_stopped_\<close> of the pipeline lines (\<^verbatim>\<open>TaskDiagram.cpp\<close>). A call
  is cut at its accesses to the shared state: the mutex, the condition variable (a wait tests
  its predicate, gives the mutex back and sleeps until it is notified), the compare-and-swap
  on \<^verbatim>\<open>is_stopped_\<close>, and the reading of the flags one by one.
\<close>

section \<open>The threads\<close>

datatype start_pc = S_begin | S_flag | S_built | S_running

datatype stop_pc = P_call | P_test | P_block | P_waiting | P_woken | P_cas | P_poll nat | P_return

text \<open>\<open>wk_bulks\<close>: the sizes of the bulks of stop markers that were queued.\<close>

record workflow =
  wk_is_stopped :: bool
  wk_task_diagram :: bool
  wk_mutex :: "nat option"
  wk_start :: start_pc
  wk_stops :: "stop_pc list"
  wk_line_idle :: "bool list"
  wk_bulks :: "nat list"

definition wk_initial :: "nat \<Rightarrow> nat \<Rightarrow> workflow" where
  "wk_initial n_lines calls = \<lparr>wk_is_stopped = True, wk_task_diagram = False, wk_mutex = None, wk_start = S_begin,
     wk_stops = replicate calls P_call, wk_line_idle = replicate n_lines True, wk_bulks = []\<rparr>"

definition notify :: "stop_pc \<Rightarrow> stop_pc" where
  "notify p = (if p = P_waiting then P_woken else p)"

text \<open>\<^verbatim>\<open>start\<close>: the flag, the task diagram, the notification, and the run of the lines.\<close>

definition start_step :: "workflow \<Rightarrow> workflow option" where
  "start_step s =
     (case wk_start s of
        S_begin \<Rightarrow> Some (s\<lparr>wk_is_stopped := False, wk_start := S_flag\<rparr>)
      | S_flag \<Rightarrow> Some (s\<lparr>wk_task_diagram := True, wk_line_idle := map (\<lambda>_. True) (wk_line_idle s), wk_start := S_built\<rparr>)
      | S_built \<Rightarrow> Some (s\<lparr>wk_stops := map notify (wk_stops s), wk_start := S_running\<rparr>)
      | S_running \<Rightarrow> None)"

text \<open>\<^verbatim>\<open>is_taskflow_abort_ready\<close> reads the flags in order and starts again after a line that
  is busy.\<close>

definition poll_step :: "bool list \<Rightarrow> nat \<Rightarrow> nat" where
  "poll_step line_idle i = (if line_idle ! i then i + 1 else 0)"

text \<open>\<^verbatim>\<open>stop_workflow\<close>, a step of the call \<open>k\<close>; \<open>None\<close> when it cannot go on by itself.\<close>

definition stop_step :: "nat \<Rightarrow> workflow \<Rightarrow> workflow option" where
  "stop_step k s =
     (let goto = (\<lambda>p s. s\<lparr>wk_stops := (wk_stops s)[k := p]\<rparr>);
          lock = (if wk_mutex s = None then Some (goto P_test (s\<lparr>wk_mutex := Some k\<rparr>)) else None)
      in case wk_stops s ! k of
           P_call \<Rightarrow> lock
         | P_test \<Rightarrow> Some (goto (if wk_task_diagram s then P_cas else P_block) s)
         | P_block \<Rightarrow> Some (goto P_waiting (s\<lparr>wk_mutex := None\<rparr>))
         | P_waiting \<Rightarrow> None
         | P_woken \<Rightarrow> lock
         | P_cas \<Rightarrow>
             if \<not> wk_is_stopped s then Some (goto (P_poll 0) (s\<lparr>wk_is_stopped := True\<rparr>))
             else Some (goto P_return (s\<lparr>wk_mutex := None\<rparr>))
         | P_poll i \<Rightarrow>
             if i < length (wk_line_idle s) then Some (goto (P_poll (poll_step (wk_line_idle s) i)) s)
             else Some (goto P_return (s\<lparr>wk_mutex := None, wk_bulks := length (wk_line_idle s) # wk_bulks s\<rparr>))
         | P_return \<Rightarrow> None)"

text \<open>The lines set their flags while the diagram runs; a wait may also wake up without a
  notification (\<open>spurious\<close>).\<close>

inductive wk_step :: "bool \<Rightarrow> workflow \<Rightarrow> workflow \<Rightarrow> bool" for spurious where
  wk_start_step: "start_step s = Some t \<Longrightarrow> wk_step spurious s t"
| wk_stop_step: "k < length (wk_stops s) \<Longrightarrow> stop_step k s = Some t \<Longrightarrow> wk_step spurious s t"
| wk_wake: "spurious \<Longrightarrow> k < length (wk_stops s) \<Longrightarrow> wk_stops s ! k = P_waiting \<Longrightarrow>
    wk_step spurious s (s\<lparr>wk_stops := (wk_stops s)[k := P_woken]\<rparr>)"
| wk_line: "wk_start s = S_running \<Longrightarrow> i < length (wk_line_idle s) \<Longrightarrow>
    wk_step spurious s (s\<lparr>wk_line_idle := (wk_line_idle s)[i := idle]\<rparr>)"

section \<open>The invariant\<close>

fun in_lock :: "stop_pc \<Rightarrow> bool" where
  "in_lock P_test = True"
| "in_lock P_block = True"
| "in_lock P_cas = True"
| "in_lock (P_poll _) = True"
| "in_lock _ = False"

fun past_wait :: "stop_pc \<Rightarrow> bool" where
  "past_wait P_cas = True"
| "past_wait (P_poll _) = True"
| "past_wait P_return = True"
| "past_wait _ = False"

fun polling :: "stop_pc \<Rightarrow> bool" where
  "polling (P_poll _) = True"
| "polling _ = False"

text \<open>What holds of the call \<open>k\<close>, given the rest of the state.\<close>

definition call_inv :: "nat \<Rightarrow> workflow \<Rightarrow> nat \<Rightarrow> bool" where
  "call_inv n s k \<longleftrightarrow>
     (in_lock (wk_stops s ! k) \<longleftrightarrow> wk_mutex s = Some k) \<and>
     (past_wait (wk_stops s ! k) \<longrightarrow> wk_task_diagram s) \<and>
     (polling (wk_stops s ! k) \<longrightarrow> wk_is_stopped s \<and> wk_bulks s = []) \<and>
     (wk_stops s ! k = P_return \<longrightarrow> wk_bulks s = [n])"

definition wk_inv :: "nat \<Rightarrow> workflow \<Rightarrow> bool" where
  "wk_inv n s \<longleftrightarrow> length (wk_line_idle s) = n \<and>
     (\<forall>k < length (wk_stops s). call_inv n s k) \<and>
     (\<forall>k. wk_mutex s = Some k \<longrightarrow> k < length (wk_stops s)) \<and>
     (wk_task_diagram s \<longleftrightarrow> wk_start s = S_built \<or> wk_start s = S_running) \<and>
     (wk_start s = S_flag \<longrightarrow> \<not> wk_is_stopped s) \<and>
     (wk_bulks s = [] \<or> wk_bulks s = [n] \<and> wk_is_stopped s \<and> wk_task_diagram s) \<and>
     (wk_task_diagram s \<and> wk_is_stopped s \<longrightarrow>
        wk_bulks s = [n] \<or> (\<exists>k. wk_mutex s = Some k \<and> polling (wk_stops s ! k)))"

lemma wk_inv_initial: "wk_inv n (wk_initial n calls)"
  by (simp add: wk_inv_def wk_initial_def call_inv_def)


lemma notify_simps [simp]:
  "in_lock (notify p) = in_lock p" "past_wait (notify p) = past_wait p" "polling (notify p) = polling p"
  "notify p = P_return \<longleftrightarrow> p = P_return" "notify p \<noteq> P_waiting"
  by (simp_all add: notify_def)

lemma polling_past: "polling p \<Longrightarrow> past_wait p \<and> in_lock p"
  by (cases p) simp_all

lemma wk_inv_start:
  assumes "wk_inv n s" "start_step s = Some t"
  shows "wk_inv n t"
proof (cases "wk_start s")
  case S_begin
  then show ?thesis using assms by (auto simp: wk_inv_def start_step_def call_inv_def dest: polling_past)
next
  case S_flag
  then show ?thesis using assms by (auto simp: wk_inv_def start_step_def call_inv_def)
next
  case S_built
  then show ?thesis using assms by (auto simp: wk_inv_def start_step_def call_inv_def)
next
  case S_running
  then show ?thesis using assms(2) by (simp add: start_step_def)
qed

text \<open>A call that moves to \<open>p\<close> and leaves the rest as it is, apart from the mutex.\<close>

lemma wk_inv_move:
  assumes inv: "wk_inv n s" and k: "k < length (wk_stops s)" and np: "\<not> polling (wk_stops s ! k)" "\<not> polling p"
    and m: "m = Some k \<longleftrightarrow> in_lock p" "\<And>j. j \<noteq> k \<Longrightarrow> m = Some j \<longleftrightarrow> wk_mutex s = Some j"
    and past: "past_wait p \<longrightarrow> wk_task_diagram s" "p = P_return \<longrightarrow> wk_bulks s = [n]"
  shows "wk_inv n (s\<lparr>wk_mutex := m, wk_stops := (wk_stops s)[k := p]\<rparr>)" (is "wk_inv n ?t")
proof -
  have "call_inv n ?t j" if "j < length (wk_stops s)" for j
  proof (cases "j = k")
    case True
    then show ?thesis using k np m(1) past by (simp add: call_inv_def)
  next
    case False
    have "call_inv n s j" using inv that by (simp add: wk_inv_def)
    then show ?thesis using m(2) [OF False] False by (simp add: call_inv_def)
  qed
  moreover have "j < length (wk_stops s)" if "m = Some j" for j
    using that k m(2) [of j] inv by (cases "j = k") (auto simp: wk_inv_def)
  moreover have "wk_bulks s = [n] \<or> (\<exists>j. m = Some j \<and> polling ((wk_stops s)[k := p] ! j))"
    if "wk_task_diagram s" "wk_is_stopped s"
  proof -
    have "wk_bulks s = [n] \<or> (\<exists>j. wk_mutex s = Some j \<and> polling (wk_stops s ! j))"
      using inv that by (simp add: wk_inv_def)
    then show ?thesis using np(1) m(2) by (metis nth_list_update_neq)
  qed
  ultimately show ?thesis using inv by (auto simp: wk_inv_def)
qed

lemma wk_inv_move_same:
  assumes "wk_inv n s" "k < length (wk_stops s)" "\<not> polling (wk_stops s ! k)" "\<not> polling p"
    and "in_lock p \<longleftrightarrow> in_lock (wk_stops s ! k)" "past_wait p \<longrightarrow> wk_task_diagram s" "p \<noteq> P_return"
  shows "wk_inv n (s\<lparr>wk_stops := (wk_stops s)[k := p]\<rparr>)"
proof -
  have "wk_mutex s = Some k \<longleftrightarrow> in_lock p" using assms by (simp add: wk_inv_def call_inv_def)
  then show ?thesis using wk_inv_move [OF assms(1-4), of "wk_mutex s"] assms(6,7) by simp
qed

lemma wk_inv_stop:
  assumes inv: "wk_inv n s" and k: "k < length (wk_stops s)" and step: "stop_step k s = Some t"
  shows "wk_inv n t"
proof -
  have call: "call_inv n s k" and others: "\<And>j. j < length (wk_stops s) \<Longrightarrow> call_inv n s j"
    using inv k by (simp_all add: wk_inv_def)
  note move = wk_inv_move [OF inv k]
  show ?thesis
  proof (cases "wk_stops s ! k")
    case P_call
    then show ?thesis using step move [of P_test "Some k"] by (auto simp: stop_step_def split: if_splits)
  next
    case P_test
    then show ?thesis using step wk_inv_move_same [OF inv k, of P_cas] wk_inv_move_same [OF inv k, of P_block]
      by (auto simp: stop_step_def split: if_splits)
  next
    case P_block
    then show ?thesis using step call move [of P_waiting None] by (auto simp: stop_step_def call_inv_def)
  next
    case P_woken
    then show ?thesis using step move [of P_test "Some k"] by (auto simp: stop_step_def split: if_splits)
  next
    case P_cas
    then have m: "wk_mutex s = Some k" "wk_task_diagram s" using call by (simp_all add: call_inv_def)
    show ?thesis
    proof (cases "wk_is_stopped s")
      case True
      then have "wk_bulks s = [n]" using inv m P_cas by (auto simp: wk_inv_def)
      then show ?thesis using step P_cas True m move [of P_return None] by (auto simp: stop_step_def)
    next
      case False
      then have t: "t = s\<lparr>wk_is_stopped := True, wk_stops := (wk_stops s)[k := P_poll 0]\<rparr>"
        using step P_cas by (simp add: stop_step_def)
      have b: "wk_bulks s = []" using inv False by (auto simp: wk_inv_def)
      have "call_inv n t j" if "j < length (wk_stops s)" for j
        using others [OF that] others [OF k] k m b t by (cases "j = k") (auto simp: call_inv_def)
      then show ?thesis using inv k m b by (auto simp: wk_inv_def t)
    qed
  next
    case (P_poll i)
    then have c: "wk_mutex s = Some k" "wk_task_diagram s" "wk_is_stopped s" "wk_bulks s = []"
      using call by (simp_all add: call_inv_def)
    show ?thesis
    proof (cases "i < length (wk_line_idle s)")
      case True
      then have t: "t = s\<lparr>wk_stops := (wk_stops s)[k := P_poll (poll_step (wk_line_idle s) i)]\<rparr>"
        using step P_poll by (simp add: stop_step_def)
      have "call_inv n t j" if "j < length (wk_stops s)" for j
        using others [OF that] k c by (cases "j = k") (simp_all add: call_inv_def t)
      then show ?thesis using inv k c by (auto simp: wk_inv_def t)
    next
      case False
      then have t: "t = s\<lparr>wk_mutex := None, wk_bulks := n # wk_bulks s, wk_stops := (wk_stops s)[k := P_return]\<rparr>"
        using step P_poll inv by (simp add: stop_step_def wk_inv_def)
      have "call_inv n t j" if "j < length (wk_stops s)" for j
        using others [OF that] k c by (cases "j = k") (auto simp: call_inv_def t dest: polling_past)
      then show ?thesis using inv k c by (auto simp: wk_inv_def t)
    qed
  qed (use step in \<open>simp_all add: stop_step_def\<close>)
qed

interpretation wk: invariant_system "\<lambda>s. \<exists>calls. s = wk_initial n calls" "wk_step spurious" "wk_inv n"
proof
  show "wk_inv n s" if "\<exists>calls. s = wk_initial n calls" for s
    using that wk_inv_initial by blast
  show "wk_inv n t" if "wk_inv n s" "wk_step spurious s t" for s t
    using that(2,1)
  proof cases
    case (wk_wake k)
    moreover have "wk_mutex s \<noteq> Some k" using that(1) wk_wake by (auto simp: wk_inv_def call_inv_def)
    ultimately show ?thesis using wk_inv_move [OF that(1), of k P_woken "wk_mutex s"] by simp
  next
    case (wk_line i idle)
    then show ?thesis using that(1) by (auto simp: wk_inv_def call_inv_def)
  qed (use that in \<open>blast intro: wk_inv_start wk_inv_stop\<close>)+
qed

text \<open>
  C30. However the start of the workflow and any number of calls of \<^verbatim>\<open>stop_workflow\<close> are
  interleaved: no call gets past its wait before the task diagram exists; the stop markers are
  queued at most once, one for every line; and as soon as one call has returned, they have been
  queued, also when another call has done it.\<close>

theorem stop_markers_queued_once:
  assumes "reach (\<lambda>s. \<exists>calls. s = wk_initial n calls) (wk_step spurious) s" "k < length (wk_stops s)"
  shows "(wk_bulks s = [] \<or> wk_bulks s = [n]) \<and>
    (past_wait (wk_stops s ! k) \<longrightarrow> wk_task_diagram s) \<and>
    (wk_stops s ! k = P_return \<longrightarrow> wk_bulks s = [n] \<and> wk_is_stopped s)"
  using wk.inv_reach [OF assms(1)] assms(2) by (auto simp: wk_inv_def call_inv_def)

section \<open>A call that misses the start\<close>

lemma waiting_stays:
  assumes "steps (wk_step False) s t" "wk_start s = S_running" "wk_stops s = [P_waiting]" "wk_bulks s = []"
  shows "wk_start t = S_running \<and> wk_stops t = [P_waiting] \<and> wk_bulks t = []"
  using assms
proof (induction rule: steps.induct)
  case (steps_step s t u)
  from steps_step.hyps(1) steps_step.prems have "wk_start t = S_running \<and> wk_stops t = [P_waiting] \<and> wk_bulks t = []"
    by cases (auto simp: start_step_def stop_step_def)
  then show ?case using steps_step.IH by blast
qed simp

definition missed :: "nat \<Rightarrow> workflow" where
  "missed n = (wk_initial n 1)\<lparr>wk_is_stopped := False, wk_task_diagram := True, wk_start := S_running,
     wk_stops := [P_waiting]\<rparr>"

lemma missed_reach: "reach (\<lambda>s. \<exists>calls. s = wk_initial n calls) (wk_step False) (missed n)"
proof -
  let ?r = "reach (\<lambda>s. \<exists>calls. s = wk_initial n calls) (wk_step False)"
  let ?s = "wk_initial n 1"
  have "?r ?s" by (rule reach_init) blast
  then have "?r (?s\<lparr>wk_mutex := Some 0, wk_stops := [P_test]\<rparr>)"
    by (rule reach_step) (rule wk_stop_step [of 0], simp_all add: stop_step_def wk_initial_def)
  then have "?r (?s\<lparr>wk_mutex := Some 0, wk_stops := [P_block]\<rparr>)"
    by (rule reach_step) (rule wk_stop_step [of 0], simp_all add: stop_step_def wk_initial_def)
  then have "?r (?s\<lparr>wk_mutex := Some 0, wk_stops := [P_block], wk_is_stopped := False, wk_start := S_flag\<rparr>)"
    by (rule reach_step) (rule wk_start_step, simp add: start_step_def wk_initial_def)
  then have "?r (?s\<lparr>wk_mutex := Some 0, wk_stops := [P_block], wk_is_stopped := False, wk_task_diagram := True,
      wk_start := S_built\<rparr>)"
    by (rule reach_step) (rule wk_start_step, simp add: start_step_def wk_initial_def map_replicate_const)
  then have "?r (?s\<lparr>wk_mutex := Some 0, wk_stops := [P_block], wk_is_stopped := False, wk_task_diagram := True,
      wk_start := S_running\<rparr>)"
    by (rule reach_step) (rule wk_start_step, simp add: start_step_def wk_initial_def notify_def)
  then show ?thesis
    by (rule reach_step) (rule wk_stop_step [of 0], simp_all add: stop_step_def wk_initial_def missed_def)
qed

text \<open>
  A stop can miss the start: the call has found no task diagram and not yet gone to sleep
  when the start, which does not hold the mutex, creates the diagram and notifies; without a
  spurious wake-up the call then never returns and the stop markers are never queued.\<close>

theorem stop_can_miss_start:
  "\<exists>s. reach (\<lambda>s. \<exists>calls. s = wk_initial n calls) (wk_step False) s \<and>
     wk_task_diagram s \<and> wk_start s = S_running \<and>
     (\<forall>t. steps (wk_step False) s t \<longrightarrow> wk_stops t = [P_waiting] \<and> wk_bulks t = [])"
proof (intro exI conjI allI impI)
  show "reach (\<lambda>s. \<exists>calls. s = wk_initial n calls) (wk_step False) (missed n)" by (rule missed_reach)
  show "wk_task_diagram (missed n)" "wk_start (missed n) = S_running" by (simp_all add: missed_def)
  fix t assume "steps (wk_step False) (missed n) t"
  then have "wk_start t = S_running \<and> wk_stops t = [P_waiting] \<and> wk_bulks t = []"
    by (rule waiting_stays) (simp_all add: missed_def wk_initial_def)
  then show "wk_stops t = [P_waiting]" "wk_bulks t = []" by simp_all
qed

section \<open>Calls that do not miss it\<close>

lemma lines_become_idle:
  assumes "wk_start s = S_running" "j \<le> length (wk_line_idle s)"
  shows "steps (wk_step sp) s (s\<lparr>wk_line_idle := replicate j True @ drop j (wk_line_idle s)\<rparr>)"
  using assms(2)
proof (induction j)
  case 0
  then show ?case by (simp add: steps_refl)
next
  case (Suc j)
  let ?u = "s\<lparr>wk_line_idle := replicate j True @ drop j (wk_line_idle s)\<rparr>"
  have "drop j (wk_line_idle s) = wk_line_idle s ! j # drop (Suc j) (wk_line_idle s)"
    using Suc.prems by (simp add: Cons_nth_drop_Suc)
  then have "(replicate j True @ drop j (wk_line_idle s))[j := True] = replicate (Suc j) True @ drop (Suc j) (wk_line_idle s)"
    by (simp add: list_update_append replicate_append_same)
  then have "wk_step sp ?u (s\<lparr>wk_line_idle := replicate (Suc j) True @ drop (Suc j) (wk_line_idle s)\<rparr>)"
    using wk_line [of ?u j sp True] assms(1) Suc.prems by simp
  with Suc show ?case by (auto intro: steps_trans steps_one)
qed

lemma poll_finishes:
  assumes "k < length (wk_stops s)" "wk_stops s ! k = P_poll i" "\<forall>b \<in> set (wk_line_idle s). b"
  shows "\<exists>b. steps (wk_step sp) s (s\<lparr>wk_mutex := None, wk_bulks := b, wk_stops := (wk_stops s)[k := P_return]\<rparr>)"
  using assms
proof (induction "length (wk_line_idle s) - i" arbitrary: s i rule: less_induct)
  case less
  show ?case
  proof (cases "i < length (wk_line_idle s)")
    case False
    then have "stop_step k s = Some (s\<lparr>wk_mutex := None, wk_bulks := length (wk_line_idle s) # wk_bulks s,
        wk_stops := (wk_stops s)[k := P_return]\<rparr>)"
      using less.prems by (simp add: stop_step_def)
    from wk_stop_step [OF less.prems(1) this] show ?thesis by (intro exI) (rule steps_one)
  next
    case True
    let ?t = "s\<lparr>wk_stops := (wk_stops s)[k := P_poll (i + 1)]\<rparr>"
    have "wk_line_idle s ! i" using less.prems(3) True nth_mem by blast
    then have "stop_step k s = Some ?t"
      using less.prems True by (simp add: stop_step_def poll_step_def)
    then have "wk_step sp s ?t" by (rule wk_stop_step [OF less.prems(1)])
    moreover have "\<exists>b. steps (wk_step sp) ?t (?t\<lparr>wk_mutex := None, wk_bulks := b, wk_stops := (wk_stops ?t)[k := P_return]\<rparr>)"
      by (rule less.hyps [of ?t "i + 1"]) (use less.prems True in simp_all)
    then obtain b where "steps (wk_step sp) ?t (?t\<lparr>wk_mutex := None, wk_bulks := b, wk_stops := (wk_stops ?t)[k := P_return]\<rparr>)" ..
    ultimately have "steps (wk_step sp) s (?t\<lparr>wk_mutex := None, wk_bulks := b, wk_stops := (wk_stops ?t)[k := P_return]\<rparr>)"
      by (rule steps_step)
    then show ?thesis by (intro exI [of _ b]) simp
  qed
qed

fun call_weight :: "stop_pc \<Rightarrow> nat" where
  "call_weight P_test = 3"
| "call_weight P_cas = 2"
| "call_weight (P_poll _) = 1"
| "call_weight P_return = 0"
| "call_weight _ = 4"

definition not_missed :: "nat \<Rightarrow> workflow \<Rightarrow> bool" where
  "not_missed n s \<longleftrightarrow> wk_inv n s \<and> wk_start s = S_running \<and> P_block \<notin> set (wk_stops s) \<and> P_waiting \<notin> set (wk_stops s)"

definition all_returned :: "workflow \<Rightarrow> bool" where
  "all_returned s \<longleftrightarrow> set (wk_stops s) \<subseteq> {P_return}"

lemma weight_update:
  assumes "k < length xs" "call_weight p < call_weight (xs ! k)"
  shows "sum_list (map call_weight (xs[k := p])) < sum_list (map call_weight xs)"
proof -
  have "xs = take k xs @ xs ! k # drop (Suc k) xs" using assms(1) by (rule id_take_nth_drop)
  then have "sum_list (map call_weight xs) = sum_list (map call_weight (take k xs)) + call_weight (xs ! k) +
      sum_list (map call_weight (drop (Suc k) xs))"
    by (metis (no_types, lifting) add.assoc list.simps(9) map_append sum_list.Cons sum_list_append)
  then show ?thesis using assms by (simp add: upd_conv_take_nth_drop)
qed

lemma one_step:
  "k < length (wk_stops s) \<Longrightarrow> stop_step k s = Some t \<Longrightarrow> wk_start t = wk_start s \<Longrightarrow>
     wk_stops t = (wk_stops s)[k := p] \<Longrightarrow>
     \<exists>t. steps (wk_step False) s t \<and> wk_start t = wk_start s \<and> wk_stops t = (wk_stops s)[k := p]"
  by (blast intro: steps_one wk_stop_step)

lemma call_progress:
  assumes "not_missed n s" "k < length (wk_stops s)" "wk_stops s ! k \<noteq> P_return"
    and "wk_mutex s = None \<or> wk_mutex s = Some k"
  shows "\<exists>p. p \<notin> {P_block, P_waiting} \<and> call_weight p < call_weight (wk_stops s ! k) \<and>
    (\<exists>t. steps (wk_step False) s t \<and> wk_start t = wk_start s \<and> wk_stops t = (wk_stops s)[k := p])"
proof -
  have call: "call_inv n s k" and td: "wk_task_diagram s" and run: "wk_start s = S_running"
    using assms(1,2) by (simp_all add: not_missed_def wk_inv_def)
  have locked: "wk_mutex s = None" if "\<not> in_lock (wk_stops s ! k)"
    using call that assms(4) by (simp add: call_inv_def)
  have ok: "wk_stops s ! k \<notin> {P_block, P_waiting}"
    using assms(1,2) by (metis empty_iff insert_iff not_missed_def nth_mem)
  note step = one_step [OF assms(2)]
  show ?thesis
  proof (cases "wk_stops s ! k")
    case P_call
    then show ?thesis using locked
      by (intro exI [of _ P_test] conjI step [of "s\<lparr>wk_mutex := Some k, wk_stops := (wk_stops s)[k := P_test]\<rparr>"])
        (simp_all add: stop_step_def)
  next
    case P_woken
    then show ?thesis using locked
      by (intro exI [of _ P_test] conjI step [of "s\<lparr>wk_mutex := Some k, wk_stops := (wk_stops s)[k := P_test]\<rparr>"])
        (simp_all add: stop_step_def)
  next
    case P_test
    then show ?thesis using td
      by (intro exI [of _ P_cas] conjI step [of "s\<lparr>wk_stops := (wk_stops s)[k := P_cas]\<rparr>"])
        (simp_all add: stop_step_def)
  next
    case P_cas
    show ?thesis
    proof (cases "wk_is_stopped s")
      case True
      then show ?thesis using P_cas
        by (intro exI [of _ P_return] conjI step [of "s\<lparr>wk_mutex := None, wk_stops := (wk_stops s)[k := P_return]\<rparr>"])
          (simp_all add: stop_step_def)
    next
      case False
      then show ?thesis using P_cas
        by (intro exI [of _ "P_poll 0"] conjI step [of "s\<lparr>wk_is_stopped := True, wk_stops := (wk_stops s)[k := P_poll 0]\<rparr>"])
          (simp_all add: stop_step_def)
    qed
  next
    case (P_poll i)
    let ?u = "s\<lparr>wk_line_idle := replicate (length (wk_line_idle s)) True\<rparr>"
    have "steps (wk_step False) s ?u"
      using lines_become_idle [OF run, of "length (wk_line_idle s)" False] by simp
    moreover obtain b where "steps (wk_step False) ?u (?u\<lparr>wk_mutex := None, wk_bulks := b, wk_stops := (wk_stops ?u)[k := P_return]\<rparr>)"
      using poll_finishes [of k ?u i False] assms(2) P_poll by auto
    ultimately have "steps (wk_step False) s (?u\<lparr>wk_mutex := None, wk_bulks := b, wk_stops := (wk_stops ?u)[k := P_return]\<rparr>)"
      by (rule steps_trans)
    then show ?thesis using P_poll by (intro exI [of _ P_return] conjI exI) (assumption | simp)+
  qed (use assms(3) ok in simp_all)
qed

interpretation stopping: terminating_system "wk_step False" "not_missed n" all_returned
    "\<lambda>s. sum_list (map call_weight (wk_stops s))"
proof
  fix s assume s: "not_missed n s" "\<not> all_returned s"
  obtain k where k: "k < length (wk_stops s)" "wk_stops s ! k \<noteq> P_return" "wk_mutex s = None \<or> wk_mutex s = Some k"
  proof (cases "wk_mutex s")
    case None
    from s(2) obtain p where "p \<in> set (wk_stops s)" "p \<noteq> P_return" by (auto simp: all_returned_def)
    then show ?thesis using that None by (metis in_set_conv_nth)
  next
    case (Some k)
    then have "k < length (wk_stops s)" "in_lock (wk_stops s ! k)"
      using s(1) by (auto simp: not_missed_def wk_inv_def call_inv_def)
    then show ?thesis using that [of k] Some by (cases "wk_stops s ! k") simp_all
  qed
  then obtain p t where t: "p \<notin> {P_block, P_waiting}" "call_weight p < call_weight (wk_stops s ! k)"
      "steps (wk_step False) s t" "wk_start t = wk_start s" "wk_stops t = (wk_stops s)[k := p]"
    using call_progress [OF s(1)] by blast
  have "wk_inv n t" using wk.inv_steps [OF t(3)] s(1) by (simp add: not_missed_def)
  moreover have "set (wk_stops t) \<subseteq> insert p (set (wk_stops s))"
    unfolding t(5) by (rule set_update_subset_insert)
  ultimately have "not_missed n t" using s(1) t(1,4) by (auto simp: not_missed_def)
  then show "\<exists>t. steps (wk_step False) s t \<and> not_missed n t \<and>
      sum_list (map call_weight (wk_stops t)) < sum_list (map call_weight (wk_stops s))"
    using t weight_update [OF k(1) t(2)] by metis
qed

text \<open>
  C31. In every interleaving in which the workflow runs and no call sleeps, every call of
  \<^verbatim>\<open>stop_workflow\<close> can return, and then the stop markers have been queued.\<close>

theorem stop_calls_return:
  assumes "reach (\<lambda>s. \<exists>calls. s = wk_initial n calls) (wk_step spurious) s" "wk_start s = S_running"
    and "P_block \<notin> set (wk_stops s)" "P_waiting \<notin> set (wk_stops s)" "wk_stops s \<noteq> []"
  shows "\<exists>t. steps (wk_step False) s t \<and> set (wk_stops t) = {P_return} \<and> wk_bulks t = [n]"
proof -
  have "not_missed n s" using wk.inv_reach [OF assms(1)] assms(2-4) by (simp add: not_missed_def)
  then obtain t where t: "steps (wk_step False) s t" "not_missed n t" "all_returned t"
    using stopping.reaches_goal by blast
  have len: "length (wk_stops t) = length (wk_stops s)"
    using t(1)
  proof (induction rule: steps.induct)
    case (steps_step s t u)
    from steps_step.hyps(1) have "length (wk_stops t) = length (wk_stops s)"
      by cases (auto simp: start_step_def stop_step_def Let_def split: start_pc.splits stop_pc.splits if_splits)
    then show ?case using steps_step.IH by simp
  qed simp
  then have "wk_stops t \<noteq> []" using assms(5) by auto
  then have r: "set (wk_stops t) = {P_return}" using t(3) by (cases "wk_stops t") (auto simp: all_returned_def)
  then have "wk_stops t ! 0 = P_return" "0 < length (wk_stops t)"
    using \<open>wk_stops t \<noteq> []\<close> nth_mem [of 0 "wk_stops t"] by auto
  then have "wk_bulks t = [n]" using t(2) by (auto simp: not_missed_def wk_inv_def call_inv_def)
  with t(1) r show ?thesis by blast
qed

section \<open>Concrete runs\<close>

lemma stop_markers_queued_once_witness:
  "wk_bulks (wk_initial 2 3) = [] \<or> wk_bulks (wk_initial 2 3) = [2]"
proof -
  have "reach (\<lambda>s. \<exists>calls. s = wk_initial 2 calls) (wk_step True) (wk_initial 2 3)" by (rule reach_init) blast
  from stop_markers_queued_once [OF this, of 1] show ?thesis by (simp add: wk_initial_def)
qed

lemma stop_can_miss_start_witness:
  "\<exists>s. reach (\<lambda>s. \<exists>calls. s = wk_initial 4 calls) (wk_step False) s \<and> wk_stops s = [P_waiting]"
proof -
  obtain s where "reach (\<lambda>s. \<exists>calls. s = wk_initial 4 calls) (wk_step False) s"
      "\<forall>t. steps (wk_step False) s t \<longrightarrow> wk_stops t = [P_waiting] \<and> wk_bulks t = []"
    using stop_can_miss_start [of 4] by blast
  moreover have "steps (wk_step False) s s" by (rule steps_refl)
  ultimately show ?thesis by blast
qed

lemma stop_calls_return_witness:
  "\<exists>t :: workflow. set (wk_stops t) = {P_return} \<and> wk_bulks t = [3]"
proof -
  let ?r = "reach (\<lambda>s. \<exists>calls. s = wk_initial 3 calls) (wk_step False)"
  let ?s = "wk_initial 3 2"
  have "?r ?s" by (rule reach_init) blast
  then have "?r (?s\<lparr>wk_is_stopped := False, wk_start := S_flag\<rparr>)"
    by (rule reach_step) (rule wk_start_step, simp add: start_step_def wk_initial_def)
  then have "?r (?s\<lparr>wk_is_stopped := False, wk_task_diagram := True, wk_start := S_built\<rparr>)"
    by (rule reach_step) (rule wk_start_step, simp add: start_step_def wk_initial_def map_replicate_const)
  then have "?r (?s\<lparr>wk_is_stopped := False, wk_task_diagram := True, wk_start := S_running\<rparr>)"
    by (rule reach_step) (rule wk_start_step, simp add: start_step_def wk_initial_def notify_def)
  then have "\<exists>t. steps (wk_step False)
      (?s\<lparr>wk_is_stopped := False, wk_task_diagram := True, wk_start := S_running\<rparr>) t \<and>
      set (wk_stops t) = {P_return} \<and> wk_bulks t = [3]"
    by (rule stop_calls_return) (simp_all add: wk_initial_def)
  then show ?thesis by blast
qed

end
