(* ===== verification/Config_Files.thy ===== *)
theory Config_Files
  imports App_Lifecycle Fec_Emulator Log_Check
begin

text \<open>
  Configuration files: \<^verbatim>\<open>ConfigHandler.hpp\<close> and its use by the two programs
  (\<^verbatim>\<open>srs_fec_emulator.cpp\<close>, the dump of \<^verbatim>\<open>srs_control.cpp\<close>). The glaze library, which
  writes and reads the text of a configuration, is a parameter \<open>glaze\<close>; the files are a map
  from names to texts. A step returns an error or none, or raises an exception (a directory
  that cannot be made).
\<close>

section \<open>Files and the library\<close>

datatype ConfigFileType = ft_json | ft_yaml | ft_invalid

record file_system =
  fs_text :: "string \<Rightarrow> string option"
  fs_writable :: "string \<Rightarrow> bool"
  fs_has_parent :: "string \<Rightarrow> bool"

record 'c glaze =
  gl_write :: "ConfigFileType \<Rightarrow> 'c \<Rightarrow> string + string"
  gl_read :: "ConfigFileType \<Rightarrow> string \<Rightarrow> 'c \<Rightarrow> string option \<times> 'c"

text \<open>What is written of a configuration is read back, whatever the target held.\<close>

definition glaze_keeps :: "'c glaze \<Rightarrow> 'c \<Rightarrow> bool" where
  "glaze_keeps g c \<longleftrightarrow>
     (\<forall>t d. t \<noteq> ft_invalid \<longrightarrow> (\<exists>s. gl_write g t c = Inr s \<and> gl_read g t s d = (None, c)))"

datatype config_error = Err_exists string | Err_suffix string | Err_write ConfigFileType string string
  | Err_read ConfigFileType string string | Err_empty | Err_missing string

datatype config_result = Raised string | Returned "config_error option"

section \<open>Reading and writing\<close>

definition resolve_filetype :: "string \<Rightarrow> ConfigFileType" where
  "resolve_filetype filename =
     (if ends_with filename ''.json'' then ft_json
      else if ends_with filename ''.yml'' \<or> ends_with filename ''.yaml'' then ft_yaml
      else ft_invalid)"

definition write_file :: "'c glaze \<Rightarrow> ConfigFileType \<Rightarrow> 'c \<Rightarrow> string \<Rightarrow> file_system \<Rightarrow> string option \<times> file_system" where
  "write_file g t config filename fs =
     (case gl_write g t config of
        Inl e \<Rightarrow> (Some e, fs)
      | Inr s \<Rightarrow>
          if fs_writable fs filename then (None, fs\<lparr>fs_text := (fs_text fs)(filename := Some s)\<rparr>)
          else (Some ''file open failure'', fs))"

definition read_file :: "'c glaze \<Rightarrow> ConfigFileType \<Rightarrow> 'c \<Rightarrow> string \<Rightarrow> file_system \<Rightarrow> string option \<times> 'c" where
  "read_file g t config filename fs =
     (case fs_text fs filename of
        None \<Rightarrow> (Some ''file open failure'', config)
      | Some s \<Rightarrow> gl_read g t s config)"

definition output_config_to_json :: "'c glaze \<Rightarrow> 'c \<Rightarrow> string \<Rightarrow> file_system \<Rightarrow> config_result \<times> file_system" where
  "output_config_to_json g config json_filename fs =
     (let (error_code, fs) = write_file g ft_json config json_filename fs
      in (Returned (map_option (Err_write ft_json json_filename) error_code), fs))"

definition output_config_to_yaml :: "'c glaze \<Rightarrow> 'c \<Rightarrow> string \<Rightarrow> file_system \<Rightarrow> config_result \<times> file_system" where
  "output_config_to_yaml g config filename fs =
     (let (error_code, fs) = write_file g ft_yaml config filename fs
      in (Returned (map_option (Err_write ft_yaml filename) error_code), fs))"

definition set_config_from_json :: "'c glaze \<Rightarrow> 'c \<Rightarrow> string \<Rightarrow> file_system \<Rightarrow> config_result \<times> 'c" where
  "set_config_from_json g config json_filename fs =
     (let (error_code, config) = read_file g ft_json config json_filename fs
      in (Returned (map_option (Err_read ft_json json_filename) error_code), config))"

definition set_config_from_yaml :: "'c glaze \<Rightarrow> 'c \<Rightarrow> string \<Rightarrow> file_system \<Rightarrow> config_result \<times> 'c" where
  "set_config_from_yaml g cfg filename fs =
     (let (error_code, cfg) = read_file g ft_yaml cfg filename fs
      in (Returned (map_option (Err_read ft_yaml filename) error_code), cfg))"

definition output_config_to_file ::
  "'c glaze \<Rightarrow> 'c \<Rightarrow> string \<Rightarrow> bool \<Rightarrow> file_system \<Rightarrow> config_result \<times> file_system" where
  "output_config_to_file g config filename is_overwrite fs =
     (if \<not> is_overwrite \<and> fs_text fs filename \<noteq> None then (Returned (Some (Err_exists filename)), fs)
      else if \<not> fs_has_parent fs filename then (Raised ''create_directories'', fs)
      else case resolve_filetype filename of
             ft_yaml \<Rightarrow> output_config_to_yaml g config filename fs
           | ft_json \<Rightarrow> output_config_to_json g config filename fs
           | ft_invalid \<Rightarrow> (Returned (Some (Err_suffix filename)), fs))"

definition set_config_from_file ::
  "'c glaze \<Rightarrow> 'c \<Rightarrow> string \<Rightarrow> bool \<Rightarrow> file_system \<Rightarrow> config_result \<times> 'c \<times> file_system" where
  "set_config_from_file g config filename is_default_generated fs =
     (if filename = [] then (Returned (Some Err_empty), config, fs)
      else if fs_text fs filename = None then
        if is_default_generated then
          (case output_config_to_file g config filename False fs of
             (Raised e, fs) \<Rightarrow> (Raised e, config, fs)
           | (Returned _, fs) \<Rightarrow> (Returned None, config, fs))
        else (Returned (Some (Err_missing filename)), config, fs)
      else case resolve_filetype filename of
             ft_yaml \<Rightarrow> let (r, config) = set_config_from_yaml g config filename fs in (r, config, fs)
           | ft_json \<Rightarrow> let (r, config) = set_config_from_json g config filename fs in (r, config, fs)
           | ft_invalid \<Rightarrow> (Returned (Some (Err_suffix filename)), config, fs))"

section \<open>The programs\<close>

datatype 'r program_end = Exit_code nat | Aborted string | Runs 'r

text \<open>\<^verbatim>\<open>srs_fec_emulator\<close>: it dumps its configuration, or launches the world of the file.\<close>

definition emulator_main ::
  "world_config glaze \<Rightarrow> (nat \<Rightarrow> 'g) \<Rightarrow> world_config \<Rightarrow> bool \<Rightarrow> string \<Rightarrow> file_system \<Rightarrow>
     ('g, 'e) World program_end \<times> file_system" where
  "emulator_main g gens config is_dump_needed config_filepath fs =
     (if is_dump_needed then
        (case output_config_to_file g config config_filepath False fs of
           (Raised e, fs) \<Rightarrow> (Aborted e, fs)
         | (Returned (Some _), fs) \<Rightarrow> (Exit_code 1, fs)
         | (Returned None, fs) \<Rightarrow> (Exit_code 0, fs))
      else
        (case set_config_from_file g config config_filepath True fs of
           (Raised e, _, fs) \<Rightarrow> (Aborted e, fs)
         | (Returned (Some _), _, fs) \<Rightarrow> (Exit_code 1, fs)
         | (Returned None, config, fs) \<Rightarrow> (Runs (world_launch (world_init gens (mk_World config))), fs)))"

text \<open>\<^verbatim>\<open>srs_control\<close> as far as configuration files go: the configuration file is set while the
  command line is parsed; then it is dumped, or the application runs with the print mode of the
  command line. The whole program is \<open>control_program\<close> of \<^verbatim>\<open>Command_Line\<close>; the lemma
  \<open>control_program_main\<close> there shows that it is this one on every command line without the options
  that ask for a version or set the split or the outputs.\<close>

definition control_main ::
  "Config glaze \<Rightarrow> app_env \<Rightarrow> string option \<Rightarrow> string option \<Rightarrow> DataPrintMode \<Rightarrow> nat \<Rightarrow> ActionMode \<Rightarrow> file_system \<Rightarrow>
     App outcome program_end \<times> file_system" where
  "control_main g env config_file dump_file print_mode runtime mode fs =
     (let (r, cfg, fs) =
        (case config_file of
           None \<Rightarrow> (Returned None, default_Config, fs)
         | Some filename \<Rightarrow> set_config_from_file g default_Config filename True fs)
      in case r of
           Returned None \<Rightarrow>
             (case dump_file of
                None \<Rightarrow> (Runs (main_run env cfg print_mode runtime mode), fs)
              | Some filename \<Rightarrow>
                  (case output_config_to_file g cfg filename False fs of
                     (Returned None, fs) \<Rightarrow> (Exit_code 0, fs)
                   | (Returned (Some _), fs) \<Rightarrow> (Exit_code 1, fs)
                   | (Raised e, fs) \<Rightarrow> (Exit_code 0, fs)))
         | _ \<Rightarrow> (Exit_code 0, fs))"

section \<open>Round trips\<close>

lemma output_ok:
  assumes "glaze_keeps g c" "resolve_filetype f \<noteq> ft_invalid" "fs_text fs f = None" "fs_writable fs f" "fs_has_parent fs f"
  shows "\<exists>s. output_config_to_file g c f b fs = (Returned None, fs\<lparr>fs_text := (fs_text fs)(f := Some s)\<rparr>) \<and>
    (\<forall>d. gl_read g (resolve_filetype f) s d = (None, c))"
proof -
  from assms(1,2) obtain s0 where s0: "gl_write g (resolve_filetype f) c = Inr s0"
    unfolding glaze_keeps_def by blast
  then have "\<forall>d. gl_read g (resolve_filetype f) s0 d = (None, c)"
    using assms(1,2) unfolding glaze_keeps_def by (metis Inr_inject)
  then show ?thesis using s0 assms(2-)
    by (cases "resolve_filetype f")
      (auto simp: output_config_to_file_def output_config_to_yaml_def output_config_to_json_def write_file_def)
qed

lemma set_from_text:
  assumes "f \<noteq> []" "fs_text fs f = Some s" "resolve_filetype f \<noteq> ft_invalid"
    and "gl_read g (resolve_filetype f) s d = (None, c)"
  shows "set_config_from_file g d f b fs = (Returned None, c, fs)"
  using assms by (cases "resolve_filetype f")
    (auto simp: set_config_from_file_def set_config_from_yaml_def set_config_from_json_def read_file_def)

lemma suffix_nonempty: "resolve_filetype f \<noteq> ft_invalid \<Longrightarrow> f \<noteq> []"
  by (auto simp: resolve_filetype_def ends_with_def)

text \<open>
  C32. A dumped configuration comes back: after \<^verbatim>\<open>srs_fec_emulator --dump-config f\<close>, for a
  new file with a known suffix that can be written, \<^verbatim>\<open>srs_fec_emulator f\<close> launches the world
  of the dumped configuration; and after \<^verbatim>\<open>srs_control --dump-config f\<close>,
  \<^verbatim>\<open>srs_control -c f\<close> runs the application with the default configuration.\<close>

theorem dump_config_round_trip:
  assumes "glaze_keeps ge c" "glaze_keeps gc default_Config" "resolve_filetype f \<noteq> ft_invalid"
    and "fs_text fs f = None" "fs_writable fs f" "fs_has_parent fs f"
  shows "(\<exists>fs'. emulator_main ge gens c True f fs = (Exit_code 0, fs') \<and>
      fst (emulator_main ge gens d False f fs') = Runs (world_launch (world_init gens (mk_World c)))) \<and>
    (\<exists>fs'. control_main gc env None (Some f) pm n mode fs = (Exit_code 0, fs') \<and>
      fst (control_main gc env (Some f) None pm n mode fs') = Runs (main_run env default_Config pm n mode))"
proof (rule conjI)
  note ne = suffix_nonempty [OF assms(3)]
  obtain s where s: "output_config_to_file ge c f False fs = (Returned None, fs\<lparr>fs_text := (fs_text fs)(f := Some s)\<rparr>)"
      "\<forall>d. gl_read ge (resolve_filetype f) s d = (None, c)"
    using output_ok [OF assms(1,3-6)] by blast
  moreover have "set_config_from_file ge d f True (fs\<lparr>fs_text := (fs_text fs)(f := Some s)\<rparr>) =
      (Returned None, c, fs\<lparr>fs_text := (fs_text fs)(f := Some s)\<rparr>)"
    by (rule set_from_text [OF ne _ assms(3)]) (simp, rule s(2) [rule_format])
  ultimately show "\<exists>fs'. emulator_main ge gens c True f fs = (Exit_code 0, fs') \<and>
      fst (emulator_main ge gens d False f fs') = Runs (world_launch (world_init gens (mk_World c)))"
    by (simp add: emulator_main_def)
  obtain s where s: "output_config_to_file gc default_Config f False fs = (Returned None, fs\<lparr>fs_text := (fs_text fs)(f := Some s)\<rparr>)"
      "\<forall>d. gl_read gc (resolve_filetype f) s d = (None, default_Config)"
    using output_ok [OF assms(2-6)] by blast
  moreover have "set_config_from_file gc default_Config f True (fs\<lparr>fs_text := (fs_text fs)(f := Some s)\<rparr>) =
      (Returned None, default_Config, fs\<lparr>fs_text := (fs_text fs)(f := Some s)\<rparr>)"
    by (rule set_from_text [OF ne _ assms(3)]) (simp, rule s(2) [rule_format])
  ultimately show "\<exists>fs'. control_main gc env None (Some f) pm n mode fs = (Exit_code 0, fs') \<and>
      fst (control_main gc env (Some f) None pm n mode fs') = Runs (main_run env default_Config pm n mode)"
    by (simp add: control_main_def)
qed

section \<open>Errors\<close>

lemma output_keeps_files:
  assumes "output_config_to_file g c f False fs = (r, fs')"
  shows "fs' = fs \<or> fs_text fs f = None \<and> r = Returned None \<and> resolve_filetype f \<noteq> ft_invalid \<and>
    (\<exists>s. gl_write g (resolve_filetype f) c = Inr s \<and> fs' = fs\<lparr>fs_text := (fs_text fs)(f := Some s)\<rparr>)"
  using assms by (cases "resolve_filetype f")
    (auto simp: output_config_to_file_def output_config_to_yaml_def output_config_to_json_def write_file_def
      split: if_splits sum.splits)

text \<open>
  C33. What setting a configuration from a file reports, in every case, and what it does to the
  files: an empty name, a missing file that is not to be generated, a file with an unknown
  suffix and a file the library rejects are errors; a missing file that is to be generated
  never is, even when it cannot be generated, and the configuration stays as it was; and no
  file that exists is ever changed.\<close>

theorem set_config_outcome:
  assumes "set_config_from_file g c f gen fs = (r, c', fs')"
  shows "r = (if f = [] then Returned (Some Err_empty)
        else case fs_text fs f of
          None \<Rightarrow> if \<not> gen then Returned (Some (Err_missing f))
            else if fs_has_parent fs f then Returned None else Raised ''create_directories''
        | Some s \<Rightarrow> if resolve_filetype f = ft_invalid then Returned (Some (Err_suffix f))
            else Returned (map_option (Err_read (resolve_filetype f) f) (fst (gl_read g (resolve_filetype f) s c)))) \<and>
    (fs_text fs f = None \<longrightarrow> c' = c) \<and>
    (\<forall>h s. fs_text fs h = Some s \<longrightarrow> fs_text fs' h = Some s)"
proof (cases "f = [] \<or> fs_text fs f \<noteq> None \<or> \<not> gen")
  case True
  then show ?thesis using assms
    by (cases "resolve_filetype f"; cases "fs_text fs f")
      (auto simp: set_config_from_file_def set_config_from_yaml_def set_config_from_json_def read_file_def split_def
        Let_def split: if_splits)
next
  case False
  then have f: "f \<noteq> []" "fs_text fs f = None" "gen" by auto
  obtain r1 fs1 where out: "output_config_to_file g c f False fs = (r1, fs1)" by fastforce
  have keep: "fs_text fs1 h = Some s" if "fs_text fs h = Some s" for h s
    using output_keeps_files [OF out] that f(2) by auto
  have raised: "r1 = (if fs_has_parent fs f then r1 else Raised ''create_directories'')"
    using out f(2) by (simp add: output_config_to_file_def split: if_splits)
  have returned: "r1 \<noteq> Raised e" if "fs_has_parent fs f" for e
    using out f(2) that by (cases "resolve_filetype f")
      (auto simp: output_config_to_file_def output_config_to_yaml_def output_config_to_json_def split_def Let_def)
  show ?thesis
  proof (cases "fs_has_parent fs f")
    case True
    then obtain x where "r1 = Returned x" using returned by (cases r1) auto
    then have "r = Returned None \<and> c' = c \<and> fs' = fs1"
      using assms f out by (simp add: set_config_from_file_def)
    then show ?thesis using f True keep by simp
  next
    case False
    then have "r1 = Raised ''create_directories''" using raised by simp
    then have "r = Raised ''create_directories'' \<and> c' = c \<and> fs' = fs1"
      using assms f out by (simp add: set_config_from_file_def)
    then show ?thesis using f False keep by simp
  qed
qed

section \<open>Concrete files\<close>

definition glaze_of :: "'c \<Rightarrow> 'c glaze" where
  "glaze_of c = \<lparr>gl_write = (\<lambda>t c. Inr ''{}''), gl_read = (\<lambda>t s d. (None, c))\<rparr>"

definition no_files :: file_system where
  "no_files = \<lparr>fs_text = (\<lambda>f. None), fs_writable = (\<lambda>f. True), fs_has_parent = (\<lambda>f. True)\<rparr>"

definition sample_world :: world_config where
  "sample_world = \<lparr>frame_wait_time_ns = 1000, non_stop = True, cfg_FECs = []\<rparr>"

lemma glaze_of_keeps: "glaze_keeps (glaze_of c) c"
  by (simp add: glaze_keeps_def glaze_of_def)

lemma dump_config_round_trip_witness:
  "\<exists>fs'. control_main (glaze_of default_Config) sample_env None (Some ''srs.json'') print_speed 0 am_none no_files =
      (Exit_code 0, fs') \<and>
    fst (control_main (glaze_of default_Config) sample_env (Some ''srs.json'') None print_speed 0 am_none fs') =
      Runs (main_run sample_env default_Config print_speed 0 am_none)"
  by (rule conjunct2 [OF dump_config_round_trip [OF glaze_of_keeps [of sample_world] glaze_of_keeps]])
    (simp_all add: resolve_filetype_def ends_with_def no_files_def)

lemma set_config_outcome_witness:
  "fst (set_config_from_file (glaze_of sample_world) sample_world ''srs.txt'' True no_files) = Returned None"
proof -
  obtain r c' fs' where out: "set_config_from_file (glaze_of sample_world) sample_world ''srs.txt'' True no_files = (r, c', fs')"
    by (metis prod_cases3)
  from set_config_outcome [OF out] show ?thesis unfolding out by (simp add: no_files_def)
qed

end
