(* ===== verification/Default_Paths.thy ===== *)
theory Default_Paths
  imports Config_Files
begin

text \<open>
  The default locations of the log and of the configuration (\<^verbatim>\<open>utils/CommonFunctions.hpp\<close>),
  from the environment variables, and the size of a file. Using the value of a variable that is
  not set is undefined and \<open>None\<close> here.
\<close>

definition DEFAULT_LOG_FILE :: string where "DEFAULT_LOG_FILE = ''srs-control/srs-control.log''"

definition DEFAULT_CONFIG_FILE :: string where "DEFAULT_CONFIG_FILE = ''srs-control/config.yaml''"

text \<open>\<^verbatim>\<open>operator/\<close> of paths.\<close>

definition path_append :: "string \<Rightarrow> string \<Rightarrow> string" where
  "path_append lhs rhs =
     (if rhs \<noteq> [] \<and> hd rhs = CHR ''/'' then rhs
      else if lhs \<noteq> [] \<and> last lhs \<noteq> CHR ''/'' then lhs @ ''/'' @ rhs
      else lhs @ rhs)"

definition get_default_log_path :: "(string \<Rightarrow> string option) \<Rightarrow> string option" where
  "get_default_log_path getenv =
     (let xdg_state_home = getenv ''XDG_STATE_HOME'';
          state_dir = (case xdg_state_home of
             None \<Rightarrow> map_option (\<lambda>home. path_append home ''.local/state'') (getenv ''HOME'')
           | Some dir \<Rightarrow> Some dir)
      in map_option (\<lambda>dir. path_append dir DEFAULT_LOG_FILE) state_dir)"

definition get_default_config_path :: "(string \<Rightarrow> string option) \<Rightarrow> string option" where
  "get_default_config_path getenv =
     (let xdg_state_home = getenv ''XDG_CONFIG_HOME'';
          state_dir = (case xdg_state_home of
             None \<Rightarrow> map_option (\<lambda>home. path_append home ''.config'') (getenv ''HOME'')
           | Some dir \<Rightarrow> Some dir)
      in map_option (\<lambda>dir. path_append dir DEFAULT_CONFIG_FILE) state_dir)"

definition get_file_size :: "file_system \<Rightarrow> string \<Rightarrow> string + nat" where
  "get_file_size fs filename =
     (case fs_text fs filename of Some s \<Rightarrow> Inr (length s) | None \<Rightarrow> Inl filename)"

lemma path_ends_with: "ends_with (s @ t) t"
  by (simp add: ends_with_def)

lemma ends_with_path: "rhs = us @ t \<Longrightarrow> ends_with (path_append lhs rhs) t"
  using path_ends_with [of "lhs @ ''/'' @ us" t] path_ends_with [of "lhs @ us" t] path_ends_with [of us t]
  by (auto simp: path_append_def)

text \<open>The default configuration file is a yaml file, wherever it is.\<close>

lemma default_config_is_yaml:
  assumes "get_default_config_path getenv = Some f"
  shows "resolve_filetype f = ft_yaml"
proof -
  obtain dir where f: "f = path_append dir DEFAULT_CONFIG_FILE"
    using assms by (auto simp: get_default_config_path_def Let_def split: option.splits)
  have "ends_with f ''.yaml''"
    unfolding f by (rule ends_with_path [of _ "''srs-control/config''"]) (simp add: DEFAULT_CONFIG_FILE_def)
  moreover have "\<not> ends_with f ''.json''"
  proof
    assume "ends_with f ''.json''"
    with \<open>ends_with f ''.yaml''\<close> show False by (simp add: ends_with_def)
  qed
  ultimately show ?thesis by (simp add: resolve_filetype_def)
qed

lemma default_paths_undefined:
  "get_default_log_path getenv = None \<longleftrightarrow> getenv ''XDG_STATE_HOME'' = None \<and> getenv ''HOME'' = None"
  "get_default_config_path getenv = None \<longleftrightarrow> getenv ''XDG_CONFIG_HOME'' = None \<and> getenv ''HOME'' = None"
  by (auto simp: get_default_log_path_def get_default_config_path_def split: option.splits)

lemma default_paths_home:
  "get_default_log_path [''HOME'' \<mapsto> ''/root''] = Some ''/root/.local/state/srs-control/srs-control.log''"
  "get_default_config_path [''HOME'' \<mapsto> ''/root''] = Some ''/root/.config/srs-control/config.yaml''"
  by code_simp+

end
