(* ===== verification/Pipeline.thy ===== *)
theory Pipeline
  imports Task_Diagram Buffer_Queue
begin

text \<open>
  The whole way of the data, from the socket to the sinks: the buffer queue of
  \<^verbatim>\<open>Buffer_Queue\<close> together with the pipeline of \<^verbatim>\<open>TaskDiagram::construct_taskflow_and_run\<close>,
  whose lines take packets and run their flow on them. What \<^verbatim>\<open>pipeflow.stop()\<close> does in the
  second pipe is up to the library: it may return, and then the body of the pipe goes on and
  runs the flow of the line on the empty buffer, or throw. The flow of a line is one step here,
  when no task of it throws; what an exception leaves behind is part of \<^verbatim>\<open>Parallel_Flows\<close>;
  flows of different lines use different slots of every task, and the frame counter check,
  which they share, has its own interleavings in \<^verbatim>\<open>Frame_Count\<close>.
\<close>

section \<open>The system\<close>

text \<open>\<open>pl_pending\<close>: a line that has a frame to run its flow on. \<open>pl_frames\<close>: the flows that
  have run, newest first, with their lines.\<close>

record 'q pipeline =
  pl_queue :: "'q bq_system"
  pl_diagram :: TaskDiagram
  pl_sinks :: Manager
  pl_flows :: "taskflow list"
  pl_pending :: "bytes option list"
  pl_frames :: "(nat \<times> bytes) list"

text \<open>\<^verbatim>\<open>construct_taskflow_line\<close> for every line; the converters of the diagram are made by the
  first that needs them.\<close>

fun construct_taskflow_lines :: "Manager \<Rightarrow> nat \<Rightarrow> TaskDiagram \<Rightarrow> TaskDiagram \<times> taskflow list" where
  "construct_taskflow_lines m 0 td = (td, [])"
| "construct_taskflow_lines m (Suc n) td =
     (let (td, tf) = construct_taskflow_line m td; (td, tfs) = construct_taskflow_lines m n td
      in (td, tf # tfs))"

definition pl_start :: "'q cqueue \<Rightarrow> bq_Config \<Rightarrow> Manager \<Rightarrow> nat \<Rightarrow> 'q pipeline" where
  "pl_start c cfg m n_lines =
     (let (td, flows) = construct_taskflow_lines m n_lines (mk_TaskDiagram n_lines)
      in \<lparr>pl_queue = sy_start c cfg n_lines, pl_diagram = td, pl_sinks = m, pl_flows = flows,
           pl_pending = replicate n_lines None, pl_frames = []\<rparr>)"

text \<open>The first half of the pipe's body: \<^verbatim>\<open>run_task\<close>.\<close>

definition pl_take :: "bool \<Rightarrow> nat \<Rightarrow> LargeBuffer \<Rightarrow> 'q BufferQueue \<Rightarrow> 'q pipeline \<Rightarrow> 'q pipeline" where
  "pl_take stop_returns k b q s =
     (let goes_on = (if \<not> lb_is_empty b then True else stop_returns)
      in s\<lparr>pl_queue := sy_take k b q (pl_queue s),
           pl_diagram := (pl_diagram s)\<lparr>td_raw_data := (td_raw_data (pl_diagram s))[k := lb_view b]\<rparr>,
           pl_pending := (pl_pending s)[k := if goes_on then Some (lb_view b) else None]\<rparr>)"

text \<open>The second half: the flow of the line, and whether it ends without an exception.\<close>

definition flow_returns :: "task_libs \<Rightarrow> nat \<Rightarrow> 'q pipeline \<Rightarrow> bool" where
  "flow_returns libs k s \<longleftrightarrow> fst (run_taskflow libs k (pl_flows s ! k) (pl_diagram s, pl_sinks s)) = None"

definition pl_flow :: "task_libs \<Rightarrow> nat \<Rightarrow> 'q pipeline \<Rightarrow> 'q pipeline" where
  "pl_flow libs k s =
     (let (exn, td, m) = run_taskflow libs k (pl_flows s ! k) (pl_diagram s, pl_sinks s)
      in s\<lparr>pl_diagram := td, pl_sinks := m, pl_pending := (pl_pending s)[k := None],
           pl_frames := (k, td_raw_data (pl_diagram s) ! k) # pl_frames s\<rparr>)"

inductive pl_step :: "'q cqueue \<Rightarrow> task_libs \<Rightarrow> bool \<Rightarrow> 'q pipeline \<Rightarrow> 'q pipeline \<Rightarrow> bool" for c libs stop_returns where
  pl_receive: "pl_step c libs stop_returns s (s\<lparr>pl_queue :=
    sy_receive c (take (buffer_size (bq_config (sy_queue (pl_queue s)))) datagram) (pl_queue s)\<rparr>)"
| pl_give: "k < length (pl_pending s) \<Longrightarrow> pl_pending s ! k = None \<Longrightarrow>
    ln_state (sy_lines (pl_queue s) ! k) = L_running \<Longrightarrow>
    pl_step c libs stop_returns s (s\<lparr>pl_queue := sy_give c k (pl_queue s)\<rparr>)"
| pl_take: "k < length (pl_pending s) \<Longrightarrow> ln_state (sy_lines (pl_queue s) ! k) = L_waiting \<Longrightarrow>
    bq_dequeue_wait c (sy_queue (pl_queue s)) = Some (b, q) \<Longrightarrow>
    pl_step c libs stop_returns s (pl_take stop_returns k b q s)"
| pl_flow: "k < length (pl_pending s) \<Longrightarrow> pl_pending s ! k \<noteq> None \<Longrightarrow> flow_returns libs k s \<Longrightarrow>
    pl_step c libs stop_returns s (pl_flow libs k s)"
| pl_stop: "pl_step c libs stop_returns s
    (s\<lparr>pl_queue := (pl_queue s)\<lparr>sy_queue :=
        bq_enqueue_empty c (length (sy_lines (pl_queue s))) (sy_queue (pl_queue s))\<rparr>\<rparr>)"

section \<open>What deliveries keep\<close>

lemma deliver_sinks [simp]:
  "do_for_each_sink (deliver libs bs k m) = do_for_each_sink m"
  by (simp add: do_for_each_sink_def deliver_def comp_def split_def)

lemma deliver_required [simp]:
  "is_convert_required (deliver libs bs k m) = is_convert_required m"
  by (rule ext) (simp add: is_convert_required_def)

lemma deliver_flow [simp]:
  "conv_nodes (deliver libs bs k m) = conv_nodes m" "flow_tasks (deliver libs bs k m) = flow_tasks m"
  by (simp_all add: conv_nodes_def flow_tasks_def)

lemma sink_map_ok_map:
  assumes "sink_map_ok kind ok files" "\<And>n c v. (n, c, v) \<in> set files \<Longrightarrow> ok n c v \<Longrightarrow> ok n c (f c v)"
  shows "sink_map_ok kind ok (map (\<lambda>(n, c, v). (n, c, f c v)) files)"
  using assms by (fastforce simp: sink_map_ok_def comp_def split_def)

lemma manager_ok_deliver:
  assumes "manager_ok env m" "k < env_n_lines env"
  shows "manager_ok env (deliver libs bs k m)"
  using assms
  by (auto simp: manager_ok_def deliver_def unit_snd_def udp_run_def Let_def js_n_lines_run bf_counts_run
      js_keys_ok_run root_file.n_lines_run intro!: sink_map_ok_map)

lemma run_flow_deliver:
  assumes "zpp_documented (lib_zpp libs)" "manager_ok env m" "td_ready m td" "k < td_n_lines td"
    and "k < env_n_lines env" "tf_tasks tf = flow_tasks m" "fst (run_taskflow libs k tf (td, m)) = None"
  shows "\<exists>td'. run_taskflow libs k tf (td, m) = (None, td', deliver libs (td_raw_data td ! k) k m) \<and> td_ready m td' \<and>
    td_n_lines td' = td_n_lines td \<and> td_raw_data td' = td_raw_data td"
  using run_flow [OF assms(1-6) refl] assms(7) by (auto split: if_splits)

lemma construct_lines:
  assumes "manager_ok env m" "td_ok td"
  shows "case construct_taskflow_lines m n td of (td', tfs) \<Rightarrow>
    td_ok td' \<and> td_n_lines td' = td_n_lines td \<and> td_raw_data td' = td_raw_data td \<and> length tfs = n \<and>
    (\<forall>tf \<in> set tfs. tf_tasks tf = flow_tasks m) \<and> (0 < n \<or> td_ready m td \<longrightarrow> td_ready m td')"
  using assms(2)
proof (induction n arbitrary: td)
  case (Suc n)
  obtain td1 tf where c: "construct_taskflow_line m td = (td1, tf)" by (cases "construct_taskflow_line m td")
  have td1: "td1 = emplace_all m td" "tf_tasks tf = flow_tasks m"
    using construct_eq [OF assms(1), of td] c by simp_all
  have "td_ok td1 \<and> td_n_lines td1 = td_n_lines td \<and> td_raw_data td1 = td_raw_data td \<and> td_ready m td1"
    using fold_emplace_ok [OF Suc.prems, of "conv_nodes m"] td_ready_emplace [OF Suc.prems, of m]
    by (simp add: td1 emplace_all_def)
  then show ?case using Suc.IH [of td1] td1(2) c by (auto split: prod.splits)
qed simp

section \<open>The invariant\<close>

definition pending_of :: "bytes option \<Rightarrow> bytes list" where
  "pending_of p = (case p of None \<Rightarrow> [] | Some bs \<Rightarrow> [bs])"

text \<open>A line that has taken its stop marker runs its flow once more, on nothing, when the
  library's stop returns.\<close>

definition marker_of :: "bool \<Rightarrow> line \<Rightarrow> bytes list" where
  "marker_of stop_returns l = (if stop_returns \<and> ln_state l = L_stopped then [[]] else [])"

definition all_of :: "('a \<Rightarrow> bytes list) \<Rightarrow> 'a list \<Rightarrow> bytes multiset" where
  "all_of f xs = mset (concat (map f xs))"

lemma all_of_update:
  "k < length xs \<Longrightarrow> all_of f (xs[k := y]) + mset (f (xs ! k)) = all_of f xs + mset (f y)"
  by (simp add: all_of_def mset_concat_update)

text \<open>The diagram and its flows; the sinks; and what is pending in the slots of the lines.\<close>

definition diagram_inv :: "Manager \<Rightarrow> nat \<Rightarrow> TaskDiagram \<Rightarrow> taskflow list \<Rightarrow> bool" where
  "diagram_inv m n td flows \<longleftrightarrow> length flows = n \<and> td_n_lines td = n \<and> td_ok td \<and> (0 < n \<longrightarrow> td_ready m td) \<and>
     (\<forall>tf \<in> set flows. tf_tasks tf = flow_tasks m)"

definition sinks_inv :: "task_libs \<Rightarrow> sink_env \<Rightarrow> Manager \<Rightarrow> Manager \<Rightarrow> (nat \<times> bytes) list \<Rightarrow> bool" where
  "sinks_inv libs env m sinks frames \<longleftrightarrow> sinks = fold (\<lambda>(k, bs). deliver libs bs k) (rev frames) m \<and>
     manager_ok env sinks \<and> flow_tasks sinks = flow_tasks m \<and> conv_nodes sinks = conv_nodes m"

definition slots_inv :: "nat \<Rightarrow> bytes option list \<Rightarrow> bytes list \<Rightarrow> line list \<Rightarrow> bool" where
  "slots_inv n pending raw lines \<longleftrightarrow> length pending = n \<and> length lines = n \<and>
     (\<forall>k < n. (\<forall>bs. pending ! k = Some bs \<longrightarrow> raw ! k = bs) \<and>
        (ln_state (lines ! k) = L_waiting \<longrightarrow> pending ! k = None))"

definition pl_inv :: "'q cqueue \<Rightarrow> nat \<Rightarrow> task_libs \<Rightarrow> bool \<Rightarrow> sink_env \<Rightarrow> Manager \<Rightarrow> nat \<Rightarrow> 'q pipeline \<Rightarrow> bool" where
  "pl_inv c bsize libs stop_returns env m n s \<longleftrightarrow>
     sy_inv c bsize (pl_queue s) \<and> diagram_inv m n (pl_diagram s) (pl_flows s) \<and>
     sinks_inv libs env m (pl_sinks s) (pl_frames s) \<and>
     slots_inv n (pl_pending s) (td_raw_data (pl_diagram s)) (sy_lines (pl_queue s)) \<and>
     mset (map snd (pl_frames s)) + all_of pending_of (pl_pending s) =
       mset (sy_delivered (pl_queue s)) + all_of (marker_of stop_returns) (sy_lines (pl_queue s))"

lemma receive_keeps [simp]:
  "sy_lines (sy_receive c packet s) = sy_lines s" "sy_delivered (sy_receive c packet s) = sy_delivered s"
  by (simp_all add: sy_receive_def split_def Let_def)

lemma give_keeps:
  "sy_delivered (sy_give c k s) = sy_delivered s" "length (sy_lines (sy_give c k s)) = length (sy_lines s)"
  "k < length (sy_lines s) \<Longrightarrow> ln_state (sy_lines (sy_give c k s) ! j) =
     (if j = k then L_waiting else ln_state (sy_lines s ! j))"
  by (simp_all add: sy_give_def split_def Let_def)

lemma pl_inv_start:
  assumes "cq_documented c" "manager_ok env m"
  shows "pl_inv c (buffer_size cfg) libs stop_returns env m n (pl_start c cfg m n)"
proof -
  obtain td flows where td: "construct_taskflow_lines m n (mk_TaskDiagram n) = (td, flows)" by fastforce
  have lines: "construct_taskflow_lines m n (mk_TaskDiagram n) = (td, flows) \<Longrightarrow>
    td_ok td \<and> td_n_lines td = n \<and> length flows = n \<and> (\<forall>tf \<in> set flows. tf_tasks tf = flow_tasks m) \<and>
    (0 < n \<longrightarrow> td_ready m td)"
    using construct_lines [OF assms(2) td_ok_mk [of n], of n] by (auto simp: mk_TaskDiagram_def)
  have none: "all_of pending_of (replicate n None) = {#}"
    "all_of (marker_of stop_returns) (sy_lines (sy_start c cfg n)) = {#}"
    by (simp_all add: all_of_def pending_of_def marker_of_def sy_start_def)
  have states: "\<forall>k < n. ln_state (sy_lines (sy_start c cfg n) ! k) = L_running" "length (sy_lines (sy_start c cfg n)) = n"
    "sy_delivered (sy_start c cfg n) = []"
    by (simp_all add: sy_start_def)
  show ?thesis using lines [OF td] none states sy_inv_start [OF assms(1)] assms(2)
    by (simp add: pl_start_def td pl_inv_def diagram_inv_def sinks_inv_def slots_inv_def)
qed

lemma pl_inv_queue:
  assumes "pl_inv c bsize libs sr env m n s" "sy_inv c bsize q" "sy_delivered q = sy_delivered (pl_queue s)"
    and "sy_lines q = sy_lines (pl_queue s)"
  shows "pl_inv c bsize libs sr env m n (s\<lparr>pl_queue := q\<rparr>)"
  using assms by (simp add: pl_inv_def)

lemma pl_inv_give:
  assumes inv: "pl_inv c bsize libs sr env m n s" and k: "k < n" "pl_pending s ! k = None"
    and run: "ln_state (sy_lines (pl_queue s) ! k) = L_running"
  shows "pl_inv c bsize libs sr env m n (s\<lparr>pl_queue := sy_give c k (pl_queue s)\<rparr>)"
proof -
  let ?q = "pl_queue s"
  have len: "k < length (sy_lines ?q)" using inv k(1) by (simp add: pl_inv_def slots_inv_def)
  obtain b where lines: "sy_lines (sy_give c k ?q) = (sy_lines ?q)[k := \<lparr>ln_state = L_waiting, ln_raw_data = b\<rparr>]"
    by (simp add: sy_give_def split_def Let_def)
  have m: "all_of (marker_of sr) (sy_lines (sy_give c k ?q)) = all_of (marker_of sr) (sy_lines ?q)"
    using all_of_update [OF len, of "marker_of sr" "\<lparr>ln_state = L_waiting, ln_raw_data = b\<rparr>"] run
    by (simp add: lines marker_of_def)
  have "sy_inv c bsize (sy_give c k ?q)" using inv by (intro sy_inv_give) (simp add: pl_inv_def)
  moreover have "slots_inv n (pl_pending s) (td_raw_data (pl_diagram s)) (sy_lines (sy_give c k ?q))"
    using inv k len by (simp add: pl_inv_def slots_inv_def give_keeps)
  ultimately show ?thesis using inv m by (simp add: pl_inv_def give_keeps)
qed

lemma pl_inv_take:
  assumes inv: "pl_inv c bsize libs sr env m n s" and c: "cq_documented c" and k: "k < n"
    and wait: "ln_state (sy_lines (pl_queue s) ! k) = L_waiting"
    and b: "bq_dequeue_wait c (sy_queue (pl_queue s)) = Some (b, q)"
  shows "pl_inv c bsize libs sr env m n (pl_take sr k b q s)"
proof -
  let ?q = "pl_queue s" and ?td = "pl_diagram s"
  have len: "k < length (sy_lines ?q)" "k < length (pl_pending s)" "k < length (td_raw_data ?td)"
    using inv k by (auto simp: pl_inv_def slots_inv_def diagram_inv_def td_ok_def)
  have none: "pl_pending s ! k = None" using inv k wait by (simp add: pl_inv_def slots_inv_def)
  have sy: "sy_inv c bsize (sy_take k b q ?q)" using inv c b by (intro sy_inv_take) (simp_all add: pl_inv_def)
  let ?st = "if lb_is_empty b then L_stopped else L_running"
  let ?p = "if \<not> lb_is_empty b \<or> sr then Some (lb_view b) else None"
  have lines: "sy_lines (sy_take k b q ?q) = (sy_lines ?q)[k := \<lparr>ln_state = ?st, ln_raw_data = b\<rparr>]"
    by (simp add: sy_take_def)
  have view: "lb_is_empty b \<Longrightarrow> lb_view b = []" by (simp add: lb_is_empty_def lb_view_def)
  have pend: "all_of pending_of ((pl_pending s)[k := ?p]) = all_of pending_of (pl_pending s) + mset (pending_of ?p)"
    using all_of_update [OF len(2), of pending_of ?p] none by (simp add: pending_of_def)
  have mark: "all_of (marker_of sr) (sy_lines (sy_take k b q ?q)) =
      all_of (marker_of sr) (sy_lines ?q) + mset (marker_of sr \<lparr>ln_state = ?st, ln_raw_data = b\<rparr>)"
    using all_of_update [OF len(1), of "marker_of sr" "\<lparr>ln_state = ?st, ln_raw_data = b\<rparr>"] wait
    by (simp add: lines marker_of_def)
  have deliv: "sy_delivered (sy_take k b q ?q) = (if lb_is_empty b then sy_delivered ?q else lb_view b # sy_delivered ?q)"
    by (simp add: sy_take_def)
  have sum: "mset (map snd (pl_frames s)) + all_of pending_of ((pl_pending s)[k := ?p]) =
      mset (sy_delivered (sy_take k b q ?q)) + all_of (marker_of sr) (sy_lines (sy_take k b q ?q))"
    using inv view unfolding pend mark deliv
    by (simp add: pl_inv_def pending_of_def marker_of_def flip: add.assoc)
  have take: "pl_take sr k b q s = s\<lparr>pl_queue := sy_take k b q ?q,
      pl_diagram := ?td\<lparr>td_raw_data := (td_raw_data ?td)[k := lb_view b]\<rparr>, pl_pending := (pl_pending s)[k := ?p]\<rparr>"
    by (simp add: pl_take_def)
  have td: "diagram_inv m n (?td\<lparr>td_raw_data := (td_raw_data ?td)[k := lb_view b]\<rparr>) (pl_flows s)"
    using inv by (auto simp: pl_inv_def diagram_inv_def td_ready_def td_ok_def td_has_def split: task_node.splits)
  have slots: "slots_inv n ((pl_pending s)[k := ?p]) ((td_raw_data ?td)[k := lb_view b]) (sy_lines (sy_take k b q ?q))"
    using inv len by (auto simp: pl_inv_def slots_inv_def lines nth_list_update)
  show ?thesis unfolding take using inv sy sum td slots
    by (simp add: pl_inv_def)
qed

lemma sinks_inv_deliver:
  "sinks_inv libs env m sinks frames \<Longrightarrow> k < env_n_lines env \<Longrightarrow>
     sinks_inv libs env m (deliver libs bs k sinks) ((k, bs) # frames)"
  using manager_ok_deliver [of env sinks k libs bs] by (auto simp: sinks_inv_def)

lemma sinks_inv_ready: "sinks_inv libs env m sinks frames \<Longrightarrow> td_ready sinks td \<longleftrightarrow> td_ready m td"
  by (metis sinks_inv_def td_ready_def)

lemma pl_inv_frame:
  assumes inv: "pl_inv c bsize libs sr env m n s" and n: "env_n_lines env = n"
    and k: "k < n" "pl_pending s ! k = Some bs"
    and td': "td_ready (pl_sinks s) td'" "td_n_lines td' = td_n_lines (pl_diagram s)"
      "td_raw_data td' = td_raw_data (pl_diagram s)"
  shows "pl_inv c bsize libs sr env m n (s\<lparr>pl_diagram := td', pl_sinks := deliver libs bs k (pl_sinks s),
      pl_pending := (pl_pending s)[k := None], pl_frames := (k, bs) # pl_frames s\<rparr>)"
proof -
  have len: "k < length (pl_pending s)" using inv k(1) by (simp add: pl_inv_def slots_inv_def)
  have pend: "all_of pending_of ((pl_pending s)[k := None]) + {#bs#} = all_of pending_of (pl_pending s)"
    using all_of_update [OF len, of pending_of None] k(2) by (simp add: pending_of_def)
  have sinks: "sinks_inv libs env m (deliver libs bs k (pl_sinks s)) ((k, bs) # pl_frames s)"
    using inv k(1) n by (intro sinks_inv_deliver) (simp_all add: pl_inv_def)
  have "td_ready m td'" using td'(1) inv sinks_inv_ready by (metis pl_inv_def)
  then have diag: "diagram_inv m n td' (pl_flows s)"
    using td'(2) inv by (simp add: pl_inv_def diagram_inv_def td_ready_def)
  have slots: "slots_inv n ((pl_pending s)[k := None]) (td_raw_data td') (sy_lines (pl_queue s))"
    using inv len td'(3) by (auto simp: pl_inv_def slots_inv_def nth_list_update)
  have "mset (map snd (pl_frames s)) + all_of pending_of (pl_pending s) =
      mset (sy_delivered (pl_queue s)) + all_of (marker_of sr) (sy_lines (pl_queue s))"
    using inv by (simp add: pl_inv_def)
  then show ?thesis using inv sinks diag slots by (simp add: pl_inv_def flip: pend)
qed

lemma pl_inv_facts:
  assumes "pl_inv c bsize libs sr env m n s" "k < n"
  shows "tf_tasks (pl_flows s ! k) = flow_tasks (pl_sinks s)" "td_ready (pl_sinks s) (pl_diagram s)"
    "k < td_n_lines (pl_diagram s)" "manager_ok env (pl_sinks s)"
    "pl_pending s ! k = Some bs \<Longrightarrow> td_raw_data (pl_diagram s) ! k = bs"
  using assms by (auto simp: pl_inv_def diagram_inv_def sinks_inv_def slots_inv_def td_ready_def)

text \<open>Which flows return is up to glaze.\<close>

lemma fold_deliver_no_json:
  "json_files (fold (\<lambda>(k, bs). deliver libs bs k) frames m) = [] \<longleftrightarrow> json_files m = []"
  by (induction frames arbitrary: m) (simp_all add: deliver_def split_def)

lemma flow_returns_iff:
  assumes "pl_inv c bsize libs sr env m n s" "zpp_documented (lib_zpp libs)" "env_n_lines env = n"
    and "k < n" "pl_pending s ! k = Some bs"
  shows "flow_returns libs k s \<longleftrightarrow> json_files m = [] \<or> writable libs bs"
proof -
  note facts = pl_inv_facts [OF assms(1,4)]
  have "json_files (pl_sinks s) = [] \<longleftrightarrow> json_files m = []"
    using assms(1) fold_deliver_no_json by (simp add: pl_inv_def sinks_inv_def)
  then show ?thesis
    using run_flow [OF assms(2) facts(4,2,3) _ facts(1) facts(5) [OF assms(5)]] assms(3,4)
    by (auto simp: flow_returns_def split: if_splits)
qed

lemma pl_inv_flow:
  assumes inv: "pl_inv c bsize libs sr env m n s" and libs: "zpp_documented (lib_zpp libs)" and n: "env_n_lines env = n"
    and k: "k < n" "pl_pending s ! k = Some bs" and returns: "flow_returns libs k s"
  shows "pl_inv c bsize libs sr env m n (pl_flow libs k s)"
proof -
  let ?td = "pl_diagram s"
  note facts = pl_inv_facts [OF inv k(1)]
  have bs: "td_raw_data ?td ! k = bs" by (rule facts(5) [OF k(2)])
  obtain td' where td': "run_taskflow libs k (pl_flows s ! k) (?td, pl_sinks s) = (None, td', deliver libs bs k (pl_sinks s))"
    "td_ready (pl_sinks s) td'" "td_n_lines td' = td_n_lines ?td" "td_raw_data td' = td_raw_data ?td"
    using run_flow_deliver [OF libs facts(4,2,3) _ facts(1)] k(1) n returns unfolding bs flow_returns_def by blast
  have "pl_flow libs k s = s\<lparr>pl_diagram := td', pl_sinks := deliver libs bs k (pl_sinks s),
      pl_pending := (pl_pending s)[k := None], pl_frames := (k, bs) # pl_frames s\<rparr>"
    by (simp add: pl_flow_def td'(1) bs)
  then show ?thesis using pl_inv_frame [OF inv n k td'(2-4)] by simp
qed

lemma pl_inv_step:
  assumes "cq_documented c" "0 < bsize" "zpp_documented (lib_zpp libs)" "env_n_lines env = n"
    and inv: "pl_inv c bsize libs sr env m n s" and step: "pl_step c libs sr s t"
  shows "pl_inv c bsize libs sr env m n t"
  using step
proof cases
  case (pl_receive datagram)
  have "sy_inv c bsize (sy_receive c (take (buffer_size (bq_config (sy_queue (pl_queue s)))) datagram) (pl_queue s))"
    using inv by (intro sy_inv_receive assms) (auto simp: pl_inv_def sy_inv_def)
  then show ?thesis using pl_inv_queue [OF inv] pl_receive by simp
next
  case (pl_give k)
  then show ?thesis using pl_inv_give [OF inv] inv by (simp add: pl_inv_def slots_inv_def)
next
  case (pl_take k b q)
  then show ?thesis using pl_inv_take [OF inv assms(1)] inv by (simp add: pl_inv_def slots_inv_def)
next
  case (pl_flow k)
  then show ?thesis using pl_inv_flow [OF inv assms(3,4)] inv by (auto simp: pl_inv_def slots_inv_def)
next
  case pl_stop
  have "sy_inv c bsize ((pl_queue s)\<lparr>sy_queue :=
      bq_enqueue_empty c (length (sy_lines (pl_queue s))) (sy_queue (pl_queue s))\<rparr>)"
    using inv by (intro sy_inv_stop assms) (simp add: pl_inv_def)
  then show ?thesis using pl_inv_queue [OF inv] pl_stop by simp
qed

interpretation pipeline: invariant_system
  "\<lambda>s. s = pl_start c cfg m (env_n_lines env)" "pl_step c libs stop_returns"
  "\<lambda>s. cq_documented c \<and> zpp_documented (lib_zpp libs) \<and> 0 < buffer_size cfg \<and> manager_ok env m \<longrightarrow>
     pl_inv c (buffer_size cfg) libs stop_returns env m (env_n_lines env) s" for c cfg m env libs stop_returns
  by unfold_locales (auto intro: pl_inv_start pl_inv_step)

section \<open>The files\<close>

text \<open>The frames of a line, in the order of its flows.\<close>

definition frames_of :: "nat \<Rightarrow> (nat \<times> bytes) list \<Rightarrow> bytes list" where
  "frames_of k frames = map snd (filter (\<lambda>f. fst f = k) frames)"

definition line_contents :: "nat \<Rightarrow> Manager \<Rightarrow> (string \<times> DataConvertOptions \<times> bytes) list" where
  "line_contents k m = map (\<lambda>(name, c, v). (name, c, bf_output_streams v ! k)) (binary_files m)"

lemma line_contents_deliver:
  assumes "\<forall>(name, c, v) \<in> set (binary_files m). k < bf_n_lines v \<and> j < bf_n_lines v"
  shows "line_contents k (deliver libs bs j m) =
    map (\<lambda>(name, c, t). (name, c, if j = k then t @ expected_bytes libs c bs else t)) (line_contents k m)"
  using assms by (auto simp: line_contents_def deliver_def unit_snd_def bf_run_def Let_def bf_n_lines_def)

lemma line_contents_fold:
  assumes "\<forall>(name, c, v) \<in> set (binary_files m). bf_n_lines v = n" "k < n" "\<forall>(j, bs) \<in> set frames. j < n"
  shows "line_contents k (fold (\<lambda>(k, bs). deliver libs bs k) frames m) =
    map (\<lambda>(name, c, t). (name, c, t @ concat (map (expected_bytes libs c) (frames_of k frames)))) (line_contents k m)"
  using assms
proof (induction frames arbitrary: m)
  case Nil
  then show ?case by (simp add: frames_of_def split_def)
next
  case (Cons f frames)
  obtain j bs where f: "f = (j, bs)" by (cases f)
  let ?m = "deliver libs bs j m"
  have "\<forall>(name, c, v) \<in> set (binary_files ?m). bf_n_lines v = n"
    using Cons.prems(1) by (auto simp: deliver_def unit_snd_def)
  note IH = Cons.IH [OF this Cons.prems(2)]
  have "line_contents k ?m =
      map (\<lambda>(name, c, t). (name, c, if j = k then t @ expected_bytes libs c bs else t)) (line_contents k m)"
    using Cons.prems by (intro line_contents_deliver) (auto simp: f)
  then show ?case using IH Cons.prems(3) by (simp add: f frames_of_def split_def comp_def)
qed

section \<open>Properties\<close>

lemma pl_inv_frames:
  assumes "steps (pl_step c libs sr) s t" "\<forall>(j, bs) \<in> set (pl_frames s). j < n"
    and "length (pl_pending s) = n"
  shows "(\<forall>(j, bs) \<in> set (pl_frames t). j < n) \<and> length (pl_pending t) = n"
  using assms
proof (induction rule: steps.induct)
  case (steps_step s t u)
  from steps_step.hyps(1) steps_step.prems have "(\<forall>(j, bs) \<in> set (pl_frames t). j < n) \<and> length (pl_pending t) = n"
    by cases (auto simp: pl_take_def pl_flow_def split_def Let_def)
  then show ?case using steps_step.IH by blast
qed simp

lemma pl_inv_reached:
  assumes "cq_documented c" "zpp_documented (lib_zpp libs)" "0 < buffer_size cfg" "manager_ok env m"
    and "steps (pl_step c libs stop_returns) (pl_start c cfg m (env_n_lines env)) s"
  shows "pl_inv c (buffer_size cfg) libs stop_returns env m (env_n_lines env) s"
  using pipeline.inv_steps [OF assms(5)] pl_inv_start [OF assms(1,4)] assms(1-4) by blast

text \<open>
  From the socket to the files: in every interleaving of packets, lines and stops, the
  sinks are those the flows of the frames have made, one delivery for each; every packet
  received was dropped by the full queue, waits in it, waits for the flow of a line, or has
  been delivered to the sinks, exactly once; and each binary file of a line holds exactly the
  conversions of the frames of this line, in their order. Besides the packets the sinks get one
  empty frame for every line that has stopped, when the library's stop returns.\<close>

theorem pipeline_end_to_end:
  assumes "cq_documented c" "zpp_documented (lib_zpp libs)" "0 < buffer_size cfg" "manager_ok env m"
    and "steps (pl_step c libs stop_returns) (pl_start c cfg m (env_n_lines env)) s" "k < env_n_lines env"
  shows "pl_sinks s = fold (\<lambda>(k, bs). deliver libs bs k) (rev (pl_frames s)) m \<and>
    mset (sy_received (pl_queue s)) + all_of (marker_of stop_returns) (sy_lines (pl_queue s)) =
      mset (sy_dropped (pl_queue s)) +
      image_mset lb_view (data_buffers (cq_contents c (valid_buffer_queue (sy_queue (pl_queue s))))) +
      all_of pending_of (pl_pending s) + mset (map snd (pl_frames s)) \<and>
    line_contents k (pl_sinks s) = map (\<lambda>(name, conv, t).
      (name, conv, t @ concat (map (expected_bytes libs conv) (frames_of k (rev (pl_frames s)))))) (line_contents k m)"
proof -
  let ?n = "env_n_lines env"
  have inv: "pl_inv c (buffer_size cfg) libs stop_returns env m ?n s"
    by (rule pl_inv_reached [OF assms(1-5)])
  then have sinks: "pl_sinks s = fold (\<lambda>(k, bs). deliver libs bs k) (rev (pl_frames s)) m"
    by (simp add: pl_inv_def sinks_inv_def)
  have start: "pl_frames (pl_start c cfg m ?n) = []" "length (pl_pending (pl_start c cfg m ?n)) = ?n"
    by (simp_all add: pl_start_def split_def Let_def)
  have "\<forall>(j, bs) \<in> set (pl_frames s). j < ?n"
    using pl_inv_frames [OF assms(5)] start by simp
  moreover have "\<forall>(name, conv, v) \<in> set (binary_files m). bf_n_lines v = ?n"
    using assms(4) by (auto simp: manager_ok_def sink_map_ok_def)
  ultimately have "line_contents k (pl_sinks s) = map (\<lambda>(name, conv, t).
      (name, conv, t @ concat (map (expected_bytes libs conv) (frames_of k (rev (pl_frames s)))))) (line_contents k m)"
    unfolding sinks using assms(6) by (intro line_contents_fold) simp_all
  moreover have "mset (sy_received (pl_queue s)) + all_of (marker_of stop_returns) (sy_lines (pl_queue s)) =
      mset (sy_dropped (pl_queue s)) +
      image_mset lb_view (data_buffers (cq_contents c (valid_buffer_queue (sy_queue (pl_queue s))))) +
      all_of pending_of (pl_pending s) + mset (map snd (pl_frames s))"
  proof -
    have "mset (sy_received (pl_queue s)) = mset (sy_dropped (pl_queue s)) + mset (sy_delivered (pl_queue s)) +
        image_mset lb_view (data_buffers (cq_contents c (valid_buffer_queue (sy_queue (pl_queue s)))))"
      using inv by (simp add: pl_inv_def sy_inv_def)
    moreover have "mset (map snd (pl_frames s)) + all_of pending_of (pl_pending s) =
        mset (sy_delivered (pl_queue s)) + all_of (marker_of stop_returns) (sy_lines (pl_queue s))"
      using inv by (simp add: pl_inv_def)
    ultimately show ?thesis by (simp add: ac_simps)
  qed
  ultimately show ?thesis using sinks by blast
qed

section \<open>A concrete run\<close>

definition sample_libs :: task_libs where
  "sample_libs = \<lparr>lib_zpp = zpp_ref, lib_pb = pb_ref, lib_send = (\<lambda>_ bs. length bs), lib_glz = (\<lambda>_. Some []),
     lib_root = root_ref\<rparr>"

definition sample_sink_env :: sink_env where
  "sample_sink_env = \<lparr>env_n_lines = 1, env_can_open = (\<lambda>_. True), env_resolve = (\<lambda>_ _. Inr []), env_has_root = False,
     env_root = root_ref\<rparr>"

definition sample_manager :: Manager where
  "sample_manager = mk_Manager\<lparr>binary_files := [(''a.bin'', opt_raw_frame, mk_BinaryFile 1)]\<rparr>"

lemma sample_manager_ok: "manager_ok sample_sink_env sample_manager"
  by (simp add: manager_ok_def sample_manager_def mk_Manager_def sample_sink_env_def sink_map_ok_def bf_counts_mk
      get_filetype_from_filename_def fs_extension_def fs_filename_def name_extension_def after_last_def Let_def)
    (simp add: mk_BinaryFile_def bf_n_lines_def)

lemma sample_taken:
  "\<exists>s. steps (pl_step cq_ref sample_libs False) (pl_start cq_ref sample_bq_config sample_manager 1) s \<and>
     pl_pending s = [Some [1, 2, 3]] \<and> pl_frames s = [] \<and> td_raw_data (pl_diagram s) = [[1, 2, 3]]"
proof -
  let ?step = "pl_step cq_ref sample_libs False"
  let ?s0 = "pl_start cq_ref sample_bq_config sample_manager 1"
  let ?s1 = "?s0\<lparr>pl_queue := sy_receive cq_ref [1, 2, 3] (pl_queue ?s0)\<rparr>"
  let ?s2 = "?s1\<lparr>pl_queue := sy_give cq_ref 0 (pl_queue ?s1)\<rparr>"
  obtain td flows where td: "construct_taskflow_lines sample_manager 1 (mk_TaskDiagram 1) = (td, flows)" by fastforce
  have raw: "td_raw_data td = [[]]"
    using construct_lines [OF sample_manager_ok td_ok_mk [of 1], of 1] td by (simp add: mk_TaskDiagram_def)
  have s0: "?s0 = \<lparr>pl_queue = sy_start cq_ref sample_bq_config 1, pl_diagram = td, pl_sinks = sample_manager,
      pl_flows = flows, pl_pending = [None], pl_frames = []\<rparr>"
    unfolding pl_start_def td by simp
  note s0 = s0 s0 [unfolded One_nat_def]
  let ?q2 = "sy_give cq_ref 0 (sy_receive cq_ref [1, 2, 3] (sy_start cq_ref sample_bq_config 1))"
  have "case bq_dequeue_wait cq_ref (sy_queue ?q2) of None \<Rightarrow> False
      | Some (b, q) \<Rightarrow> lb_view b = [1, 2, 3] \<and> \<not> lb_is_empty b"
    "ln_state (sy_lines ?q2 ! 0) = L_waiting"
    by code_simp+
  moreover have "pl_queue ?s2 = ?q2" by (simp add: s0)
  ultimately have "\<exists>b q. bq_dequeue_wait cq_ref (sy_queue (pl_queue ?s2)) = Some (b, q) \<and> lb_view b = [1, 2, 3] \<and>
      \<not> lb_is_empty b \<and> ln_state (sy_lines (pl_queue ?s2) ! 0) = L_waiting"
    by (auto split: option.splits)
  then obtain b q where b: "bq_dequeue_wait cq_ref (sy_queue (pl_queue ?s2)) = Some (b, q)" "lb_view b = [1, 2, 3]"
    "\<not> lb_is_empty b" "ln_state (sy_lines (pl_queue ?s2) ! 0) = L_waiting" by blast
  let ?s3 = "pl_take False 0 b q ?s2"
  have "?step ?s0 ?s1" using pl_receive [of cq_ref sample_libs False ?s0 "[1, 2, 3]"]
    by (simp add: s0 sy_start_def mk_BufferQueue_def) (simp add: sample_bq_config_def)
  moreover have "?step ?s1 ?s2" by (rule pl_give) (simp_all add: s0 sy_start_def)
  moreover have "?step ?s2 ?s3" by (rule pl_take) (use b in \<open>simp_all add: s0\<close>)
  ultimately have "steps ?step ?s0 ?s3" by (blast intro: steps_step steps_refl)
  moreover have "pl_pending ?s3 = [Some [1, 2, 3]]" "pl_frames ?s3 = []" "td_raw_data (pl_diagram ?s3) = [[1, 2, 3]]"
    using b(2,3) by (simp_all add: s0 pl_take_def raw)
  ultimately show ?thesis by blast
qed

lemma sample_run:
  "\<exists>s. steps (pl_step cq_ref sample_libs False) (pl_start cq_ref sample_bq_config sample_manager 1) s \<and>
     pl_frames s = [(0, [1, 2, 3])]"
proof -
  obtain s where s: "steps (pl_step cq_ref sample_libs False) (pl_start cq_ref sample_bq_config sample_manager 1) s"
    "pl_pending s = [Some [1, 2, 3]]" "pl_frames s = []" "td_raw_data (pl_diagram s) = [[1, 2, 3]]"
    using sample_taken by blast
  have inv: "pl_inv cq_ref (buffer_size sample_bq_config) sample_libs False sample_sink_env sample_manager 1 s"
    using pl_inv_reached [of cq_ref sample_libs sample_bq_config sample_sink_env sample_manager False s] sample_manager_ok s(1)
    by (simp add: sample_sink_env_def) (simp add: sample_libs_def sample_bq_config_def)
  have "flow_returns sample_libs 0 s"
    using flow_returns_iff [OF inv, of 0 "[1, 2, 3]"] s(2) by (simp add: sample_libs_def sample_sink_env_def writable_def)
  then have "pl_step cq_ref sample_libs False s (pl_flow sample_libs 0 s)" by (intro pl_flow) (simp_all add: s(2))
  then have "steps (pl_step cq_ref sample_libs False) (pl_start cq_ref sample_bq_config sample_manager 1) (pl_flow sample_libs 0 s)"
    by (rule steps_trans [OF s(1) steps_one])
  moreover have "pl_frames (pl_flow sample_libs 0 s) = [(0, [1, 2, 3])]"
    by (simp add: pl_flow_def split_def Let_def s)
  ultimately show ?thesis by blast
qed

lemma pipeline_end_to_end_witness:
  "\<exists>s. steps (pl_step cq_ref sample_libs False) (pl_start cq_ref sample_bq_config sample_manager 1) s \<and>
     line_contents 0 (pl_sinks s) = [(''a.bin'', opt_raw_frame, delim_frame [1, 2, 3])]"
proof -
  obtain s where s: "steps (pl_step cq_ref sample_libs False)
      (pl_start cq_ref sample_bq_config sample_manager (env_n_lines sample_sink_env)) s" "pl_frames s = [(0, [1, 2, 3])]"
    using sample_run by (auto simp: sample_sink_env_def)
  have "line_contents 0 sample_manager = [(''a.bin'', opt_raw_frame, [])]"
    by (simp add: line_contents_def sample_manager_def mk_BinaryFile_def)
  then have "line_contents 0 (pl_sinks s) = [(''a.bin'', opt_raw_frame, delim_frame [1, 2, 3])]"
    using conjunct2 [OF conjunct2 [OF pipeline_end_to_end [OF cq_ref_documented _ _ sample_manager_ok s(1), of 0]]]
    by (simp add: sample_libs_def sample_bq_config_def sample_sink_env_def s(2) frames_of_def expected_bytes_def)
  with s(1) show ?thesis by (auto simp: sample_sink_env_def)
qed

end
