(* ===== verification/Enum_Names.thy ===== *)
theory Enum_Names
  imports App_Lifecycle
begin

text \<open>
  The names of enumerators on the command line (\<^verbatim>\<open>utils/EnumConvertFunctions.hpp\<close>):
  underscores become dashes, all names are written into one buffer and cut out again, and a
  name is read back without regard to case. What the reflection library knows of an enumeration
  is the list of its enumerators with their names, in the order of their declaration. The
  lemmas show that the names fit the buffer, that every slice is its name, and that reading a
  name back gives its enumerator, for the enumerations of the program.
\<close>

section \<open>Conversions\<close>

type_synonym 'e enumerators = "(string \<times> 'e) list"

definition enum_to_dash :: "char \<Rightarrow> char" where
  "enum_to_dash c = (if c = CHR ''_'' then CHR ''-'' else c)"

definition enum_from_dash :: "char \<Rightarrow> char" where
  "enum_from_dash c = (if c = CHR ''-'' then CHR ''_'' else c)"

text \<open>The joined names are copied into an array of \<open>20 * n\<close> characters, which fails when they
  do not fit; the views are cut out of the used part one after the other.\<close>

fun cut_names :: "string \<Rightarrow> nat \<Rightarrow> string list \<Rightarrow> string list" where
  "cut_names output_arr front_iter [] = []"
| "cut_names output_arr front_iter (enum_name # names) =
     (let distance = length enum_name
      in take distance (drop front_iter output_arr) # cut_names output_arr (front_iter + distance) names)"

definition get_enum_dashed_names :: "'e enumerators \<Rightarrow> string list option" where
  "get_enum_dashed_names es =
     (let enum_names = map fst es;
          MAX_SIZE = 20 * length enum_names;
          tmp_vec = map enum_to_dash (concat enum_names)
      in if length tmp_vec > MAX_SIZE then None
         else
           let output_str = tmp_vec @ replicate (MAX_SIZE - length tmp_vec) (CHR 0x00);
               output_arr = take (length tmp_vec) output_str
           in Some (cut_names output_arr 0 enum_names))"

text \<open>The name the library gives a value; empty when it is no enumerator.\<close>

definition enum_name :: "'e enumerators \<Rightarrow> 'e \<Rightarrow> string" where
  "enum_name es v = (case find (\<lambda>e. snd e = v) es of None \<Rightarrow> [] | Some e \<Rightarrow> fst e)"

definition get_enum_dashed_name :: "'e enumerators \<Rightarrow> 'e \<Rightarrow> string" where
  "get_enum_dashed_name es v = map enum_to_dash (enum_name es v)"

definition lower :: "char \<Rightarrow> char" where
  "lower c = (let n = of_char c :: nat in if 65 \<le> n \<and> n \<le> 90 then char_of (n + 32) else c)"

definition get_enum :: "'e enumerators \<Rightarrow> string \<Rightarrow> 'e option" where
  "get_enum es name = map_option snd
     (find (\<lambda>e. map lower (fst e) = map lower (map enum_from_dash name)) es)"

definition get_enum_dash_map :: "'e enumerators \<Rightarrow> string \<Rightarrow> 'e option" where
  "get_enum_dash_map es = map_of (map (\<lambda>e. (get_enum_dashed_name es (snd e), snd e)) es)"

section \<open>Names and enumerators\<close>

text \<open>Identifiers hold no dash; the enumerators differ, and their names even in lower case.\<close>

definition enumerators_ok :: "'e enumerators \<Rightarrow> bool" where
  "enumerators_ok es \<longleftrightarrow> distinct (map snd es) \<and> distinct (map (\<lambda>e. map lower (fst e)) es) \<and>
     (\<forall>e \<in> set es. CHR ''-'' \<notin> set (fst e))"

lemma dash_inverse: "CHR ''-'' \<notin> set s \<Longrightarrow> map enum_from_dash (map enum_to_dash s) = s"
  by (induction s) (auto simp: enum_to_dash_def enum_from_dash_def)

lemma cut_names_dashed:
  "length pre = k \<Longrightarrow> cut_names (pre @ map enum_to_dash (concat names)) k names = map (map enum_to_dash) names"
proof (induction names arbitrary: pre k)
  case (Cons x names)
  have "cut_names ((pre @ map enum_to_dash x) @ map enum_to_dash (concat names)) (k + length x) names =
      map (map enum_to_dash) names"
    using Cons.prems by (intro Cons.IH) simp
  then show ?case using Cons.prems by (simp add: Let_def)
qed simp

lemma dashed_names:
  "length (concat (map fst es)) \<le> 20 * length es \<Longrightarrow>
     get_enum_dashed_names es = Some (map (map enum_to_dash) (map fst es))"
  using cut_names_dashed [of "[]" 0 "map fst es"]
  by (simp add: get_enum_dashed_names_def Let_def del: length_concat)

lemma find_unique:
  "distinct (map f es) \<Longrightarrow> e \<in> set es \<Longrightarrow> find (\<lambda>x. f x = f e) es = Some e"
  by (induction es) (auto dest: image_eqI [of "f e" f])

lemma enum_name_of: "enumerators_ok es \<Longrightarrow> e \<in> set es \<Longrightarrow> enum_name es (snd e) = fst e"
  by (simp add: enum_name_def enumerators_ok_def find_unique)

lemma get_enum_dashed:
  assumes "enumerators_ok es" "e \<in> set es"
  shows "get_enum es (get_enum_dashed_name es (snd e)) = Some (snd e)"
proof -
  have "find (\<lambda>x. map lower (fst x) = map lower (fst e)) es = Some e"
    using assms find_unique [of "\<lambda>x. map lower (fst x)" es e] by (simp add: enumerators_ok_def)
  moreover have "map enum_from_dash (get_enum_dashed_name es (snd e)) = fst e"
    using assms enum_name_of [OF assms] dash_inverse by (simp add: get_enum_dashed_name_def enumerators_ok_def del: map_map)
  ultimately show ?thesis by (simp only: get_enum_def) simp
qed

lemma dashed_inj:
  assumes "enumerators_ok es" "x \<in> set es" "y \<in> set es" "map enum_to_dash (fst x) = map enum_to_dash (fst y)"
  shows "x = y"
proof -
  have "fst x = fst y" using assms dash_inverse by (metis enumerators_ok_def)
  then show ?thesis using assms(1-3) by (auto simp: enumerators_ok_def distinct_map inj_on_def)
qed

lemma get_enum_dash_map_names:
  assumes "enumerators_ok es" "e \<in> set es"
  shows "get_enum_dash_map es (map enum_to_dash (fst e)) = Some (snd e)"
proof -
  let ?names = "map (\<lambda>e. (map enum_to_dash (fst e), snd e)) es"
  have "map (\<lambda>e. (get_enum_dashed_name es (snd e), snd e)) es = ?names"
    using enum_name_of [OF assms(1)] by (simp add: get_enum_dashed_name_def)
  moreover have "distinct es" using assms(1) by (auto simp: enumerators_ok_def distinct_map)
  then have "distinct (map fst ?names)"
    using dashed_inj [OF assms(1)] by (simp add: distinct_map inj_on_def comp_def)
  then have "map_of ?names (map enum_to_dash (fst e)) = Some (snd e)"
    using assms(2) by (intro map_of_is_SomeI) auto
  ultimately show ?thesis unfolding get_enum_dash_map_def by (simp only:)
qed

section \<open>The enumerations of the program\<close>

definition ActionMode_enumerators :: "ActionMode enumerators" where
  "ActionMode_enumerators = [(''all'', am_all), (''acq_on'', am_acq_on), (''acq_off'', am_acq_off),
     (''read_only'', am_read_only), (''none'', am_none)]"

definition DataPrintMode_enumerators :: "DataPrintMode enumerators" where
  "DataPrintMode_enumerators = [(''print_speed'', print_speed), (''print_header'', print_header),
     (''print_raw'', print_raw), (''print_all'', print_all)]"

lemma program_enumerators_ok:
  "enumerators_ok ActionMode_enumerators" "enumerators_ok DataPrintMode_enumerators"
  by code_simp+

lemma program_dashed_names:
  "get_enum_dashed_names ActionMode_enumerators = Some [''all'', ''acq-on'', ''acq-off'', ''read-only'', ''none'']"
  "get_enum_dashed_names DataPrintMode_enumerators = Some [''print-speed'', ''print-header'', ''print-raw'', ''print-all'']"
  by code_simp+

end
