(* ===== verification/Doubles.thy ===== *)
theory Doubles
  imports Complex_Main "HOL-Library.Log_Nat"
begin

text \<open>
  The type \<^verbatim>\<open>double\<close> as the program uses it: IEEE 754 binary64 with rounding to nearest, ties
  to even. A number is a rational; rounding keeps 53 significant bits. The exponent is not
  bounded here: every value of the program is an integer of at most 64 bits or a product or
  quotient of a few of them, far from the largest and the smallest exponent. Zero has no sign,
  since no operation of the program yields a negative zero. The lemmas bound the error of every
  operation and show that integers below \<open>2 ^ 53\<close> are exact.
\<close>

section \<open>Rounding\<close>

definition round_even :: "rat \<Rightarrow> int" where
  "round_even y = (let f = \<lfloor>y\<rfloor>; d = y - of_int f
     in if d < 1 / 2 then f else if d > 1 / 2 then f + 1 else if even f then f else f + 1)"

text \<open>The place of the leading bit of a positive rational.\<close>

definition leading_bit :: "rat \<Rightarrow> int" where
  "leading_bit x = (let (a, b) = quotient_of x; e = int (floorlog 2 (nat a)) - int (floorlog 2 (nat b))
     in if 2 powi e \<le> x then e else e - 1)"

definition round53 :: "rat \<Rightarrow> rat" where
  "round53 x = (if x = 0 then 0
     else let u = 2 powi (leading_bit \<bar>x\<bar> - 52) in of_int (round_even (x / u)) * u)"

section \<open>Numbers and operations\<close>

datatype double = D_nan | D_inf bool | D_num rat

definition dbl_of_int :: "int \<Rightarrow> double" where
  "dbl_of_int n = D_num (round53 (of_int n))"

text \<open>\<open>D_inf True\<close> is the negative infinity.\<close>

fun dbl_div :: "double \<Rightarrow> double \<Rightarrow> double" where
  "dbl_div (D_num x) (D_num y) =
     (if y \<noteq> 0 then D_num (round53 (x / y)) else if x = 0 then D_nan else D_inf (x < 0))"
| "dbl_div (D_num x) (D_inf s) = D_num 0"
| "dbl_div (D_inf s) (D_num y) = D_inf (s \<noteq> (y < 0))"
| "dbl_div _ _ = D_nan"

fun dbl_mul :: "double \<Rightarrow> double \<Rightarrow> double" where
  "dbl_mul (D_num x) (D_num y) = D_num (round53 (x * y))"
| "dbl_mul (D_num x) (D_inf s) = (if x = 0 then D_nan else D_inf (s \<noteq> (x < 0)))"
| "dbl_mul (D_inf s) (D_num y) = (if y = 0 then D_nan else D_inf (s \<noteq> (y < 0)))"
| "dbl_mul (D_inf s) (D_inf t) = D_inf (s \<noteq> t)"
| "dbl_mul _ _ = D_nan"

fun dbl_add :: "double \<Rightarrow> double \<Rightarrow> double" where
  "dbl_add (D_num x) (D_num y) = D_num (round53 (x + y))"
| "dbl_add (D_num x) (D_inf s) = D_inf s"
| "dbl_add (D_inf s) (D_num y) = D_inf s"
| "dbl_add (D_inf s) (D_inf t) = (if s = t then D_inf s else D_nan)"
| "dbl_add _ _ = D_nan"

fun dbl_neg :: "double \<Rightarrow> double" where
  "dbl_neg (D_num x) = D_num (- x)"
| "dbl_neg (D_inf s) = D_inf (\<not> s)"
| "dbl_neg D_nan = D_nan"

definition dbl_sub :: "double \<Rightarrow> double \<Rightarrow> double" where
  "dbl_sub x y = dbl_add x (dbl_neg y)"

fun dbl_less :: "double \<Rightarrow> double \<Rightarrow> bool" where
  "dbl_less (D_num x) (D_num y) = (x < y)"
| "dbl_less (D_num x) (D_inf s) = (\<not> s)"
| "dbl_less (D_inf s) (D_num y) = s"
| "dbl_less (D_inf s) (D_inf t) = (s \<and> \<not> t)"
| "dbl_less _ _ = False"

section \<open>The leading bit\<close>

lemma floorlog_bounds:
  assumes "0 < n"
  shows "2 powi (int (floorlog 2 n) - 1) \<le> (of_nat n :: rat)" "(of_nat n :: rat) < 2 powi int (floorlog 2 n)"
proof -
  have p: "0 < floorlog 2 n" using assms by (simp add: floorlog_def)
  have "2 ^ (floorlog 2 n - 1) \<le> n" "n < 2 ^ floorlog 2 n"
    using floorlog_bounds [OF assms, of 2] by simp_all
  then have "(of_nat (2 ^ (floorlog 2 n - 1)) :: rat) \<le> of_nat n" "(of_nat n :: rat) < of_nat (2 ^ floorlog 2 n)"
    by (simp_all only: of_nat_le_iff of_nat_less_iff)
  moreover have "2 powi (int (floorlog 2 n) - 1) = (2 :: rat) ^ (floorlog 2 n - 1)"
    using p by (simp add: power_int_def nat_diff_distrib)
  ultimately show "2 powi (int (floorlog 2 n) - 1) \<le> (of_nat n :: rat)" "(of_nat n :: rat) < 2 powi int (floorlog 2 n)"
    by simp_all
qed

lemma leading_bit_bounds:
  assumes "0 < x"
  shows "2 powi leading_bit x \<le> x" "x < 2 powi (leading_bit x + 1)"
proof -
  obtain a b where q: "quotient_of x = (a, b)" by fastforce
  have b: "0 < b" using quotient_of_denom_pos [OF q] .
  have x: "x = of_int a / of_int b" using quotient_of_div [OF q] .
  have a: "0 < a" using assms b by (simp add: x zero_less_divide_iff)
  let ?p = "int (floorlog 2 (nat a))" and ?q = "int (floorlog 2 (nat b))"
  have ab: "2 powi (?p - 1) \<le> (of_int a :: rat)" "(of_int a :: rat) < 2 powi ?p"
    "2 powi (?q - 1) \<le> (of_int b :: rat)" "(of_int b :: rat) < 2 powi ?q"
    using floorlog_bounds [of "nat a"] floorlog_bounds [of "nat b"] a b by simp_all
  have "x < 2 powi ?p / 2 powi (?q - 1)"
    unfolding x using ab a b by (intro frac_less) simp_all
  also have "\<dots> = 2 powi (?p - ?q + 1)" by (simp add: power_int_diff power_int_add)
  finally have up: "x < 2 powi (?p - ?q + 1)" .
  have "2 powi (?p - 1) / 2 powi ?q \<le> x"
    unfolding x using ab a b by (intro frac_le) simp_all
  moreover have "2 powi (?p - 1) / 2 powi ?q = (2 :: rat) powi (?p - ?q - 1)"
    by (simp add: power_int_diff)
  ultimately have low: "2 powi (?p - ?q - 1) \<le> x" by simp
  show "2 powi leading_bit x \<le> x" "x < 2 powi (leading_bit x + 1)"
    using up low by (auto simp: leading_bit_def q Let_def)
qed

section \<open>The error of rounding\<close>

lemma round_even_error: "\<bar>of_int (round_even y) - y\<bar> \<le> 1 / 2"
proof -
  have "of_int \<lfloor>y\<rfloor> \<le> y" "y < of_int \<lfloor>y\<rfloor> + 1" by linarith+
  then show ?thesis by (simp add: round_even_def Let_def abs_if) linarith
qed

lemma round_even_int [simp]: "round_even (of_int n) = n"
  by (simp add: round_even_def)

lemma round53_error: "\<bar>round53 x - x\<bar> \<le> \<bar>x\<bar> / 2 ^ 53"
proof (cases "x = 0")
  case False
  let ?u = "2 powi (leading_bit \<bar>x\<bar> - 52) :: rat"
  have u: "0 < ?u" by simp
  have "\<bar>round53 x - x\<bar> = \<bar>of_int (round_even (x / ?u)) - x / ?u\<bar> * ?u"
    using False u by (simp add: round53_def Let_def abs_mult_pos left_diff_distrib)
  also have "\<dots> \<le> 1 / 2 * ?u" using round_even_error [of "x / ?u"] u by (intro mult_right_mono) auto
  also have "\<dots> = 2 powi leading_bit \<bar>x\<bar> / 2 ^ 53" by (simp add: power_int_diff)
  also have "\<dots> \<le> \<bar>x\<bar> / 2 ^ 53"
    using leading_bit_bounds(1) [of "\<bar>x\<bar>"] False by (intro divide_right_mono) simp_all
  finally show ?thesis .
qed (simp add: round53_def)

lemma round53_int:
  assumes "\<bar>n\<bar> < 2 ^ 53"
  shows "round53 (of_int n) = of_int n"
proof (cases "n = 0")
  case False
  let ?x = "\<bar>of_int n :: rat\<bar>"
  let ?k = "leading_bit ?x"
  have "2 powi ?k \<le> ?x" using leading_bit_bounds(1) [of ?x] False by simp
  also have "?x < 2 powi 53"
  proof -
    have "(of_int \<bar>n\<bar> :: rat) < of_int (2 ^ 53)" using assms by (simp only: of_int_less_iff)
    then show ?thesis by simp
  qed
  finally have "(2 :: rat) powi ?k < 2 powi 53" .
  then have "?k < 53" using power_int_le_imp_less_exp [of "2 :: rat" ?k 53] by simp
  let ?u = "2 powi (?k - 52) :: rat" and ?m = "n * 2 ^ nat (52 - ?k)"
  have m: "(of_int n :: rat) / ?u = of_int ?m" "of_int ?m * ?u = of_int n"
    using \<open>?k < 53\<close> by (simp_all add: power_int_def field_simps)
  have "round53 (of_int n) = of_int (round_even (of_int n / ?u)) * ?u"
    using False by (simp add: round53_def Let_def)
  also have "\<dots> = of_int n" unfolding m(1) round_even_int by (rule m(2))
  finally show ?thesis .
qed (simp add: round53_def)

lemma round53_0 [simp]: "round53 0 = 0"
  by (simp add: round53_def)

lemma dbl_of_int_exact: "\<bar>n\<bar> < 2 ^ 53 \<Longrightarrow> dbl_of_int n = D_num (of_int n)"
  by (simp add: dbl_of_int_def round53_int)

lemma round53_bounds:
  "x - \<bar>x\<bar> / 2 ^ 53 \<le> round53 x" "round53 x \<le> x + \<bar>x\<bar> / 2 ^ 53"
  using abs_le_D1 [OF round53_error [of x]] abs_le_D2 [OF round53_error [of x]] by linarith+

lemma round53_nonneg: "0 \<le> x \<Longrightarrow> 0 \<le> round53 x"
  using round53_bounds(1) [of x] by simp

text \<open>Rounding does not cross one downwards.\<close>

lemma round_even_ge: "of_int n \<le> y \<Longrightarrow> n \<le> round_even y"
proof -
  assume "of_int n \<le> y"
  then have "n \<le> \<lfloor>y\<rfloor>" by (simp add: le_floor_iff)
  then show ?thesis by (auto simp: round_even_def Let_def)
qed

lemma round53_ge_one:
  assumes "1 \<le> x"
  shows "1 \<le> round53 x"
proof -
  let ?k = "leading_bit \<bar>x\<bar>" and ?u = "2 powi (leading_bit \<bar>x\<bar> - 52) :: rat"
  have k: "2 powi ?k \<le> x" "x < 2 powi (?k + 1)" using leading_bit_bounds [of "\<bar>x\<bar>"] assms by simp_all
  have "0 \<le> ?k"
  proof (rule ccontr)
    assume "\<not> 0 \<le> ?k"
    then have "(2 :: rat) powi (?k + 1) \<le> 2 powi 0" by (intro power_int_increasing) simp_all
    then show False using k(2) assms by simp
  qed
  have "of_int (2 ^ 52) * ?u = 2 powi ?k" by (simp add: power_int_diff)
  moreover have "of_int (2 ^ 52) \<le> x / ?u" using k(1) by (simp add: pos_le_divide_eq power_int_diff)
  then have "of_int (2 ^ 52) * ?u \<le> of_int (round_even (x / ?u)) * ?u"
    by (intro mult_right_mono) (simp_all only: of_int_le_iff round_even_ge, simp)
  moreover have "(1 :: rat) \<le> 2 powi ?k" using \<open>0 \<le> ?k\<close> by (simp add: power_int_def)
  ultimately show ?thesis using assms by (simp add: round53_def Let_def)
qed

end
