(* ===== verification/App_Report.thy ===== *)
theory App_Report
  imports Sink_Manager Buffer_Queue Doubles
begin

text \<open>
  The statistics of a run: \<^verbatim>\<open>AppReport\<close> (\<^verbatim>\<open>utils/AppReport.{hpp,cpp}\<close>), the counting of
  \<^verbatim>\<open>BaseTask::run_once\<close> and of \<^verbatim>\<open>TaskDiagram\<close>, and the registrations of the tasks, the buffer
  queue and the sockets. Durations are arguments, in nanoseconds of the steady clock. A table is
  the list of its rows, a row the list of its cells, as the strings of \<^verbatim>\<open>std::format\<close>; the
  drawing of the table is the library's. \<^verbatim>\<open>std::ranges::sort\<close> is a parameter, since it may
  order equal keys in any way. The lemmas show what the rows of the report are, how far the
  averages shown are from the exact ones, and that a second task of the same name is lost: the
  two converters named \<^verbatim>\<open>Struct deserializer\<close>, and every second file sink of a kind.
\<close>

section \<open>Records\<close>

record TaskStat =
  total_time_ms :: double
  total_sample_size :: nat

record FecSwitchStat =
  send_time :: int
  receiv_time :: int
  send_time_offset :: int
  connection_name :: string

record FrameReadingStat =
  n_frames :: nat
  stat_time_ns :: nat
  total_bytes_read :: nat

record QueueStat =
  empty_trash :: nat
  full_trash :: nat
  full_valid :: nat

record AppReport =
  task_records :: "(string \<times> TaskStat list) list"
  sink_records :: "(string \<times> nat list) list"
  switch_socket_records :: "(string \<times> (string \<times> FecSwitchStat) list) list"
  frame_reading_records :: "(string \<times> FrameReadingStat) list"
  queue_record :: "string \<times> QueueStat"

definition mk_AppReport :: AppReport where
  "mk_AppReport = \<lparr>task_records = [], sink_records = [], switch_socket_records = [], frame_reading_records = [],
     queue_record = (''Counts'', \<lparr>empty_trash = 0, full_trash = 0, full_valid = 0\<rparr>)\<rparr>"

definition register_switch_socket_result :: "string \<Rightarrow> (string \<times> FecSwitchStat) list \<Rightarrow> AppReport \<Rightarrow> AppReport" where
  "register_switch_socket_result socket_name socket_times r =
     r\<lparr>switch_socket_records := switch_socket_records r @ [(socket_name, socket_times)]\<rparr>"

definition register_frame_reading_result :: "string \<Rightarrow> FrameReadingStat \<Rightarrow> AppReport \<Rightarrow> AppReport" where
  "register_frame_reading_result name stat r =
     r\<lparr>frame_reading_records := frame_reading_records r @ [(name, stat)]\<rparr>"

definition register_task_result :: "string \<Rightarrow> TaskStat list \<Rightarrow> AppReport \<Rightarrow> AppReport" where
  "register_task_result task_name process_times r =
     r\<lparr>task_records := fst (map_try_emplace task_name process_times (task_records r))\<rparr>"

definition register_output_sink_result :: "string \<Rightarrow> nat list \<Rightarrow> AppReport \<Rightarrow> AppReport" where
  "register_output_sink_result output_name bytes_written r =
     r\<lparr>sink_records := fst (map_try_emplace output_name bytes_written (sink_records r))\<rparr>"

definition register_queue_result :: "QueueStat \<Rightarrow> AppReport \<Rightarrow> AppReport" where
  "register_queue_result stat r = r\<lparr>queue_record := (fst (queue_record r), stat)\<rparr>"

section \<open>Tasks and components\<close>

text \<open>\<^verbatim>\<open>run_once\<close> measures and counts its runs by line, \<^verbatim>\<open>~BaseTask\<close> registers them.\<close>

definition default_TaskStat :: TaskStat where
  "default_TaskStat = \<lparr>total_time_ms = D_num 0, total_sample_size = 0\<rparr>"

definition add_time :: "int \<Rightarrow> TaskStat \<Rightarrow> TaskStat" where
  "add_time time_duration stat = stat\<lparr>total_time_ms :=
     dbl_add (total_time_ms stat) (dbl_div (dbl_of_int time_duration) (dbl_of_int (10 ^ 6)))\<rparr>"

definition count_run :: "nat \<times> int \<Rightarrow> TaskStat list \<Rightarrow> TaskStat list" where
  "count_run run stats = (case run of (line, time_duration) \<Rightarrow>
     let stats = stats[line := add_time time_duration (stats ! line)]
     in stats[line := (stats ! line)\<lparr>total_sample_size := total_sample_size (stats ! line) + 1\<rparr>])"

definition destroy_BaseTask :: "bool \<Rightarrow> string \<Rightarrow> TaskStat list \<Rightarrow> AppReport \<Rightarrow> AppReport" where
  "destroy_BaseTask has_report name stats r = (if has_report then register_task_result name stats r else r)"

definition bq_register_report :: "'q BufferQueue \<Rightarrow> AppReport \<Rightarrow> AppReport" where
  "bq_register_report q = register_queue_result \<lparr>empty_trash = n_trash_recycle_empty_failures q,
     full_trash = n_trash_recycle_full_failures q, full_valid = n_valid_buffer_full_failures q\<rparr>"

text \<open>\<^verbatim>\<open>AnalysisHandle::print_statistics\<close>, the diagram being there.\<close>

definition handle_register ::
  "TaskStat list \<Rightarrow> nat \<Rightarrow> analysis_counters \<Rightarrow> 'q BufferQueue \<Rightarrow> AppReport \<Rightarrow> AppReport" where
  "handle_register stats total_time_ns a q r =
     (let r = register_task_result ''Workflow'' stats r;
          frame_stat = \<lparr>n_frames = total_frame_counts a, stat_time_ns = total_time_ns,
            total_bytes_read = total_read_data_bytes a\<rparr>;
          r = register_frame_reading_result ''Workflow'' frame_stat r
      in bq_register_report q r)"

text \<open>What the sockets register before they close: the data socket its counts, the command
  socket the times of its messages.\<close>

definition data_socket_register :: "string \<Rightarrow> nat \<Rightarrow> nat \<Rightarrow> nat \<Rightarrow> AppReport option \<Rightarrow> AppReport option" where
  "data_socket_register local_endpoint records bytes_read total_time_ns report =
     (case report of None \<Rightarrow> None
      | Some r \<Rightarrow>
          let stat = \<lparr>n_frames = 0, stat_time_ns = 0, total_bytes_read = 0\<rparr>;
              stat = stat\<lparr>n_frames := records\<rparr>;
              stat = stat\<lparr>total_bytes_read := bytes_read\<rparr>;
              stat = stat\<lparr>stat_time_ns := total_time_ns\<rparr>
          in Some (register_frame_reading_result local_endpoint stat r))"

definition fec_socket_register ::
  "string \<Rightarrow> (string \<times> FecSwitchStat) list \<Rightarrow> AppReport option \<Rightarrow> AppReport option" where
  "fec_socket_register local_endpoint time_stamps report =
     (case report of None \<Rightarrow> None | Some r \<Rightarrow> Some (register_switch_socket_result local_endpoint time_stamps r))"

text \<open>The stamps of a message are taken before it is handed to the socket and after it has been
  sent; \<open>log_time_stamps\<close> appends them.\<close>

definition stamp_message ::
  "int \<Rightarrow> int \<Rightarrow> string \<Rightarrow> string \<Rightarrow> (string \<times> FecSwitchStat) list \<Rightarrow> (string \<times> FecSwitchStat) list" where
  "stamp_message before_us after_us name remote_endpoint time_stamps =
     (let stat = \<lparr>send_time = 0, receiv_time = 0, send_time_offset = 0, connection_name = []\<rparr>;
          stat = stat\<lparr>send_time := before_us\<rparr>;
          stat = stat\<lparr>receiv_time := after_us\<rparr>;
          stat = stat\<lparr>connection_name := name\<rparr>
      in time_stamps @ [(remote_endpoint, stat)])"

section \<open>Numbers as text\<close>

definition format_int :: "int \<Rightarrow> string" where
  "format_int i = (if i < 0 then CHR ''-'' # format_nat (nat (- i)) else format_nat (nat i))"

text \<open>\<^verbatim>\<open>{:.pf}\<close> shows the exact value, rounded to \<open>p\<close> decimals with ties to even. The sign of
  a nan, which the language leaves open, is not shown here.\<close>

fun format_fixed :: "nat \<Rightarrow> double \<Rightarrow> string" where
  "format_fixed p D_nan = ''nan''"
| "format_fixed p (D_inf neg) = (if neg then ''-inf'' else ''inf'')"
| "format_fixed p (D_num x) =
     (let digits = format_nat (nat (round_even (\<bar>x\<bar> * 10 ^ p)));
          digits = replicate (Suc p - length digits) (CHR ''0'') @ digits;
          whole = take (length digits - p) digits
      in (if x < 0 then ''-'' else []) @ (if p = 0 then whole else whole @ CHR ''.'' # drop (length digits - p) digits))"

section \<open>The report\<close>

text \<open>A table without records is the empty string. The rows of a record that is split by lines
  show its name in the first.\<close>

type_synonym row = "string list"

definition split_rows :: "(nat \<Rightarrow> 'r \<Rightarrow> row) \<Rightarrow> string \<times> 'r list \<Rightarrow> row list" where
  "split_rows row_adder rec =
     map (\<lambda>(n_pipe, record). (if n_pipe \<noteq> 0 then [] else fst rec) # row_adder n_pipe record) (enumerate 0 (snd rec))"

definition format_split_records :: "(string \<times> 'r list) list \<Rightarrow> row \<Rightarrow> (nat \<Rightarrow> 'r \<Rightarrow> row) \<Rightarrow> row list" where
  "format_split_records records title_names row_adder =
     (if records = [] then [] else title_names # concat (map (split_rows row_adder) records))"

definition format_records :: "(string \<times> 'r) list \<Rightarrow> row \<Rightarrow> ('r \<Rightarrow> row) \<Rightarrow> row list" where
  "format_records records title_names row_adder =
     (if records = [] then [] else title_names # map (\<lambda>(name, record). name # row_adder record) records)"

definition format_record :: "string \<times> 'r \<Rightarrow> row \<Rightarrow> ('r \<Rightarrow> row) \<Rightarrow> row list" where
  "format_record record title_names row_adder = [title_names, fst record # row_adder (snd record)]"

definition average_ns :: "TaskStat \<Rightarrow> double" where
  "average_ns stat =
     (if total_time_ms stat = D_num 0 then D_num 0
      else dbl_div (dbl_mul (dbl_of_int (10 ^ 6)) (total_time_ms stat)) (dbl_of_int (int (total_sample_size stat))))"

definition task_row :: "nat \<Rightarrow> TaskStat \<Rightarrow> row" where
  "task_row idx stat = [format_nat idx, format_fixed 1 (total_time_ms stat), format_fixed 1 (average_ns stat),
     format_nat (total_sample_size stat)]"

definition report_task_result :: "AppReport \<Rightarrow> row list" where
  "report_task_result r = format_split_records (task_records r)
     [''Task name'', ''Split'', ''Total time (ms)'', ''Average time (ns)'', ''Frames read''] task_row"

definition sink_row :: "nat \<Rightarrow> nat \<Rightarrow> row" where
  "sink_row idx bytes =
     (let kb_written = (if bytes = 0 then D_nan else dbl_div (dbl_of_int (int bytes)) (dbl_of_int 1000))
      in [format_nat idx, format_fixed 1 kb_written])"

definition report_sink_file_result :: "AppReport \<Rightarrow> row list" where
  "report_sink_file_result r =
     format_split_records (sink_records r) [''Sink name'', ''Split'', ''Bytes written (KB)''] sink_row"

type_synonym socket_times = "(string \<times> FecSwitchStat) list"

definition sort_documented :: "(socket_times \<Rightarrow> socket_times) \<Rightarrow> bool" where
  "sort_documented srt \<longleftrightarrow> (\<forall>xs. mset (srt xs) = mset xs \<and> sorted (map (\<lambda>x. send_time (snd x)) (srt xs)))"

definition with_offsets :: "(socket_times \<Rightarrow> socket_times) \<Rightarrow> socket_times \<Rightarrow> socket_times" where
  "with_offsets srt stats =
     (let stats = srt stats
      in if stats = [] then stats
         else let first_time = send_time (snd (hd stats))
              in map (\<lambda>(remote, stat). (remote, stat\<lparr>send_time_offset := send_time stat - first_time\<rparr>)) stats)"

definition socket_row :: "nat \<Rightarrow> string \<times> FecSwitchStat \<Rightarrow> row" where
  "socket_row _ stats = (case stats of (remote_socket, stat) \<Rightarrow>
     [remote_socket, connection_name stat,
      format_int (send_time stat) @ '' (+'' @ format_int (send_time_offset stat) @ '')'',
      format_int (receiv_time stat - send_time stat)])"

definition report_socket_result :: "(socket_times \<Rightarrow> socket_times) \<Rightarrow> AppReport \<Rightarrow> AppReport \<times> row list" where
  "report_socket_result srt r =
     (let r = r\<lparr>switch_socket_records := map (\<lambda>(name, stats). (name, with_offsets srt stats)) (switch_socket_records r)\<rparr>
      in (r, format_split_records (switch_socket_records r)
        [''Local socket'', ''Remote socket'', ''connection'', ''Send time (us)'', ''Receiv latency (us)''] socket_row))"

definition reading_row :: "FrameReadingStat \<Rightarrow> row" where
  "reading_row stat =
     (let avg_time = dbl_div (dbl_of_int (int (stat_time_ns stat))) (dbl_of_int (int (n_frames stat)));
          bytes_per_frame = dbl_div (dbl_of_int (int (total_bytes_read stat))) (dbl_of_int (int (n_frames stat)))
      in [format_fixed 1 avg_time, format_fixed 0 bytes_per_frame, format_nat (n_frames stat)])"

definition report_frame_reading_result :: "AppReport \<Rightarrow> row list" where
  "report_frame_reading_result r = format_records (frame_reading_records r)
     [''Actor'', ''Avg. time (ns/frame)'', ''Avg. bytes (/frame)'', ''Frames''] reading_row"

definition queue_row :: "QueueStat \<Rightarrow> row" where
  "queue_row stat = [format_nat (empty_trash stat), format_nat (full_trash stat), format_nat (full_valid stat)]"

definition report_buffer_result :: "AppReport \<Rightarrow> row list" where
  "report_buffer_result r = format_record (queue_record r)
     [''Causes of failure'', ''Empty trash queue'', ''Full trash queue'', ''Full valid queue''] queue_row"

text \<open>The destructor: the tables in the order they are logged, with their headings.\<close>

definition destroy_AppReport :: "(socket_times \<Rightarrow> socket_times) \<Rightarrow> AppReport \<Rightarrow> (string \<times> row list) list" where
  "destroy_AppReport srt r =
     (let task = report_task_result r;
          sink = report_sink_file_result r;
          (r, socket) = report_socket_result srt r;
          reading = report_frame_reading_result r;
          buffer = report_buffer_result r
      in [(''Performance report from required tasks:'', task), (''Bytes written to output sinks:'', sink),
          (''Performance report from sockets:'', socket),
          (''Performance report from frame reading processes:'', reading), (''Buffer Queue report:'', buffer)])"

section \<open>What is reported\<close>

lemma count_run_nth:
  "line < length stats \<Longrightarrow> k < length stats \<Longrightarrow> count_run (line, d) stats ! k =
     (if line = k then (add_time d (stats ! k))\<lparr>total_sample_size := total_sample_size (stats ! k) + 1\<rparr> else stats ! k)"
  by (simp add: count_run_def add_time_def nth_list_update)

lemma count_run_length [simp]: "length (count_run run stats) = length stats"
  by (simp add: count_run_def split_def Let_def)

text \<open>The first registration of a name is kept, the others are lost.\<close>

lemma register_task_first:
  "sorted_wrt (<) (map fst (task_records r)) \<Longrightarrow>
     map_of (task_records (register_task_result name stats r)) n =
       (if map_of (task_records r) n = None \<and> n = name then Some stats else map_of (task_records r) n)"
  by (auto simp: register_task_result_def map_try_emplace_lookup)

lemma split_rows_all:
  "(name, xs) \<in> set records \<Longrightarrow> k < length xs \<Longrightarrow>
     ((if k = 0 then name else []) # f k (xs ! k)) \<in> set (format_split_records records title f)"
  by (auto simp: format_split_records_def split_rows_def in_set_enumerate_eq intro!: bexI [of _ "(name, xs)"]
      image_eqI [of _ _ "(k, xs ! k)"])

lemma offsets_from_first:
  assumes "sort_documented srt" "(remote, stat) \<in> set (with_offsets srt stats)"
  shows "0 \<le> send_time_offset stat \<and> (\<exists>x \<in> set stats. send_time_offset stat = send_time stat - send_time (snd x))"
proof -
  let ?s = "srt stats"
  have s: "set ?s = set stats" "sorted (map (\<lambda>x. send_time (snd x)) ?s)"
    using assms(1) by (simp_all add: sort_documented_def flip: set_mset_mset)
  have ne: "?s \<noteq> []" using assms(2) by (auto simp: with_offsets_def Let_def split: if_splits)
  then have "\<forall>x \<in> set ?s. send_time (snd (hd ?s)) \<le> send_time (snd x)"
    using s(2) by (cases ?s) auto
  moreover have "hd ?s \<in> set stats" using ne s(1) hd_in_set by blast
  ultimately show ?thesis using assms(2) ne by (force simp: with_offsets_def Let_def)
qed

section \<open>How far the averages are\<close>

text \<open>A number reached by at most \<open>n\<close> roundings.\<close>

definition near :: "nat \<Rightarrow> rat \<Rightarrow> rat \<Rightarrow> bool" where
  "near n s t \<longleftrightarrow> s * (1 - 1 / 2 ^ 53) ^ n \<le> t \<and> t \<le> s * (1 + 1 / 2 ^ 53) ^ n"

lemma near_refl: "near 0 s s"
  by (simp add: near_def)

lemma near_mono: "near n s t \<Longrightarrow> 0 \<le> s \<Longrightarrow> n \<le> m \<Longrightarrow> near m s t"
proof -
  assume a: "near n s t" "0 \<le> s" "n \<le> m"
  have "s * (1 - 1 / 2 ^ 53) ^ m \<le> s * (1 - 1 / 2 ^ 53) ^ n"
    using a by (intro mult_left_mono power_decreasing) simp_all
  moreover have "s * (1 + 1 / 2 ^ 53) ^ n \<le> s * (1 + 1 / 2 ^ 53) ^ m"
    using a by (intro mult_left_mono power_increasing) simp_all
  ultimately show ?thesis using a(1) unfolding near_def by linarith
qed

lemma near_add: "near n s t \<Longrightarrow> near n s' t' \<Longrightarrow> near n (s + s') (t + t')"
  by (auto simp: near_def distrib_right)

lemma near_scale:
  assumes "0 \<le> c" "near n s t"
  shows "near n (c * s) (c * t)"
  using assms(2) mult_left_mono [OF _ assms(1)] by (simp add: near_def mult.assoc)

lemma near_round:
  assumes "near n s t" "0 \<le> t"
  shows "near (Suc n) s (round53 t)"
proof -
  have r: "t * (1 - 1 / 2 ^ 53) \<le> round53 t" "round53 t \<le> t * (1 + 1 / 2 ^ 53)"
    using round53_bounds [of t] assms(2) by (simp_all add: right_diff_distrib distrib_left)
  have "s * (1 - 1 / 2 ^ 53) ^ n * (1 - 1 / 2 ^ 53) \<le> t * (1 - 1 / 2 ^ 53)"
    using assms(1) by (intro mult_right_mono) (simp_all add: near_def)
  moreover have "t * (1 + 1 / 2 ^ 53) \<le> s * (1 + 1 / 2 ^ 53) ^ n * (1 + 1 / 2 ^ 53)"
    using assms(1) by (intro mult_right_mono) (simp_all add: near_def)
  ultimately show ?thesis using r unfolding near_def power_Suc2 mult.assoc [symmetric] by linarith
qed

text \<open>The durations measured on a line.\<close>

definition durations :: "nat \<Rightarrow> (nat \<times> int) list \<Rightarrow> int list" where
  "durations k runs = map snd (filter (\<lambda>r. fst r = k) runs)"

lemma durations_simps [simp]:
  "durations k [] = []" "durations k ((j, d) # runs) = (if j = k then d # durations k runs else durations k runs)"
  by (simp_all add: durations_def)

definition stat_near :: "int list \<Rightarrow> TaskStat \<Rightarrow> bool" where
  "stat_near ds stat \<longleftrightarrow> total_sample_size stat = length ds \<and>
     (\<exists>t. total_time_ms stat = D_num t \<and> 0 \<le> t \<and> near (length ds + 1) (of_int (sum_list ds) / 10 ^ 6) t)"

lemma stat_near_run:
  assumes "stat_near ds stat" "0 \<le> d" "d < 2 ^ 53" "0 \<le> sum_list ds"
  shows "stat_near (ds @ [d]) ((add_time d stat)\<lparr>total_sample_size := total_sample_size stat + 1\<rparr>)"
proof -
  let ?s = "of_int (sum_list ds) / 10 ^ 6 :: rat" and ?a = "round53 (of_int d / 10 ^ 6)"
  obtain t where t: "total_sample_size stat = length ds" "total_time_ms stat = D_num t" "0 \<le> t" "near (length ds + 1) ?s t"
    using assms(1) by (auto simp: stat_near_def)
  have nonneg: "(0 :: rat) \<le> of_int d / 10 ^ 6" using assms(2) by simp
  have "near 1 (of_int d / 10 ^ 6) ?a" using near_round [OF near_refl nonneg] by simp
  then have a: "near (length ds + 1) (of_int d / 10 ^ 6) ?a" using nonneg by (rule near_mono) simp
  have pos: "0 \<le> t + ?a" using t(3) round53_nonneg [OF nonneg] by simp
  have "near (Suc (length ds + 1)) (?s + of_int d / 10 ^ 6) (round53 (t + ?a))"
    by (rule near_round [OF near_add [OF t(4) a] pos])
  moreover have "?s + of_int d / 10 ^ 6 = of_int (sum_list (ds @ [d])) / 10 ^ 6" by (simp add: add_divide_distrib)
  moreover have "dbl_of_int d = D_num (of_int d)" "dbl_of_int (10 ^ 6) = D_num (10 ^ 6)"
    using assms(2,3) dbl_of_int_exact [of d] dbl_of_int_exact [of "10 ^ 6"] by simp_all
  then have "total_time_ms (add_time d stat) = D_num (round53 (t + ?a))" by (simp add: add_time_def t(2))
  ultimately show ?thesis using t(1) round53_nonneg [OF pos] by (simp add: stat_near_def add_time_def add_divide_distrib)
qed

lemma stat_near_runs:
  assumes "k < length stats" "stat_near ds (stats ! k)" "0 \<le> sum_list ds"
    "\<forall>(j, d) \<in> set runs. j < length stats \<and> 0 \<le> d \<and> d < 2 ^ 53"
  shows "stat_near (ds @ durations k runs) (fold count_run runs stats ! k)"
  using assms
proof (induction runs arbitrary: stats ds)
  case (Cons r runs)
  obtain j d where r: "r = (j, d)" by (cases r)
  have jd: "j < length stats" "0 \<le> d" "d < 2 ^ 53" using Cons.prems(4) by (auto simp: r)
  have step: "stat_near (if j = k then ds @ [d] else ds) (count_run r stats ! k)"
    using stat_near_run [OF Cons.prems(2) jd(2,3) Cons.prems(3)] Cons.prems(1,2) jd(1)
    by (simp add: r count_run_nth)
  show ?case using Cons.IH [OF _ step] Cons.prems(1,3,4) jd(2) by (cases "j = k") (simp_all add: r)
qed simp

lemma sum_list_durations: "\<forall>(j, d) \<in> set runs. 0 \<le> d \<Longrightarrow> 0 \<le> sum_list (durations k runs)"
  by (rule sum_list_nonneg) (auto simp: durations_def)

lemma average_near:
  assumes "stat_near ds stat" "ds \<noteq> []" "0 \<le> sum_list ds" "length ds < 2 ^ 53"
  shows "\<exists>v. average_ns stat = D_num v \<and> 0 \<le> v \<and> near (length ds + 3) (of_int (sum_list ds) / of_nat (length ds)) v"
proof -
  let ?n = "of_nat (length ds) :: rat" and ?s = "of_int (sum_list ds) :: rat"
  obtain t where t: "total_sample_size stat = length ds" "total_time_ms stat = D_num t" "0 \<le> t"
    "near (length ds + 1) (?s / 10 ^ 6) t"
    using assms(1) by (auto simp: stat_near_def)
  have e: "dbl_of_int (10 ^ 6) = D_num (10 ^ 6)" "dbl_of_int (int (length ds)) = D_num ?n"
    using dbl_of_int_exact [of "10 ^ 6"] dbl_of_int_exact [of "int (length ds)"] assms(4) by simp_all
  have n: "0 < ?n" using assms(2) by simp
  have "near (length ds + 1) (10 ^ 6 * (?s / 10 ^ 6)) (10 ^ 6 * t)" by (rule near_scale [OF _ t(4)]) simp
  then have a: "near (Suc (length ds + 1)) ?s (round53 (10 ^ 6 * t))" using t(3) by (intro near_round) simp_all
  have pos: "0 \<le> round53 (10 ^ 6 * t)" using t(3) by (intro round53_nonneg) simp
  have "near (Suc (length ds + 1)) (1 / ?n * ?s) (1 / ?n * round53 (10 ^ 6 * t))"
    using n by (intro near_scale [OF _ a]) simp
  then have v: "near (length ds + 3) (?s / ?n) (round53 (round53 (10 ^ 6 * t) / ?n))"
    using near_round [of "Suc (length ds + 1)" "?s / ?n" "round53 (10 ^ 6 * t) / ?n"] pos n
    by (simp add: numeral_3_eq_3)
  show ?thesis
  proof (cases "t = 0")
    case True
    have "0 < (1 - 1 / 2 ^ 53 :: rat) ^ (length ds + 1)" by simp
    moreover have "?s / 10 ^ 6 * (1 - 1 / 2 ^ 53) ^ (length ds + 1) \<le> 0" using t(4) True by (simp add: near_def)
    ultimately have "?s / 10 ^ 6 \<le> 0" by (metis mult_le_0_iff less_le_not_le)
    then have "?s = 0" using assms(3) by simp
    then show ?thesis using True t(2) by (simp add: average_ns_def near_def)
  next
    case False
    then show ?thesis using v pos n round53_nonneg [of "round53 (10 ^ 6 * t) / ?n"]
      by (simp add: average_ns_def t(1,2) e [simplified])
  qed
qed

text \<open>A number in tenths.\<close>

definition format_tenths :: "nat \<Rightarrow> string" where
  "format_tenths n = format_nat (n div 10) @ CHR ''.'' # format_nat (n mod 10)"

lemma format_fixed_1:
  assumes "0 \<le> x"
  shows "\<exists>n. format_fixed 1 (D_num x) = format_tenths n \<and> \<bar>of_nat n / 10 - x\<bar> \<le> 1 / 20"
proof -
  let ?i = "round_even (x * 10)"
  have i: "0 \<le> ?i" using round_even_ge [of 0 "x * 10"] assms by simp
  define n where "n = nat ?i"
  have n: "nat (round_even (\<bar>x\<bar> * 10 ^ 1)) = n" using assms by (simp add: n_def)
  have last: "format_nat (n mod 10) = [digit_char (n mod 10)]" by (subst format_nat.simps) simp
  have shown: "format_fixed 1 (D_num x) = format_tenths n"
  proof (cases "n < 10")
    case True
    then have "format_nat n = [digit_char n]" by (subst format_nat.simps) simp
    moreover have "format_nat 0 = ''0''" by code_simp
    ultimately show ?thesis using assms True last n by (simp add: format_tenths_def Let_def)
  next
    case False
    then have d: "format_nat n = format_nat (n div 10) @ [digit_char (n mod 10)]"
      by (subst format_nat.simps) simp
    have "format_nat (n div 10) \<noteq> []" by (subst format_nat.simps) simp
    then have "Suc (Suc 0) - length (format_nat n) = 0" by (cases "format_nat (n div 10)") (simp_all add: d)
    then show ?thesis using assms last n d by (simp add: format_tenths_def Let_def)
  qed
  have "\<bar>of_int ?i - x * 10\<bar> \<le> 1 / 2" by (rule round_even_error)
  moreover have "(of_nat n :: rat) = of_int ?i" using i by (simp add: n_def)
  ultimately have "\<bar>of_nat n / 10 - x\<bar> \<le> 1 / 20" by (simp add: abs_if split: if_splits)
  with shown show ?thesis by blast
qed

lemma same_name_lost:
  "map_of (task_records (register_task_result ''Struct deserializer'' b
     (register_task_result ''Struct deserializer'' a mk_AppReport))) ''Struct deserializer'' = Some a"
  by (simp add: register_task_result_def mk_AppReport_def)

section \<open>Properties\<close>

text \<open>
  The row of a task's line in the report, whatever runs of whatever durations there were on
  the lines: unless an earlier task had the same name, the table has a row for the line with its
  exact number of runs, and with the total in milliseconds and the average in nanoseconds shown in
  tenths, each within a twentieth of a number that differs from the exact total and average by at
  most one rounding of a double for every run, and three more.\<close>

theorem task_report_row:
  assumes "sorted_wrt (<) (map fst (task_records r))" "map_of (task_records r) name = None" "k < n_lines"
    "\<forall>(line, d) \<in> set runs. line < n_lines \<and> 0 \<le> d \<and> d < 2 ^ 53"
    "durations k runs \<noteq> []" "length (durations k runs) < 2 ^ 53"
  shows "\<exists>total average t v.
    ((if k = 0 then name else []) #
      [format_nat k, format_tenths total, format_tenths average, format_nat (length (durations k runs))]) \<in>
      set (report_task_result (destroy_BaseTask True name (fold count_run runs (replicate n_lines default_TaskStat)) r)) \<and>
    \<bar>of_nat total / 10 - t\<bar> \<le> 1 / 20 \<and>
    near (length (durations k runs) + 1) (of_int (sum_list (durations k runs)) / 10 ^ 6) t \<and>
    \<bar>of_nat average / 10 - v\<bar> \<le> 1 / 20 \<and>
    near (length (durations k runs) + 3) (of_int (sum_list (durations k runs)) / of_nat (length (durations k runs))) v"
proof -
  let ?ds = "durations k runs" and ?stats = "fold count_run runs (replicate n_lines default_TaskStat)"
  have len: "length ?stats = n_lines"
    by (rule fold_invariant [where P = "\<lambda>xs. length xs = n_lines" and Q = "\<lambda>_. True"]) simp_all
  have "stat_near [] default_TaskStat" by (simp add: stat_near_def default_TaskStat_def near_def)
  then have near: "stat_near ?ds (?stats ! k)"
    using stat_near_runs [of k "replicate n_lines default_TaskStat" "[]" runs] assms(3,4) by simp
  have nonneg: "0 \<le> sum_list ?ds" using assms(4) by (intro sum_list_durations) auto
  obtain t where t: "total_sample_size (?stats ! k) = length ?ds" "total_time_ms (?stats ! k) = D_num t" "0 \<le> t"
    "near (length ?ds + 1) (of_int (sum_list ?ds) / 10 ^ 6) t"
    using near by (auto simp: stat_near_def)
  obtain v where v: "average_ns (?stats ! k) = D_num v" "0 \<le> v"
    "near (length ?ds + 3) (of_int (sum_list ?ds) / of_nat (length ?ds)) v"
    using average_near [OF near assms(5) nonneg assms(6)] by blast
  obtain total average where shown: "format_fixed 1 (D_num t) = format_tenths total" "\<bar>of_nat total / 10 - t\<bar> \<le> 1 / 20"
    "format_fixed 1 (D_num v) = format_tenths average" "\<bar>of_nat average / 10 - v\<bar> \<le> 1 / 20"
    using format_fixed_1 [OF t(3)] format_fixed_1 [OF v(2)] by blast
  have "map_of (task_records (register_task_result name ?stats r)) name = Some ?stats"
    using register_task_first [OF assms(1), of name ?stats name] assms(2) by simp
  then have "(name, ?stats) \<in> set (task_records (register_task_result name ?stats r))" by (rule map_of_SomeD)
  from split_rows_all [OF this, of k task_row] assms(3)
  have "(if k = 0 then name else []) # task_row k (?stats ! k) \<in>
      set (report_task_result (destroy_BaseTask True name ?stats r))"
    by (simp add: report_task_result_def destroy_BaseTask_def len)
  then show ?thesis using shown(2,4) t(4) v(3) unfolding task_row_def t(1,2) v(1) shown(1,3) by blast
qed

lemma task_report_row_witness:
  "\<exists>total average t v. [''Json writer'', format_nat 0, format_tenths total, format_tenths average, format_nat 2] \<in>
      set (report_task_result (destroy_BaseTask True ''Json writer''
        (fold count_run [(0, 700), (1, 50), (0, 901)] (replicate 2 default_TaskStat)) mk_AppReport)) \<and>
    \<bar>of_nat total / 10 - t\<bar> \<le> 1 / 20 \<and> near 3 (1601 / 10 ^ 6) t \<and>
    \<bar>of_nat average / 10 - v\<bar> \<le> 1 / 20 \<and> near 5 (1601 / 2) v"
proof -
  let ?runs = "[(0, 700), (1, 50), (0, 901)] :: (nat \<times> int) list"
  have ds: "durations 0 ?runs = [700, 901]" by simp
  have num: "length [700, 901 :: int] = 2" "sum_list [700, 901 :: int] = 1601" "(2 :: nat) + 1 = 3" "(2 :: nat) + 3 = 5"
    "rat_of_int 1601 = 1601" "rat_of_nat 2 = 2" "(if (0 :: nat) = 0 then ''Json writer'' else []) = ''Json writer''"
    by simp_all
  show ?thesis
    by (rule task_report_row [of mk_AppReport "''Json writer''" 0 2 ?runs, unfolded ds num])
      (simp_all add: mk_AppReport_def)
qed

text \<open>A socket that received nothing shows no number: zero by zero.\<close>

lemma no_frames_row: "reading_row \<lparr>n_frames = 0, stat_time_ns = 0, total_bytes_read = 0\<rparr> = [''nan'', ''nan'', ''0'']"
proof -
  have "format_nat 0 = ''0''" by code_simp
  then show ?thesis by (simp add: reading_row_def dbl_of_int_def)
qed

text \<open>What is called the latency of the answer is the time the message took to be sent.\<close>

lemma latency_is_send_duration:
  "socket_row 0 (last (stamp_message before_us after_us name remote ts)) =
     [remote, name, format_int before_us @ '' (+'' @ format_int 0 @ '')'', format_int (after_us - before_us)]"
  by (simp add: stamp_message_def socket_row_def)

end
