(* ===== verification/Command_Line.thy ===== *)
theory Command_Line
  imports Default_Paths Enum_Names
begin

text \<open>
  The main programs \<^verbatim>\<open>srs_control.cpp\<close> and \<^verbatim>\<open>srs_fec_emulator.cpp\<close> from the command line to
  the exit status. The CLI library, which turns the arguments into the texts of the options
  that were given and matches a text with the keys of a transformer, is a parameter; it runs the
  callbacks of the options in the order the program adds them. The lemmas show which value of
  an option wins, that the names the help lists are understood in any case, and when the exit
  status tells of an error.
\<close>

section \<open>The library\<close>

text \<open>The options that were given, with the text the library hands to the callback.\<close>

record control_args =
  arg_version :: bool
  arg_root_version :: bool
  arg_action :: "string option"
  arg_log_level :: "string option"
  arg_run_time :: "nat option"
  arg_print_mode :: "string option"
  arg_config_file :: "string option"
  arg_split_output :: "nat option"
  arg_dump_config :: "string option"
  arg_output_files :: "string list option"

record emulator_args =
  arg_emulator_log_level :: "string option"
  arg_emulator_dump_config :: "string option"
  arg_emulator_config_file :: "string option"

text \<open>\<open>cli_read\<close>: the options among the arguments, given the default of the file options, or an
  error; \<open>cli_transform\<close>: the key of a \<^verbatim>\<open>CheckedTransformer\<close> that ignores case which a text stands
  for; \<open>cli_exit\<close>: the exit status of an error.\<close>

record ('argv, 'args) cli =
  cli_read :: "string \<Rightarrow> 'argv \<Rightarrow> string + 'args"
  cli_transform :: "string list \<Rightarrow> string \<Rightarrow> string option"
  cli_exit :: "string \<Rightarrow> nat"

definition cli_documented :: "('argv, 'args) cli \<Rightarrow> bool" where
  "cli_documented cli \<longleftrightarrow> (\<forall>keys s k. distinct (map (map lower) keys) \<longrightarrow> k \<in> set keys \<longrightarrow>
     map lower s = map lower k \<longrightarrow> cli_transform cli keys s = Some k) \<and> (\<forall>e. cli_exit cli e \<noteq> 0)"

text \<open>The transformer of an enumeration: its keys are the dashed names.\<close>

definition dashed_keys :: "'e enumerators \<Rightarrow> string list" where
  "dashed_keys es = map (\<lambda>e. get_enum_dashed_name es (snd e)) es"

definition transform_enum :: "('argv, 'args) cli \<Rightarrow> 'e enumerators \<Rightarrow> string \<Rightarrow> 'e option" where
  "transform_enum cli es s =
     (case cli_transform cli (dashed_keys es) s of None \<Rightarrow> None | Some key \<Rightarrow> get_enum_dash_map es key)"

section \<open>srs\_control\<close>

datatype 'v parse_result = Parsed 'v | Parse_error string | Parse_exception string

fun pr_bind :: "'v parse_result \<Rightarrow> ('v \<Rightarrow> 'w parse_result) \<Rightarrow> 'w parse_result" where
  "pr_bind (Parsed v) f = f v"
| "pr_bind (Parse_error e) f = Parse_error e"
| "pr_bind (Parse_exception e) f = Parse_exception e"

text \<open>The variables of the main function that the options set.\<close>

record control_vars =
  v_app_config :: Config
  v_print_mode :: DataPrintMode
  v_runtime_sec :: nat
  v_action_mode :: ActionMode
  v_log_level :: string
  v_is_version_print :: bool
  v_is_root_version_print :: bool
  v_is_dump_needed :: bool
  v_json_filepath :: string

definition control_home_dir :: "(string \<Rightarrow> string option) \<Rightarrow> string" where
  "control_home_dir getenv = (case getenv ''HOME'' of None \<Rightarrow> [] | Some home_var \<Rightarrow> home_var)"

text \<open>\<open>None\<close> would be the use of a variable that is not set.\<close>

definition default_json_filepath :: "(string \<Rightarrow> string option) \<Rightarrow> string option" where
  "default_json_filepath getenv =
     (if control_home_dir getenv = [] then Some [] else get_default_config_path getenv)"

definition control_defaults :: "string \<Rightarrow> control_vars" where
  "control_defaults json_filepath = \<lparr>v_app_config = default_Config, v_print_mode = print_speed, v_runtime_sec = 0,
     v_action_mode = am_all, v_log_level = ''info'', v_is_version_print = False, v_is_root_version_print = False,
     v_is_dump_needed = False, v_json_filepath = json_filepath\<rparr>"

definition dump_config_callback :: "string \<Rightarrow> control_vars \<Rightarrow> control_vars" where
  "dump_config_callback filename v = v\<lparr>v_is_dump_needed := True, v_json_filepath := filename\<rparr>"

lemma control_defaults_simps [simp]:
  "v_app_config (control_defaults p) = default_Config" "\<not> v_is_dump_needed (control_defaults p)"
  by (simp_all add: control_defaults_def)

text \<open>An error of the configuration file is a validation error of the library.\<close>

definition set_config_callback ::
  "Config glaze \<Rightarrow> string \<Rightarrow> control_vars \<Rightarrow> file_system \<Rightarrow> control_vars parse_result \<times> file_system" where
  "set_config_callback g filename v fs =
     (case set_config_from_file g (v_app_config v) filename True fs of
        (Raised e, cfg, fs) \<Rightarrow> (Parse_exception e, fs)
      | (Returned (Some e), cfg, fs) \<Rightarrow> (Parse_error ''--config-file'', fs)
      | (Returned None, cfg, fs) \<Rightarrow> (Parsed (v\<lparr>v_app_config := cfg\<rparr>), fs))"

text \<open>An option that was not given leaves its variable.\<close>

definition given :: "'a option \<Rightarrow> ('a \<Rightarrow> 'v \<Rightarrow> 'v) \<Rightarrow> 'v \<Rightarrow> 'v" where
  "given a f v = (case a of None \<Rightarrow> v | Some x \<Rightarrow> f x v)"

definition given_enum :: "('argv, 'args) cli \<Rightarrow> 'e enumerators \<Rightarrow> string option \<Rightarrow> ('e \<Rightarrow> 'v \<Rightarrow> 'v) \<Rightarrow> 'v \<Rightarrow> 'v parse_result" where
  "given_enum cli es a f v =
     (case a of
        None \<Rightarrow> Parsed v
      | Some s \<Rightarrow> (case transform_enum cli es s of None \<Rightarrow> Parse_error s | Some e \<Rightarrow> Parsed (f e v)))"

text \<open>The options up to the configuration file, and those behind it.\<close>

definition control_first_options ::
  "('argv, control_args) cli \<Rightarrow> string enumerators \<Rightarrow> control_args \<Rightarrow> control_vars \<Rightarrow> control_vars parse_result" where
  "control_first_options cli levels a v =
     (let v = v\<lparr>v_is_version_print := arg_version a\<rparr>;
          v = v\<lparr>v_is_root_version_print := arg_root_version a\<rparr>
      in pr_bind (given_enum cli ActionMode_enumerators (arg_action a) (\<lambda>x v. v\<lparr>v_action_mode := x\<rparr>) v) (\<lambda>v.
         pr_bind (given_enum cli levels (arg_log_level a) (\<lambda>x v. v\<lparr>v_log_level := x\<rparr>) v) (\<lambda>v.
           let v = given (arg_run_time a) (\<lambda>x v. v\<lparr>v_runtime_sec := x\<rparr>) v
           in given_enum cli DataPrintMode_enumerators (arg_print_mode a) (\<lambda>x v. v\<lparr>v_print_mode := x\<rparr>) v)))"

definition control_last_options :: "control_args \<Rightarrow> control_vars \<Rightarrow> control_vars" where
  "control_last_options a v =
     (let v = given (arg_split_output a) (\<lambda>n v. v\<lparr>v_app_config := (v_app_config v)\<lparr>output_split := n\<rparr>\<rparr>) v;
          v = given (arg_dump_config a) dump_config_callback v
      in given (arg_output_files a) (\<lambda>fs v. v\<lparr>v_app_config := (v_app_config v)\<lparr>output_filenames := fs\<rparr>\<rparr>) v)"

definition control_parse ::
  "('argv, control_args) cli \<Rightarrow> string enumerators \<Rightarrow> Config glaze \<Rightarrow> string \<Rightarrow> 'argv \<Rightarrow> file_system \<Rightarrow>
     control_vars parse_result \<times> file_system" where
  "control_parse cli levels g json_filepath argv fs =
     (case cli_read cli json_filepath argv of
        Inl e \<Rightarrow> (Parse_error e, fs)
      | Inr a \<Rightarrow>
          (case control_first_options cli levels a (control_defaults json_filepath) of
             Parsed v \<Rightarrow>
               (let (r, fs) = (case arg_config_file a of
                       None \<Rightarrow> (Parsed v, fs)
                     | Some filename \<Rightarrow> set_config_callback g filename v fs)
                in (pr_bind r (\<lambda>v. Parsed (control_last_options a v)), fs))
           | Parse_error e \<Rightarrow> (Parse_error e, fs)
           | Parse_exception e \<Rightarrow> (Parse_exception e, fs)))"

text \<open>Every exception is caught and the main function returns 0, also after an error of the
  library, whose own status is dropped.\<close>

definition control_program ::
  "('argv, control_args) cli \<Rightarrow> string enumerators \<Rightarrow> Config glaze \<Rightarrow> app_env \<Rightarrow> (string \<Rightarrow> string option) \<Rightarrow> 'argv \<Rightarrow>
     file_system \<Rightarrow> App outcome program_end \<times> file_system" where
  "control_program cli levels g env getenv argv fs =
     (case default_json_filepath getenv of
        None \<Rightarrow> (Aborted ''getenv'', fs)
      | Some json_filepath \<Rightarrow>
          (case control_parse cli levels g json_filepath argv fs of
             (Parsed v, fs) \<Rightarrow>
               if v_is_version_print v then (Exit_code 0, fs)
               else if v_is_dump_needed v then
                 (case output_config_to_file g (v_app_config v) (v_json_filepath v) False fs of
                    (Returned (Some _), fs) \<Rightarrow> (Exit_code 1, fs)
                  | (Returned None, fs) \<Rightarrow> (Exit_code 0, fs)
                  | (Raised _, fs) \<Rightarrow> (Exit_code 0, fs))
               else if v_is_root_version_print v then (Exit_code 1, fs)
               else (Runs (main_run env (v_app_config v) (v_print_mode v) (v_runtime_sec v) (v_action_mode v)), fs)
           | (_, fs) \<Rightarrow> (Exit_code 0, fs)))"


section \<open>srs\_fec\_emulator\<close>

text \<open>\<open>excludes\<close> is checked after the callbacks of the options.\<close>

definition emulator_program ::
  "('argv, emulator_args) cli \<Rightarrow> string enumerators \<Rightarrow> world_config glaze \<Rightarrow> (nat \<Rightarrow> 'g) \<Rightarrow> world_config \<Rightarrow> 'argv \<Rightarrow>
     file_system \<Rightarrow> ('g, 'e) World program_end \<times> file_system" where
  "emulator_program cli levels g gens config argv fs =
     (case cli_read cli ''fec_emulator.yaml'' argv of
        Inl e \<Rightarrow> (Exit_code (cli_exit cli e), fs)
      | Inr a \<Rightarrow>
          (case given_enum cli levels (arg_emulator_log_level a) (\<lambda>_. id) ([], False) of
             Parsed v \<Rightarrow>
               (let v = given (arg_emulator_dump_config a) (\<lambda>filename _. (filename, True)) v;
                    (config_filepath, is_dump_needed) =
                      given (arg_emulator_config_file a) (\<lambda>filename v. (filename, snd v)) v
                in if arg_emulator_dump_config a \<noteq> None \<and> arg_emulator_config_file a \<noteq> None
                   then (Exit_code (cli_exit cli ''excludes''), fs)
                   else emulator_main g gens config is_dump_needed config_filepath fs)
           | Parse_error e \<Rightarrow> (Exit_code (cli_exit cli e), fs)
           | Parse_exception e \<Rightarrow> (Aborted e, fs)))"

section \<open>Names\<close>

lemma given_simps [simp]: "given None f v = v" "given (Some x) f v = f x v"
  by (simp_all add: given_def)

lemma dashed_keys_names:
  "enumerators_ok es \<Longrightarrow> dashed_keys es = map (map enum_to_dash) (map fst es)"
  by (simp add: dashed_keys_def get_enum_dashed_name_def enum_name_of)

text \<open>Two identifiers of an enumeration differ in lower case, and so do their dashed forms.\<close>

lemma transform_enum_name:
  assumes "cli_documented cli" "enumerators_ok es" "distinct (map (map lower) (dashed_keys es))"
    and "e \<in> set es" "map lower s = map lower (map enum_to_dash (fst e))"
  shows "transform_enum cli es s = Some (snd e)"
proof -
  have "map enum_to_dash (fst e) \<in> set (dashed_keys es)"
    using assms(4) dashed_keys_names [OF assms(2)] by force
  then have "cli_transform cli (dashed_keys es) s = Some (map enum_to_dash (fst e))"
    using assms(1,3,5) by (simp add: cli_documented_def)
  then show ?thesis using get_enum_dash_map_names [OF assms(2,4)] by (simp add: transform_enum_def)
qed

lemma program_keys_distinct:
  "distinct (map (map lower) (dashed_keys ActionMode_enumerators))"
  "distinct (map (map lower) (dashed_keys DataPrintMode_enumerators))"
  by code_simp+

lemma help_names_transform:
  assumes "cli_documented cli" "enumerators_ok es" "distinct (map (map lower) (dashed_keys es))"
    and "length (concat (map fst es)) \<le> 20 * length es"
  shows "\<exists>names. get_enum_dashed_names es = Some names \<and> length names = length es \<and>
    (\<forall>i < length es. \<forall>s. map lower s = map lower (names ! i) \<longrightarrow> transform_enum cli es s = Some (snd (es ! i)))"
  using dashed_names [OF assms(4)] transform_enum_name [OF assms(1-3)] by force

text \<open>
  The names that the help of \<^verbatim>\<open>srs_control\<close> lists for the actions and the print modes are
  the ones it understands: each, written in upper or lower case, selects the enumerator at its
  place of the list.\<close>

theorem help_names_accepted:
  assumes "cli_documented cli"
  shows "(\<exists>names. get_enum_dashed_names ActionMode_enumerators = Some names \<and> length names = 5 \<and>
      (\<forall>i < 5. \<forall>s. map lower s = map lower (names ! i) \<longrightarrow>
         transform_enum cli ActionMode_enumerators s = Some ([am_all, am_acq_on, am_acq_off, am_read_only, am_none] ! i))) \<and>
    (\<exists>names. get_enum_dashed_names DataPrintMode_enumerators = Some names \<and> length names = 4 \<and>
      (\<forall>i < 4. \<forall>s. map lower s = map lower (names ! i) \<longrightarrow>
         transform_enum cli DataPrintMode_enumerators s = Some ([print_speed, print_header, print_raw, print_all] ! i)))"
proof -
  have len: "length ActionMode_enumerators = 5" "length DataPrintMode_enumerators = 4"
    "length (concat (map fst ActionMode_enumerators)) \<le> 20 * length ActionMode_enumerators"
    "length (concat (map fst DataPrintMode_enumerators)) \<le> 20 * length DataPrintMode_enumerators"
    by code_simp+
  have vals: "map snd ActionMode_enumerators = [am_all, am_acq_on, am_acq_off, am_read_only, am_none]"
    "map snd DataPrintMode_enumerators = [print_speed, print_header, print_raw, print_all]"
    by (simp_all add: ActionMode_enumerators_def DataPrintMode_enumerators_def)
  have nth: "snd (ActionMode_enumerators ! i) = [am_all, am_acq_on, am_acq_off, am_read_only, am_none] ! i" if "i < 5" for i
    using that len by (simp flip: vals)
  have nth': "snd (DataPrintMode_enumerators ! i) = [print_speed, print_header, print_raw, print_all] ! i" if "i < 4" for i
    using that len by (simp flip: vals)
  show ?thesis
    using help_names_transform [OF assms program_enumerators_ok(1) program_keys_distinct(1) len(3)]
      help_names_transform [OF assms program_enumerators_ok(2) program_keys_distinct(2) len(4)]
    by (simp add: len nth nth')
qed

section \<open>Which value wins\<close>

lemma main_run_print_mode [simp]:
  "main_run env (cfg\<lparr>data_print_mode := x\<rparr>) pm n mode = main_run env cfg pm n mode"
  by (simp add: main_run_def app_set_print_mode_def mk_App_def)

definition chosen :: "('argv, 'args) cli \<Rightarrow> 'e enumerators \<Rightarrow> 'e \<Rightarrow> string option \<Rightarrow> 'e option" where
  "chosen cli es d a = (case a of None \<Rightarrow> Some d | Some s \<Rightarrow> transform_enum cli es s)"

lemma given_enum_chosen:
  "given_enum cli es a f v = (case a of None \<Rightarrow> Parsed v
     | Some s \<Rightarrow> (case chosen cli es d a of None \<Rightarrow> Parse_error s | Some e \<Rightarrow> Parsed (f e v)))"
  by (simp add: given_enum_def chosen_def split: option.split)

lemma control_first_options_ok:
  assumes "chosen cli ActionMode_enumerators am_all (arg_action a) = Some mode"
    "chosen cli levels ''info'' (arg_log_level a) = Some level"
    "chosen cli DataPrintMode_enumerators print_speed (arg_print_mode a) = Some pm"
  shows "control_first_options cli levels a (control_defaults p) = Parsed ((control_defaults p)\<lparr>
    v_is_version_print := arg_version a, v_is_root_version_print := arg_root_version a, v_action_mode := mode,
    v_log_level := level, v_runtime_sec := (case arg_run_time a of None \<Rightarrow> 0 | Some n \<Rightarrow> n), v_print_mode := pm\<rparr>)"
  using assms
  by (auto simp: control_first_options_def given_enum_def chosen_def control_defaults_def Let_def given_def
      split: option.splits)

text \<open>
  C35. Where the values of a run of \<^verbatim>\<open>srs_control\<close> come from: the number of lines and the
  outputs are those of the command line when given there, and those of the configuration file
  otherwise, although the file is read in the middle of the parsing; the print mode of the file
  never matters, since the one of the command line or its default replaces it; everything else
  is the file's, or the default without a file.\<close>

theorem command_line_precedence:
  assumes "cli_read cli p argv = Inr a" "default_json_filepath getenv = Some p"
    and "chosen cli ActionMode_enumerators am_all (arg_action a) = Some mode"
    "chosen cli levels ''info'' (arg_log_level a) = Some level"
    "chosen cli DataPrintMode_enumerators print_speed (arg_print_mode a) = Some pm"
    and "\<not> arg_version a" "\<not> arg_root_version a" "arg_dump_config a = None"
    and "case arg_config_file a of
        None \<Rightarrow> cfg = default_Config \<and> fs' = fs
      | Some f \<Rightarrow> set_config_from_file g default_Config f True fs = (Returned None, cfg, fs')"
  shows "control_program cli levels g env getenv argv fs =
    (Runs (main_run env
       (cfg\<lparr>output_split := (case arg_split_output a of None \<Rightarrow> output_split cfg | Some n \<Rightarrow> n),
            output_filenames := (case arg_output_files a of None \<Rightarrow> output_filenames cfg | Some names \<Rightarrow> names),
            data_print_mode := ignored\<rparr>)
       pm (case arg_run_time a of None \<Rightarrow> 0 | Some n \<Rightarrow> n) mode), fs')"
proof -
  note first = control_first_options_ok [OF assms(3-5), of p]
  show ?thesis using assms(1,2,6-9)
    by (cases "arg_config_file a"; cases "arg_split_output a"; cases "arg_output_files a")
      (simp_all add: control_program_def control_parse_def first control_last_options_def set_config_callback_def)
qed

section \<open>The exit status\<close>










text \<open>Without the options that set single values the program is the one of \<^verbatim>\<open>Config_Files\<close>.\<close>

lemma control_program_main:
  assumes "cli_read cli p argv = Inr a" "default_json_filepath getenv = Some p"
    and "chosen cli ActionMode_enumerators am_all (arg_action a) = Some mode"
    "chosen cli levels ''info'' (arg_log_level a) = Some level"
    "chosen cli DataPrintMode_enumerators print_speed (arg_print_mode a) = Some pm"
    and "\<not> arg_version a" "\<not> arg_root_version a" "arg_split_output a = None" "arg_output_files a = None"
  shows "control_program cli levels g env getenv argv fs =
    control_main g env (arg_config_file a) (arg_dump_config a) pm
      (case arg_run_time a of None \<Rightarrow> 0 | Some n \<Rightarrow> n) mode fs"
proof -
  note first = control_first_options_ok [OF assms(3-5), of p]
  have defs: "control_defaults p = (control_defaults p)\<lparr>v_app_config := default_Config\<rparr>"
    by (simp add: control_defaults_def)
  show ?thesis using assms(1,2,6-9)
    by (cases "arg_config_file a"; cases "arg_dump_config a")
      (auto simp: control_program_def control_parse_def first control_last_options_def set_config_callback_def
        control_main_def dump_config_callback_def split_def Let_def split: config_result.splits option.splits)
qed

text \<open>The emulator program: both file options are an error, none of them an empty name of the
  configuration file, which is an error too.\<close>

lemma emulator_program_cases:
  assumes "cli_documented cli" "cli_read cli ''fec_emulator.yaml'' argv = Inr a" "arg_emulator_log_level a = None"
  shows "emulator_program cli levels g gens c argv fs =
    (case (arg_emulator_dump_config a, arg_emulator_config_file a) of
       (None, None) \<Rightarrow> (Exit_code 1, fs)
     | (Some f, None) \<Rightarrow> emulator_main g gens c True f fs
     | (None, Some f) \<Rightarrow> emulator_main g gens c False f fs
     | _ \<Rightarrow> (Exit_code (cli_exit cli ''excludes''), fs)) \<and> cli_exit cli ''excludes'' \<noteq> 0"
  using assms
  by (auto simp: emulator_program_def given_enum_def emulator_main_def set_config_from_file_def cli_documented_def
      split: option.split)

section \<open>Concrete command lines\<close>

definition cli_ref :: "('args, 'args) cli" where
  "cli_ref = \<lparr>cli_read = (\<lambda>d a. Inr a), cli_transform = (\<lambda>keys s. find (\<lambda>k. map lower k = map lower s) keys),
     cli_exit = (\<lambda>e. 105)\<rparr>"

definition no_args :: control_args where
  "no_args = \<lparr>arg_version = False, arg_root_version = False, arg_action = None, arg_log_level = None,
     arg_run_time = None, arg_print_mode = None, arg_config_file = None, arg_split_output = None,
     arg_dump_config = None, arg_output_files = None\<rparr>"

lemma cli_ref_read [simp]: "cli_read cli_ref d a = Inr a"
  by (simp add: cli_ref_def)

lemma cli_ref_documented: "cli_documented cli_ref"
proof -
  have "find (\<lambda>k. map lower k = map lower s) keys = Some k"
    if "distinct (map (map lower) keys)" "k \<in> set keys" "map lower s = map lower k" for keys s k
    using that find_unique [of "map lower" keys k] by simp
  then show ?thesis by (simp add: cli_documented_def cli_ref_def)
qed

lemma help_names_accepted_witness:
  "transform_enum (cli_ref :: (unit, unit) cli) ActionMode_enumerators ''ACQ-Off'' = Some am_acq_off"
proof -
  obtain names where n: "get_enum_dashed_names ActionMode_enumerators = Some names"
    "\<forall>i < 5. \<forall>s. map lower s = map lower (names ! i) \<longrightarrow>
       transform_enum (cli_ref :: (unit, unit) cli) ActionMode_enumerators s = Some ([am_all, am_acq_on, am_acq_off, am_read_only, am_none] ! i)"
    using help_names_accepted [OF cli_ref_documented] by blast
  have "names ! 2 = ''acq-off''" using n(1) program_dashed_names(1) by auto
  moreover have "map lower ''ACQ-Off'' = map lower ''acq-off''" by code_simp
  ultimately show ?thesis using n(2) [rule_format, of 2 "''ACQ-Off''"] by simp
qed

lemma command_line_precedence_witness:
  "control_program cli_ref [] (glaze_of default_Config) sample_env [''HOME'' \<mapsto> ''/root'']
      (no_args\<lparr>arg_action := Some ''None'', arg_output_files := Some [''a.bin'']\<rparr>) no_files =
    (Runs (main_run sample_env (default_Config\<lparr>output_filenames := [''a.bin'']\<rparr>) print_speed 0 am_none), no_files)"
proof -
  have "transform_enum cli_ref ActionMode_enumerators ''None'' = Some am_none" by code_simp
  then show ?thesis
    using command_line_precedence [where cli = cli_ref and levels = "[]" and g = "glaze_of default_Config"
        and argv = "no_args\<lparr>arg_action := Some ''None'', arg_output_files := Some [''a.bin'']\<rparr>"
        and a = "no_args\<lparr>arg_action := Some ''None'', arg_output_files := Some [''a.bin'']\<rparr>"
        and getenv = "[''HOME'' \<mapsto> ''/root'']" and p = "''/root/.config/srs-control/config.yaml''"
        and mode = am_none and level = "''info''" and pm = print_speed and cfg = default_Config and fs = no_files and fs' = no_files and env = sample_env and ignored = print_speed]
      default_paths_home(2)
    by (simp add: no_args_def chosen_def default_json_filepath_def control_home_dir_def)
qed


end
