(* ===== verification/Frame_Miss_Monitor.thy ===== *)
theory Frame_Miss_Monitor
  imports Doubles
begin








section \<open>Sums and averages\<close>







section \<open>Windows\<close>















end
