(* ===== verification/Data_Monitor.thy ===== *)
theory Data_Monitor
  imports Srs_Prelude State_Machine Doubles
begin

text \<open>
  The monitor of the data rates, \<^verbatim>\<open>workflow::DataMonitor\<close> (\<^verbatim>\<open>workflow/DataMonitor.{hpp,cpp}\<close>):
  a coroutine that waits for its timer, reads the counters of the workflow, and prints the rates
  since the line before; and \<^verbatim>\<open>stop\<close>, called on other threads, which cancels the timer and
  then sets a flag. The coroutine and the calls of \<^verbatim>\<open>stop\<close> form a step relation, cut at the
  accesses to the timer and the flag; cancelling a timer has an effect only on a coroutine that
  waits for it. The counters are 64-bit integers whose differences wrap around.
\<close>

section \<open>Lines\<close>

text \<open>The counters at a moment, and the time in nanoseconds.\<close>

record mon_sample =
  ms_read_data_bytes :: u64
  ms_processed_hit_num :: u64
  ms_frame_counts :: u64
  ms_write_data_bytes :: u64
  ms_drop_data_bytes :: u64
  ms_time :: int

datatype rate_unit = KB_per_s | MB_per_s

record mon_line =
  ml_read_speed :: double
  ml_frame_rate :: double
  ml_write_speed :: double
  ml_drop_speed :: double
  ml_unit :: rate_unit

datatype mon_pc = M_spawned | M_test | M_wait | M_woken bool | M_ended

text \<open>\<open>mon_last\<close>: the values \<^verbatim>\<open>last_read_data_bytes_\<close> to \<^verbatim>\<open>last_print_time_\<close>. \<open>mon_stops\<close>: the
  calls of \<^verbatim>\<open>stop\<close> that have cancelled the timer and not yet set the flag. \<open>M_woken\<close> holds
  whether the wait was aborted. \<open>mon_lines\<close> and \<open>mon_samples\<close> record what was printed and read,
  newest first.\<close>

record DataMonitor =
  mon_pc :: mon_pc
  mon_is_cancelled :: bool
  mon_stops :: nat
  mon_last :: mon_sample
  current_received_bytes_MBps :: double
  current_write_bytes_MBps :: double
  current_drop_bytes_MBps :: double
  current_hits_ps :: double
  mon_lines :: "mon_line list"
  mon_samples :: "mon_sample list"

definition first_sample :: "int \<Rightarrow> mon_sample" where
  "first_sample now = \<lparr>ms_read_data_bytes = 0, ms_processed_hit_num = 0, ms_frame_counts = 0,
     ms_write_data_bytes = 0, ms_drop_data_bytes = 0, ms_time = now\<rparr>"

definition mk_DataMonitor :: "int \<Rightarrow> DataMonitor" where
  "mk_DataMonitor now = \<lparr>mon_pc = M_spawned, mon_is_cancelled = False, mon_stops = 0, mon_last = first_sample now,
     current_received_bytes_MBps = D_num 0, current_write_bytes_MBps = D_num 0,
     current_drop_bytes_MBps = D_num 0, current_hits_ps = D_num 0, mon_lines = [], mon_samples = []\<rparr>"

definition set_speed_string :: "double \<Rightarrow> DataMonitor \<Rightarrow> mon_line" where
  "set_speed_string frame_rate m =
     (let read_speed_MBps = current_received_bytes_MBps m;
          write_speed_MBps = current_write_bytes_MBps m;
          drop_speed_MBps = current_drop_bytes_MBps m;
          scale = (if dbl_less read_speed_MBps (D_num 1) then D_num 1000 else D_num 1);
          unit_string = (if dbl_less read_speed_MBps (D_num 1) then KB_per_s else MB_per_s)
      in \<lparr>ml_read_speed = dbl_mul scale read_speed_MBps, ml_frame_rate = frame_rate,
           ml_write_speed = dbl_mul scale write_speed_MBps, ml_drop_speed = dbl_mul scale drop_speed_MBps,
           ml_unit = unit_string\<rparr>)"

text \<open>The body of the loop behind the wait; \<open>s\<close> are the counters it reads.\<close>

definition print_round :: "nat \<Rightarrow> mon_sample \<Rightarrow> DataMonitor \<Rightarrow> DataMonitor" where
  "print_round buffer_size s m =
     (let prev = mon_last m;
          time_duration = (ms_time s - ms_time prev) div 1000;
          bytes_read = dbl_of_int (uint (ms_read_data_bytes s - ms_read_data_bytes prev));
          bytes_write = dbl_of_int (uint (ms_write_data_bytes s - ms_write_data_bytes prev));
          bytes_drop = dbl_of_int (uint (ms_drop_data_bytes s - ms_drop_data_bytes prev));
          hits_processed = dbl_of_int (uint (ms_processed_hit_num s - ms_processed_hit_num prev));
          frame_counts_diff = ms_frame_counts s - ms_frame_counts prev;
          m = m\<lparr>mon_last := s\<rparr>;
          time_duration_us = dbl_of_int time_duration;
          m = m\<lparr>current_received_bytes_MBps := dbl_div bytes_read time_duration_us\<rparr>;
          m = m\<lparr>current_write_bytes_MBps := dbl_div bytes_write time_duration_us\<rparr>;
          m = m\<lparr>current_drop_bytes_MBps := dbl_div bytes_drop time_duration_us\<rparr>;
          m = m\<lparr>current_hits_ps := dbl_mul (dbl_div hits_processed time_duration_us) (D_num 1000000)\<rparr>;
          frame_rate = (if frame_counts_diff = 0 then D_num 0
            else dbl_mul (dbl_div (dbl_div bytes_read (dbl_of_int (uint frame_counts_diff)))
              (dbl_of_int (int buffer_size))) (D_num 100))
      in m\<lparr>mon_lines := set_speed_string frame_rate m # mon_lines m, mon_samples := s # mon_samples m\<rparr>)"

inductive mon_step :: "nat \<Rightarrow> DataMonitor \<Rightarrow> DataMonitor \<Rightarrow> bool" for buffer_size where
  mon_begin: "mon_pc m = M_spawned \<Longrightarrow> mon_step buffer_size m (m\<lparr>mon_pc := M_test\<rparr>)"
| mon_test: "mon_pc m = M_test \<Longrightarrow>
    mon_step buffer_size m (m\<lparr>mon_pc := if mon_is_cancelled m then M_ended else M_wait\<rparr>)"
| mon_expire: "mon_pc m = M_wait \<Longrightarrow> mon_step buffer_size m (m\<lparr>mon_pc := M_woken False\<rparr>)"
| mon_abort: "mon_pc m = M_woken True \<Longrightarrow> mon_step buffer_size m (m\<lparr>mon_pc := M_ended\<rparr>)"
| mon_print: "mon_pc m = M_woken False \<Longrightarrow> ms_time (mon_last m) \<le> ms_time s \<Longrightarrow>
    mon_step buffer_size m ((print_round buffer_size s m)\<lparr>mon_pc := M_test\<rparr>)"
| mon_stop_cancel: "mon_step buffer_size m (m\<lparr>mon_stops := mon_stops m + 1,
    mon_pc := if mon_pc m = M_wait then M_woken True else mon_pc m\<rparr>)"
| mon_stop_store: "0 < mon_stops m \<Longrightarrow>
    mon_step buffer_size m (m\<lparr>mon_stops := mon_stops m - 1, mon_is_cancelled := True\<rparr>)"


lemma print_round_simps [simp]:
  "mon_pc (print_round b s m) = mon_pc m" "mon_is_cancelled (print_round b s m) = mon_is_cancelled m"
  "mon_stops (print_round b s m) = mon_stops m" "mon_last (print_round b s m) = s"
  "mon_samples (print_round b s m) = s # mon_samples m"
  "length (mon_lines (print_round b s m)) = Suc (length (mon_lines m))"
  "tl (mon_lines (print_round b s m)) = mon_lines m"
  by (simp_all add: print_round_def Let_def)

section \<open>Stopping\<close>

text \<open>A coroutine that is past its test of the flag prints once more.\<close>

definition line_to_come :: "DataMonitor \<Rightarrow> nat" where
  "line_to_come m = (if mon_pc m \<in> {M_wait, M_woken False} then 1 else 0)"

lemma cancelled_step:
  assumes "mon_is_cancelled m" "mon_step b m m'"
  shows "mon_is_cancelled m' \<and> length (mon_lines m') + line_to_come m' \<le> length (mon_lines m) + line_to_come m"
  using assms(2,1) by cases (simp_all add: line_to_come_def)

lemma cancelled_steps:
  "steps (mon_step b) m m' \<Longrightarrow> mon_is_cancelled m \<Longrightarrow>
     mon_is_cancelled m' \<and> length (mon_lines m') + line_to_come m' \<le> length (mon_lines m) + line_to_come m"
proof (induction rule: steps.induct)
  case (steps_step m m1 m2)
  then show ?case using cancelled_step [of m b m1] by fastforce
qed simp

fun pc_distance :: "mon_pc \<Rightarrow> nat" where
  "pc_distance M_spawned = 2"
| "pc_distance M_test = 1"
| "pc_distance M_wait = 3"
| "pc_distance (M_woken aborted) = (if aborted then 1 else 2)"
| "pc_distance M_ended = 0"

interpretation monitor: terminating_system "mon_step b" mon_is_cancelled "\<lambda>m. mon_pc m = M_ended"
  "\<lambda>m. pc_distance (mon_pc m)" for b
proof
  fix m :: DataMonitor
  assume m: "mon_is_cancelled m" "mon_pc m \<noteq> M_ended"
  have "\<exists>t. mon_step b m t \<and> mon_is_cancelled t \<and> pc_distance (mon_pc t) < pc_distance (mon_pc m)"
  proof (cases "mon_pc m")
    case M_spawned
    then show ?thesis using m by (intro exI conjI) (rule mon_begin, simp_all)
  next
    case M_test
    then show ?thesis using m by (intro exI conjI) (rule mon_test, simp_all)
  next
    case M_wait
    then show ?thesis using m by (intro exI conjI) (rule mon_expire, simp_all)
  next
    case (M_woken aborted)
    then show ?thesis using m
      by (cases aborted; intro exI conjI)
        ((rule mon_abort, simp_all)[3], (rule mon_print [where s = "mon_last m"], simp_all)[3])
  qed (use m in simp)
  then show "\<exists>t. steps (mon_step b) m t \<and> mon_is_cancelled t \<and> pc_distance (mon_pc t) < pc_distance (mon_pc m)"
    by (blast intro: steps_one)
qed

text \<open>
  Stopping the monitor: once the flag is set, at most one more line is printed, and none
  unless the coroutine was past its test of the flag, in every interleaving with further calls
  of \<^verbatim>\<open>stop\<close>; and the coroutine can always come to its end.\<close>

theorem monitor_stops:
  assumes "mon_is_cancelled m" "steps (mon_step b) m m'"
  shows "length (mon_lines m') \<le> length (mon_lines m) + (if mon_pc m \<in> {M_wait, M_woken False} then 1 else 0) \<and>
    (\<exists>m''. steps (mon_step b) m' m'' \<and> mon_pc m'' = M_ended)"
  using cancelled_steps [OF assms(2,1)] monitor.reaches_goal [of m'] by (auto simp: line_to_come_def)

section \<open>The rates\<close>




















section \<open>A concrete run\<close>

definition sample_at :: "u64 \<Rightarrow> int \<Rightarrow> mon_sample" where
  "sample_at n now = (first_sample now)\<lparr>ms_read_data_bytes := n\<rparr>"

text \<open>A stop that comes between the test of the flag and the wait: the monitor prints once more
  after the stop is over.\<close>

lemma line_after_stop:
  "\<exists>m m'. steps (mon_step 1) (mk_DataMonitor 0) m \<and> mon_is_cancelled m \<and> mon_stops m = 0 \<and> mon_lines m = [] \<and>
     steps (mon_step 1) m m' \<and> mon_samples m' = [sample_at 500 1000000]"
proof -
  let ?m0 = "mk_DataMonitor 0"
  let ?m1 = "?m0\<lparr>mon_pc := M_test\<rparr>"
  let ?m2 = "?m1\<lparr>mon_stops := 1\<rparr>"
  let ?m3 = "?m2\<lparr>mon_pc := M_wait\<rparr>"
  let ?m4 = "?m3\<lparr>mon_stops := 0, mon_is_cancelled := True\<rparr>"
  let ?m5 = "?m4\<lparr>mon_pc := M_woken False\<rparr>"
  let ?m6 = "(print_round 1 (sample_at 500 1000000) ?m5)\<lparr>mon_pc := M_test\<rparr>"
  note simps = mk_DataMonitor_def first_sample_def
  have m1: "mon_step 1 ?m0 ?m1" by (rule mon_begin) (simp add: simps)
  have m2: "mon_step 1 ?m1 ?m2" using mon_stop_cancel [of 1 ?m1] by (simp add: simps)
  have m3: "mon_step 1 ?m2 ?m3" using mon_test [of ?m2 1] by (simp add: simps)
  have m4: "mon_step 1 ?m3 ?m4" using mon_stop_store [of ?m3 1] by (simp add: simps)
  have m5: "mon_step 1 ?m4 ?m5" using mon_expire [of ?m4 1] by (simp add: simps)
  have m6: "mon_step 1 ?m5 ?m6" by (rule mon_print) (simp_all add: simps sample_at_def)
  show ?thesis
  proof (intro exI conjI)
    show "steps (mon_step 1) ?m0 ?m4"
      by (rule steps_step, rule m1, rule steps_step, rule m2, rule steps_step, rule m3, rule steps_one, rule m4)
    show "steps (mon_step 1) ?m4 ?m6" by (rule steps_step, rule m5, rule steps_one, rule m6)
  qed (simp_all add: simps)
qed

lemma monitor_stops_witness:
  "\<exists>m m'. steps (mon_step 1) (mk_DataMonitor 0) m \<and> mon_is_cancelled m \<and> mon_stops m = 0 \<and>
     mon_samples m' = [sample_at 500 1000000] \<and>
     (\<exists>m''. steps (mon_step 1) m' m'' \<and> mon_pc m'' = M_ended)"
  using line_after_stop monitor_stops [of _ 1] by blast


end
