(* ===== verification/Emulated_Run.thy ===== *)
theory Emulated_Run
  imports Fec_Emulator Pipeline
begin

text \<open>
  The two programs together: the emulators of \<^verbatim>\<open>srs_fec_emulator\<close> send datagrams, the
  network may lose, reorder and duplicate them, and the pipeline of \<^verbatim>\<open>srs_control\<close> receives
  what arrives, cut to the size of its read buffer. Steps of the two programs interleave freely.
  The lemmas carry the frame format across: what is in the JSON files of a run are structures
  the emulators have drawn.
\<close>

section \<open>JSON files of the pipeline\<close>

definition json_texts :: "(CompactExportData \<Rightarrow> string) \<Rightarrow> nat \<Rightarrow> (nat \<times> bytes) list \<Rightarrow> string list" where
  "json_texts g k frames = map (\<lambda>bs. g (export_of (frame_struct bs))) (frames_of k frames)"

definition json_lines :: "nat \<Rightarrow> string list \<Rightarrow> Manager \<Rightarrow> bool" where
  "json_lines k texts m \<longleftrightarrow> (\<forall>(n, c, v) \<in> set (json_files m). js_holds v k texts)"

lemma js_holds_slot:
  "js_n_lines v' = js_n_lines v \<Longrightarrow> js_slot v' k = js_slot v k \<Longrightarrow> js_holds v' k ts = js_holds v k ts"
  by (auto simp: js_holds_def js_slot_def)

lemma js_holds_other:
  "j \<noteq> k \<Longrightarrow> j < js_n_lines v \<Longrightarrow> js_holds (snd (js_run glz v s j)) k ts = js_holds v k ts"
  using js_run_cases [of j v glz s k] by (intro js_holds_slot) simp_all

lemma json_lines_deliver:
  assumes "json_lines k ts m" "\<And>d. lib_glz libs d = Some (g d)" "\<forall>(n, c, v) \<in> set (json_files m). j < js_n_lines v"
  shows "json_lines k (if j = k then ts @ [g (export_of (frame_struct bs))] else ts) (deliver libs bs j m)"
  using assms js_holds_run [of _ k ts "lib_glz libs" "frame_struct bs"]
  by (fastforce simp: json_lines_def deliver_def js_holds_other)

lemma json_lines_fold:
  assumes "\<And>d. lib_glz libs d = Some (g d)" "manager_ok env m" "json_lines k ts m"
    "\<forall>(j, bs) \<in> set frames. j < env_n_lines env"
  shows "json_lines k (ts @ json_texts g k frames) (fold (\<lambda>(k, bs). deliver libs bs k) frames m)"
  using assms(2-)
proof (induction frames arbitrary: m ts)
  case Nil
  then show ?case by (simp add: json_texts_def frames_of_def)
next
  case (Cons f frames)
  obtain j bs where f: "f = (j, bs)" by (cases f)
  have j: "j < env_n_lines env" using Cons.prems(3) by (simp add: f)
  have "\<forall>(n, c, v) \<in> set (json_files m). j < js_n_lines v"
    using Cons.prems(1) j by (auto simp: manager_ok_def sink_map_ok_def)
  from json_lines_deliver [OF Cons.prems(2) assms(1) this]
  have "json_lines k (if j = k then ts @ [g (export_of (frame_struct bs))] else ts) (deliver libs bs j m)" .
  from Cons.IH [OF manager_ok_deliver [OF Cons.prems(1) j] this] Cons.prems(3)
  show ?case by (auto simp: f json_texts_def frames_of_def)
qed

lemma json_lines_emplace:
  "json_lines k [] m \<Longrightarrow> k < env_n_lines env \<Longrightarrow> json_lines k [] (snd (set_output_filename env f m))"
proof (cases "get_filetype_from_filename f")
  case (Pair w c)
  assume m: "json_lines k [] m" and k: "k < env_n_lines env"
  have same: "json_files m' = json_files m \<Longrightarrow> json_lines k [] m'" for m'
    using m by (simp add: json_lines_def)
  show ?thesis
  proof (cases w)
    case w_json
    have "json_lines k [] (snd (add_json_file env f c m))"
      using m js_holds_mk [of "env_can_open env" f "env_n_lines env" _ k] k
        add_json_file_cases [of env f c m] map_try_emplace_set [of f "(c, _)" "json_files m"]
      by (fastforce simp: json_lines_def)
    then show ?thesis by (simp add: set_output_filename_def Pair w_json)
  next
    case w_bin
    then show ?thesis using add_binary_file_cases [of env f c m] by (intro same) (auto simp: set_output_filename_def Pair)
  next
    case w_udp
    then show ?thesis using add_udp_file_cases [of env f c m] by (intro same) (auto simp: set_output_filename_def Pair)
  next
    case w_root
    then show ?thesis using add_root_file_cases [of env f c m] by (intro same) (auto simp: set_output_filename_def Pair)
  qed (intro same; simp add: set_output_filename_def Pair)
qed

lemma json_lines_filenames:
  "json_lines k [] m \<Longrightarrow> k < env_n_lines env \<Longrightarrow> json_lines k [] (snd (set_output_filenames env fs m))"
proof (induction fs arbitrary: m)
  case (Cons f fs)
  then show ?case using json_lines_emplace [OF Cons.prems, of f]
    by (cases "set_output_filename env f m") (auto split: sum.split)
qed simp

lemma json_closed:
  "js_holds v k ts \<Longrightarrow> js_close v ! k = ''[\<newline>'' @ join_items ts @ '']\<newline>''"
  by (simp add: js_holds_def js_close_def js_n_lines_def)

lemma fresh_manager:
  assumes "set_output_filenames env names mk_Manager = (Inr (), m)" "k < env_n_lines env"
  shows "manager_ok env m" "json_lines k [] m"
  using manager_ok_set_filenames [OF manager_ok_mk, of env names] json_lines_filenames [OF _ assms(2), of mk_Manager names]
  by (simp_all add: assms(1)) (simp add: json_lines_def mk_Manager_def)

section \<open>A frame in front of anything\<close>

lemma elements_of_append:
  "elements_of (m + n) bs = elements_of m bs @ elements_of n (drop (6 * m) bs)"
  by (induction m arbitrary: bs) (simp_all add: drop_drop algebra_simps)

lemma struct_of_prefix:
  assumes "struct_in_range s" "take (length (frame_bytes s)) d = frame_bytes s"
  shows "header (struct_of d) = header s"
    "take (length (hit_data s)) (hit_data (struct_of d)) = hit_data s"
    "take (length (marker_data s)) (marker_data (struct_of d)) = marker_data s"
proof -
  let ?ws = "struct_words s" and ?r = "drop (length (frame_bytes s)) d"
  have d: "d = header_bytes_of (header s) @ concat (map element_bytes_of ?ws) @ ?r"
    using assms(2) append_take_drop_id [of "length (frame_bytes s)" d]
    by (simp add: frame_bytes_words words_frame_def del: append_take_drop_id)
  define r where "r = ?r"
  have body: "drop 16 d = concat (map element_bytes_of ?ws) @ r"
    by (subst d, unfold r_def [symmetric]) simp
  have len: "length d = 16 + 6 * length ?ws + length r"
    by (subst d, unfold r_def [symmetric]) (simp only: length_append length_header_bytes_of length_concat_elements)
  have "element_count d = length ?ws + length r div 6"
    by (simp add: element_count_def len)
  then have es: "frame_elements d = ?ws @ elements_of (length r div 6) r"
    using elements_of_concat [of ?ws r] length_concat_elements [of ?ws]
    by (simp add: frame_elements_def elements_of_append body)
  show "header (struct_of d) = header s"
    by (subst d) (simp add: struct_of_def header_of_header_bytes_of)
  show "take (length (hit_data s)) (hit_data (struct_of d)) = hit_data s"
    "take (length (marker_data s)) (marker_data (struct_of d)) = marker_data s"
    using struct_words_parts [OF assms(1), of 0] by (simp_all add: struct_of_def es)
qed

section \<open>The two programs\<close>

record ('g, 'e, 'q) emulated_run =
  er_world :: "('g, 'e) World"
  er_pipeline :: "'q pipeline"

definition er_receive :: "'q cqueue \<Rightarrow> bytes \<Rightarrow> ('g, 'e, 'q) emulated_run \<Rightarrow> ('g, 'e, 'q) emulated_run" where
  "er_receive c d s =
     (let p = er_pipeline s; n = buffer_size (bq_config (sy_queue (pl_queue p)))
      in s\<lparr>er_pipeline := p\<lparr>pl_queue := sy_receive c (take n d) (pl_queue p)\<rparr>\<rparr>)"

inductive er_step ::
  "'g rng \<Rightarrow> 'q cqueue \<Rightarrow> task_libs \<Rightarrow> bool \<Rightarrow> ('g, 'e, 'q) emulated_run \<Rightarrow> ('g, 'e, 'q) emulated_run \<Rightarrow> bool"
  for r c libs stop_returns where
  er_emulator: "wd_step (lib_zpp libs) r (er_world s) w \<Longrightarrow> er_step r c libs stop_returns s (s\<lparr>er_world := w\<rparr>)"
| er_datagram: "(j, d) \<in> set (w_sent (er_world s)) \<Longrightarrow> er_step r c libs stop_returns s (er_receive c d s)"
| er_control: "pl_step c libs stop_returns (er_pipeline s) p \<Longrightarrow>
    sy_received (pl_queue p) = sy_received (pl_queue (er_pipeline s)) \<Longrightarrow>
    er_step r c libs stop_returns s (s\<lparr>er_pipeline := p\<rparr>)"

definition er_start ::
  "(nat \<Rightarrow> 'g) \<Rightarrow> world_config \<Rightarrow> 'q cqueue \<Rightarrow> bq_Config \<Rightarrow> Manager \<Rightarrow> nat \<Rightarrow> ('g, 'e, 'q) emulated_run" where
  "er_start gens wc c cfg m n_lines = \<lparr>er_world = world_start gens wc, er_pipeline = pl_start c cfg m n_lines\<rparr>"

text \<open>Every emulator draws at least one element, and its largest frame fits the buffer.\<close>

definition emulators_fit :: "nat \<Rightarrow> world_config \<Rightarrow> bool" where
  "emulators_fit bsize wc \<longleftrightarrow> (\<forall>f \<in> set (cfg_FECs wc). min_max_ok (cfg_n_hits f) \<and> min_max_ok (cfg_n_markers f) \<and>
     0 < mm_min (cfg_n_hits f) + mm_min (cfg_n_markers f) \<and>
     16 + 6 * (mm_max (cfg_n_hits f) + mm_max (cfg_n_markers f)) \<le> bsize)"

section \<open>The invariant\<close>

definition er_inv ::
  "(u8 \<times> MinMax \<times> MinMax) list \<Rightarrow> 'q cqueue \<Rightarrow> nat \<Rightarrow> task_libs \<Rightarrow> bool \<Rightarrow> sink_env \<Rightarrow> Manager \<Rightarrow>
     ('g, 'e, 'q) emulated_run \<Rightarrow> bool" where
  "er_inv fxs c bsize libs stop_returns env m s \<longleftrightarrow> wd_inv fxs (er_world s) \<and>
     pl_inv c bsize libs stop_returns env m (env_n_lines env) (er_pipeline s) \<and>
     (\<forall>(j, bs) \<in> set (pl_frames (er_pipeline s)). j < env_n_lines env) \<and>
     set (sy_received (pl_queue (er_pipeline s))) \<subseteq> take bsize ` snd ` set (w_sent (er_world s))"

lemma wd_step_sent: "wd_step z r w w' \<Longrightarrow> set (w_sent w) \<subseteq> set (w_sent w')"
proof (induction rule: wd_step.induct)
  case (wd_message k w e d)
  then show ?case
    by (cases "check_receive_msg_type z (take SMALL_READ_MSG_BUFFER_SIZE d)")
      (auto simp: listen_round_def Let_def do_if_acq_on_def do_if_acq_off_def reset_frame_counter_def)
next
  case (wd_send k w i now)
  then show ?case
    by (auto simp: send_round_def construct_binary_data_def request_frame_counter_def set_sender_def
        split_def Let_def split: sum.split)
qed (auto simp: set_sender_def)

lemma pl_step_frames:
  "pl_step c libs sr s t \<Longrightarrow> \<forall>(j, bs) \<in> set (pl_frames s). j < n \<Longrightarrow> length (pl_pending s) = n \<Longrightarrow>
     \<forall>(j, bs) \<in> set (pl_frames t). j < n"
  using pl_inv_frames [OF steps_one] by blast

lemma sy_received_receive [simp]: "sy_received (sy_receive c d q) = d # sy_received q"
  by (simp add: sy_receive_def split_def Let_def)

lemma er_inv_pipeline:
  assumes "cq_documented c" "0 < bsize" "zpp_documented (lib_zpp libs)" "er_inv fxs c bsize libs sr env m s"
    "pl_step c libs sr (er_pipeline s) p"
    "set (sy_received (pl_queue p)) \<subseteq> take bsize ` snd ` set (w_sent (er_world s))"
  shows "er_inv fxs c bsize libs sr env m (s\<lparr>er_pipeline := p\<rparr>)"
  using assms pl_inv_step [OF assms(1-3) refl _ assms(5)] pl_step_frames [OF assms(5), of "env_n_lines env"]
  by (simp add: er_inv_def pl_inv_def [of _ _ _ _ _ _ _ "er_pipeline s"] slots_inv_def)

lemma er_inv_step:
  assumes "cq_documented c" "zpp_documented (lib_zpp libs)" "rng_documented r" "0 < bsize"
    "er_inv fxs c bsize libs sr env m s" "er_step r c libs sr s t"
  shows "er_inv fxs c bsize libs sr env m t"
  using assms(6,5)
proof cases
  case (er_emulator w)
  have "wd_inv fxs w" using wd_inv_step [OF assms(2,3) _ er_emulator(2)] assms(5) by (simp add: er_inv_def)
  moreover have "take bsize ` snd ` set (w_sent (er_world s)) \<subseteq> take bsize ` snd ` set (w_sent w)"
    by (intro image_mono wd_step_sent [OF er_emulator(2)])
  ultimately show ?thesis using assms(5) unfolding er_inv_def er_emulator(1) by simp blast
next
  case (er_datagram j d)
  let ?p = "er_pipeline s"
  have n: "buffer_size (bq_config (sy_queue (pl_queue ?p))) = bsize"
    using assms(5) by (simp add: er_inv_def pl_inv_def sy_inv_def)
  have "pl_step c libs sr ?p (?p\<lparr>pl_queue := sy_receive c (take bsize d) (pl_queue ?p)\<rparr>)"
    using pl_step.pl_receive [of c libs sr ?p d] by (simp add: n)
  moreover have "take bsize d \<in> take bsize ` snd ` set (w_sent (er_world s))" using er_datagram(2) by force
  ultimately show ?thesis using er_inv_pipeline [OF assms(1,4,2,5)] assms(5) er_datagram
    by (simp add: er_receive_def Let_def n) (simp add: er_inv_def)
next
  case (er_control p)
  then show ?thesis using er_inv_pipeline [OF assms(1,4,2,5)] assms(5) by (simp add: er_inv_def)
qed

lemma er_inv_start:
  assumes "cq_documented c" "manager_ok env m"
  shows "er_inv (config_fixed wc) c (buffer_size cfg) libs sr env m (er_start gens wc c cfg m (env_n_lines env))"
proof -
  have "set (sy_received (pl_queue (pl_start c cfg m (env_n_lines env)))) = {}"
    "pl_frames (pl_start c cfg m (env_n_lines env)) = []"
    by (simp_all add: pl_start_def sy_start_def split_def Let_def)
  then show ?thesis using pl_inv_start [OF assms] wd_inv_launch [OF wd_inv_init]
    by (simp add: er_inv_def er_start_def world_start_def)
qed

interpretation er: invariant_system
  "\<lambda>s. s = er_start gens wc c cfg m (env_n_lines env)" "er_step r c libs stop_returns"
  "\<lambda>s. cq_documented c \<and> zpp_documented (lib_zpp libs) \<and> rng_documented r \<and> 0 < buffer_size cfg \<and> manager_ok env m \<longrightarrow>
     er_inv (config_fixed wc) c (buffer_size cfg) libs stop_returns env m s"
  for gens wc c cfg m env r libs stop_returns
  by unfold_locales (auto intro: er_inv_start er_inv_step)

section \<open>What a run records\<close>

text \<open>The structure \<open>s\<close> is one emulator \<open>j\<close> can draw, and it is the front of what the frame says. That
  it has been drawn for the datagram of this very frame is what \<open>w_drawn\<close> adds.\<close>

definition frame_records :: "world_config \<Rightarrow> nat \<Rightarrow> StructData \<Rightarrow> bytes \<Rightarrow> bool" where
  "frame_records wc j s bs \<longleftrightarrow> struct_in_range s \<and> fec_id (header s) = of_nat j \<and>
     in_min_max (cfg_n_hits (cfg_FECs wc ! j)) (length (hit_data s)) \<and>
     in_min_max (cfg_n_markers (cfg_FECs wc ! j)) (length (marker_data s)) \<and>
     header (frame_struct bs) = header s \<and>
     take (length (hit_data s)) (hit_data (frame_struct bs)) = hit_data s \<and>
     take (length (marker_data s)) (marker_data (frame_struct bs)) = marker_data s"

lemma emulator_frame_records:
  assumes "emulators_fit bsize wc" "j < length (cfg_FECs wc)" "frame_of_struct (config_fixed wc ! j) s d"
  shows "22 \<le> length (take bsize d) \<and> frame_records wc j s (take bsize d)"
proof -
  let ?f = "cfg_FECs wc ! j"
  have fx: "config_fixed wc ! j = (of_nat j, cfg_n_hits ?f, cfg_n_markers ?f)"
    using assms(2) by (simp add: config_fixed_def nth_enumerate_eq)
  have fit: "min_max_ok (cfg_n_hits ?f)" "min_max_ok (cfg_n_markers ?f)"
    "0 < mm_min (cfg_n_hits ?f) + mm_min (cfg_n_markers ?f)"
    "16 + 6 * (mm_max (cfg_n_hits ?f) + mm_max (cfg_n_markers ?f)) \<le> bsize"
    using assms(1,2) by (auto simp: emulators_fit_def)
  have s: "struct_in_range s" "take (length (frame_bytes s)) d = frame_bytes s"
    "fec_id (header s) = of_nat j" "in_min_max (cfg_n_hits ?f) (length (hit_data s))"
    "in_min_max (cfg_n_markers ?f) (length (marker_data s))"
    using assms(3) fit(1,2) by (auto simp: frame_of_struct_def fx)
  have b: "length (frame_bytes s) \<le> bsize" "22 \<le> length (frame_bytes s)"
    using s(4,5) fit(3,4) by (auto simp: in_min_max_def)
  have t: "take (length (frame_bytes s)) (take bsize d) = frame_bytes s"
    using b(1) s(2) by (simp add: min_absorb1)
  then have "length (frame_bytes s) \<le> length (take bsize d)"
    by (metis length_take min.cobounded1 min.commute)
  then have l: "22 \<le> length (take bsize d)" using b(2) by linarith
  then have "frame_struct (take bsize d) = struct_of (take bsize d)" by (simp add: frame_struct_def del: length_take)
  then show ?thesis using l s struct_of_prefix [OF s(1) t] by (auto simp: frame_records_def)
qed

lemma frame_origin:
  assumes "er_inv fxs c bsize libs sr env m t" "(k, bs) \<in> set (pl_frames (er_pipeline t))"
  shows "(sr \<and> bs = []) \<or> (\<exists>j d. (j, d) \<in> set (w_sent (er_world t)) \<and> bs = take bsize d)"
proof -
  let ?p = "er_pipeline t" and ?q = "pl_queue (er_pipeline t)"
  have inv: "pl_inv c bsize libs sr env m (env_n_lines env) ?p"
    and sub: "set (sy_received ?q) \<subseteq> take bsize ` snd ` set (w_sent (er_world t))"
    using assms(1) by (simp_all add: er_inv_def)
  have eq: "mset (map snd (pl_frames ?p)) + all_of pending_of (pl_pending ?p) =
      mset (sy_delivered ?q) + all_of (marker_of sr) (sy_lines ?q)"
    using inv by (simp add: pl_inv_def)
  have "bs \<in># mset (map snd (pl_frames ?p))" using assms(2) by force
  then have "bs \<in># mset (sy_delivered ?q) + all_of (marker_of sr) (sy_lines ?q)"
    by (metis eq union_iff)
  then consider "bs \<in> set (sy_delivered ?q)" | "bs \<in># all_of (marker_of sr) (sy_lines ?q)" by auto
  then show ?thesis
  proof cases
    case 1
    have "mset (sy_received ?q) = mset (sy_dropped ?q) + mset (sy_delivered ?q) +
        image_mset lb_view (data_buffers (cq_contents c (valid_buffer_queue (sy_queue ?q))))"
      using inv by (simp add: pl_inv_def sy_inv_def)
    with 1 have "bs \<in># mset (sy_received ?q)" by simp
    then show ?thesis using sub by force
  next
    case 2
    then show ?thesis by (auto simp: all_of_def marker_of_def split: if_splits)
  qed
qed

text \<open>Where a frame comes from: a datagram of an emulator, the structure drawn for that datagram, and
  how the frame is read.\<close>

definition frame_drawn :: "task_libs \<Rightarrow> nat \<Rightarrow> world_config \<Rightarrow> ('g, 'e) World \<Rightarrow> bytes \<Rightarrow> bool" where
  "frame_drawn libs bsize wc w bs \<longleftrightarrow> (\<exists>j d s. j < length (cfg_FECs wc) \<and>
     ((j, d), (j, s)) \<in> set (zip (w_sent w) (w_drawn w)) \<and> bs = take bsize d \<and> frame_records wc j s bs \<and>
     (\<forall>sd line. line < sd_n_lines sd \<longrightarrow> fst (deser_run (lib_zpp libs) sd bs line) = Inr (frame_struct bs)))"

lemma frame_recorded:
  assumes "er_inv (config_fixed wc) c bsize libs sr env m t" "zpp_documented (lib_zpp libs)" "emulators_fit bsize wc"
    "bs \<in> set (frames_of k (pl_frames (er_pipeline t)))"
  shows "(sr \<and> bs = []) \<or> frame_drawn libs bsize wc (er_world t) bs"
proof -
  have "(k, bs) \<in> set (pl_frames (er_pipeline t))" using assms(4) by (auto simp: frames_of_def)
  from frame_origin [OF assms(1) this] show ?thesis
  proof (elim disjE exE conjE)
    fix j d assume jd: "(j, d) \<in> set (w_sent (er_world t))" and bs: "bs = take bsize d"
    have "wd_inv (config_fixed wc) (er_world t)" using assms(1) by (simp add: er_inv_def)
    from wd_inv_sent [OF this jd] obtain s
      where s: "((j, d), (j, s)) \<in> set (zip (w_sent (er_world t)) (w_drawn (er_world t)))"
      "j < length (cfg_FECs wc)" "frame_of_struct (config_fixed wc ! j) s d"
      by (auto simp: config_fixed_def)
    note rec = emulator_frame_records [OF assms(3) s(2,3)]
    have "\<forall>sd line. line < sd_n_lines sd \<longrightarrow> fst (deser_run (lib_zpp libs) sd bs line) = Inr (frame_struct bs)"
      using rec assms(2) by (auto simp: bs deser_run_def deser_convert_eq sd_n_lines_def frame_struct_def)
    then show ?thesis using s(1,2) rec unfolding frame_drawn_def bs by blast
  qed simp
qed

section \<open>A concrete run\<close>

definition sample_run_bq_config :: bq_Config where
  "sample_run_bq_config = \<lparr>buffer_size = 64, reserve_size = 1, queue_capacity = 2\<rparr>"

definition sample_run_manager :: Manager where
  "sample_run_manager = snd (set_output_filenames sample_sink_env [''a.json''] mk_Manager)"

lemma sample_run_manager:
  "set_output_filenames sample_sink_env [''a.json''] mk_Manager = (Inr (), sample_run_manager)"
  "\<exists>c v. json_files sample_run_manager = [(''a.json'', c, v)]"
  by (simp_all add: sample_run_manager_def set_output_filename_def get_filetype_from_filename_def fs_extension_def
      fs_filename_def name_extension_def after_last_def add_json_file_def mk_Json_def mk_Manager_def
      sample_sink_env_def list_all_iff Let_def)

lemma first_packet_taken:
  assumes "length p \<le> 64" "p \<noteq> []"
  shows "\<exists>b q. bq_dequeue_wait cq_ref (sy_queue (sy_give cq_ref 0 (sy_receive cq_ref p
    (sy_start cq_ref sample_run_bq_config 1)))) = Some (b, q) \<and> lb_view b = p \<and> \<not> lb_is_empty b"
  using assms
  by (simp add: sy_give_def sy_receive_def sy_start_def mk_BufferQueue_def cq_ref_def sample_run_bq_config_def
      mk_LargeBuffer_def receive_into_def ds_response_handler_def read_data_once_def bq_enqueue_def lb_resize_def
      bq_dequeue_give_def bq_dequeue_wait_def numeral_2_eq_2 vec_resize_def Let_def split_def lb_view_def lb_is_empty_def)

lemma received_keeps:
  "sy_received (sy_give c k q) = sy_received q" "sy_received (sy_take k b bq q) = sy_received q"
  by (simp_all add: sy_give_def sy_take_def split_def Let_def)

lemma steps_emulators:
  "steps (wd_step (lib_zpp libs) r) w w' \<Longrightarrow>
     steps (er_step r c libs sr) \<lparr>er_world = w, er_pipeline = p\<rparr> \<lparr>er_world = w', er_pipeline = p\<rparr>"
proof (induction rule: steps.induct)
  case (steps_step s t u)
  have "er_step r c libs sr \<lparr>er_world = s, er_pipeline = p\<rparr> \<lparr>er_world = t, er_pipeline = p\<rparr>"
    using er_emulator [of libs r "\<lparr>er_world = s, er_pipeline = p\<rparr>" t c sr] steps_step.hyps(1) by simp
  then show ?case using steps_step.IH by (rule steps.steps_step)
qed (rule steps_refl)

lemma steps_first_take:
  assumes "(j, d) \<in> set (w_sent w)" "d \<noteq> []"
  shows "\<exists>p bs. steps (er_step r cq_ref libs sr)
      \<lparr>er_world = w, er_pipeline = pl_start cq_ref sample_run_bq_config m 1\<rparr> \<lparr>er_world = w, er_pipeline = p\<rparr> \<and>
     pl_pending p = [Some bs] \<and> pl_frames p = [] \<and>
     steps (pl_step cq_ref libs sr) (pl_start cq_ref sample_run_bq_config m 1) p"
proof -
  let ?step = "er_step r cq_ref libs sr" and ?d = "take 64 d"
  let ?p0 = "pl_start cq_ref sample_run_bq_config m 1"
  let ?p1 = "?p0\<lparr>pl_queue := sy_receive cq_ref ?d (pl_queue ?p0)\<rparr>"
  let ?p2 = "?p1\<lparr>pl_queue := sy_give cq_ref 0 (pl_queue ?p1)\<rparr>"
  let ?st = "\<lambda>x. \<lparr>er_world = w, er_pipeline = x\<rparr>"
  have p0: "pl_queue ?p0 = sy_start cq_ref sample_run_bq_config 1" "pl_pending ?p0 = [None]" "pl_frames ?p0 = []"
    by (simp_all add: pl_start_def split_def Let_def)
  note p0 = p0 p0 [unfolded One_nat_def]
  have lines: "length (sy_lines (sy_start cq_ref sample_run_bq_config 1)) = 1"
    "sy_lines (sy_start cq_ref sample_run_bq_config 1) \<noteq> []"
    "ln_state (sy_lines (sy_start cq_ref sample_run_bq_config 1) ! 0) = L_running"
    by (simp_all add: sy_start_def)
  obtain b q where b: "bq_dequeue_wait cq_ref (sy_queue (pl_queue ?p2)) = Some (b, q)" "\<not> lb_is_empty b"
    using first_packet_taken [of ?d] assms(2) by (auto simp: p0)
  let ?p3 = "pl_take sr 0 b q ?p2"
  have pl1: "pl_step cq_ref libs sr ?p0 ?p1"
    using pl_step.pl_receive [of cq_ref libs sr ?p0 d]
    by (simp add: p0) (simp add: sy_start_def mk_BufferQueue_def sample_run_bq_config_def)
  have pl2: "pl_step cq_ref libs sr ?p1 ?p2" by (rule pl_give) (use lines in \<open>simp_all add: p0\<close>)
  have "ln_state (sy_lines (pl_queue ?p2) ! 0) = L_waiting"
    using give_keeps(3) [of 0 "pl_queue ?p1" cq_ref 0] lines by (simp add: p0)
  then have pl3: "pl_step cq_ref libs sr ?p2 ?p3" by (intro pl_step.pl_take b) (simp_all add: p0)
  have "?step (?st ?p0) (?st ?p1)"
    using er_datagram [of j d "?st ?p0" r cq_ref libs sr] assms(1)
    by (simp add: er_receive_def p0) (simp add: sy_start_def mk_BufferQueue_def sample_run_bq_config_def)
  moreover have "?step (?st ?p1) (?st ?p2)"
    using pl2 er_control [of cq_ref libs sr "?st ?p1" ?p2 r] by (simp add: received_keeps)
  moreover have "?step (?st ?p2) (?st ?p3)"
    using pl3 er_control [of cq_ref libs sr "?st ?p2" ?p3 r] by (simp add: received_keeps pl_take_def)
  ultimately have "steps ?step (?st ?p0) (?st ?p3)" by (blast intro: steps_step steps_refl)
  moreover have "pl_pending ?p3 = [Some (lb_view b)]" "pl_frames ?p3 = []"
    using b by (simp_all add: pl_take_def p0)
  moreover have "steps (pl_step cq_ref libs sr) ?p0 ?p3"
    by (rule steps_step [of "pl_step cq_ref libs sr", OF pl1 steps_step [of "pl_step cq_ref libs sr", OF pl2
        steps_one [of "pl_step cq_ref libs sr", OF pl3]]])
  ultimately show ?thesis by blast
qed

lemma steps_first_frame:
  assumes "(j, d) \<in> set (w_sent w)" "d \<noteq> []" "zpp_documented (lib_zpp libs)" "manager_ok env m" "env_n_lines env = 1"
    and "\<And>x. lib_glz libs x \<noteq> None"
  shows "\<exists>s. steps (er_step r cq_ref libs sr) \<lparr>er_world = w, er_pipeline = pl_start cq_ref sample_run_bq_config m 1\<rparr> s \<and>
     map fst (pl_frames (er_pipeline s)) = [0]"
proof -
  obtain p bs where p: "steps (er_step r cq_ref libs sr)
      \<lparr>er_world = w, er_pipeline = pl_start cq_ref sample_run_bq_config m 1\<rparr> \<lparr>er_world = w, er_pipeline = p\<rparr>"
    "pl_pending p = [Some bs]" "pl_frames p = []"
    "steps (pl_step cq_ref libs sr) (pl_start cq_ref sample_run_bq_config m (env_n_lines env)) p"
    using steps_first_take [OF assms(1,2)] assms(5) by metis
  have "0 < buffer_size sample_run_bq_config" by (simp add: sample_run_bq_config_def)
  from flow_returns_iff [OF pl_inv_reached [OF cq_ref_documented assms(3) this assms(4) p(4)] assms(3) refl, of 0 bs]
  have "flow_returns libs 0 p" using p(2) assms(5,6) by (simp add: writable_def)
  then have "pl_step cq_ref libs sr p (pl_flow libs 0 p)" by (intro pl_step.pl_flow) (use p in simp_all)
  moreover have flow: "pl_queue (pl_flow libs 0 p) = pl_queue p" "map fst (pl_frames (pl_flow libs 0 p)) = [0]"
    using p(3) by (simp_all add: pl_flow_def split_def Let_def)
  ultimately have "er_step r cq_ref libs sr \<lparr>er_world = w, er_pipeline = p\<rparr> \<lparr>er_world = w, er_pipeline = pl_flow libs 0 p\<rparr>"
    using er_control [of cq_ref libs sr "\<lparr>er_world = w, er_pipeline = p\<rparr>" "pl_flow libs 0 p" r] by simp
  then have "steps (er_step r cq_ref libs sr) \<lparr>er_world = w, er_pipeline = p\<rparr> \<lparr>er_world = w, er_pipeline = pl_flow libs 0 p\<rparr>"
    by (rule steps_one)
  from steps_trans [OF p(1) this] flow(2) show ?thesis by (metis emulated_run.select_convs(2))
qed

lemma frame_bytes_not_Nil: "[] \<noteq> frame_bytes s"
  using length_frame_bytes [of s] by (metis add_eq_0_iff_both_eq_0 list.size(3) zero_neq_numeral)

lemma sample_world_sends:
  "\<exists>w d. steps (wd_step zpp_ref rng_ref) sample_world w \<and> (0, d) \<in> set (w_sent w) \<and> d \<noteq> []"
proof -
  let ?w = "set_sender 0 0 Sd_send (set_sender 0 0 Sd_check sample_world_on)"
  have inv: "wd_inv (config_fixed sample_world_config) sample_world"
    by (simp add: sample_world_def world_start_def wd_inv_launch wd_inv_init)
  have k: "0 < length (fec_servers ?w)" "em_ok (fec_servers ?w ! 0)"
  proof -
    have "wd_inv (config_fixed sample_world_config) sample_world_on" "length (fec_servers sample_world_on) = 1"
      using wd_inv_listen [OF inv] sample_world_server
      by (simp add: sample_world_on_def)
        (simp add: sample_world_on_def listen_round_on do_if_acq_on_def Let_def sample_world_server)
    then have "wd_inv (config_fixed sample_world_config) ?w" "length (fec_servers ?w) = 1"
      by (simp_all add: set_sender_def wd_inv_harmless)
    then show "0 < length (fec_servers ?w)" "em_ok (fec_servers ?w ! 0)" by (simp_all add: wd_inv_em_ok)
  qed
  obtain s d w' where "send_round zpp_ref rng_ref 7 0 0 ?w = w'" "w_sent w' = (0, d) # w_sent ?w"
    "frame_of_struct (em_fixed (fec_servers ?w ! 0)) s d"
    using send_round_ok [OF zpp_ref_documented rng_ref_documented k(2,1), where now = 7 and i = 0] by metis
  moreover from this(3) have "d \<noteq> []" using frame_bytes_not_Nil by (auto simp: frame_of_struct_def)
  ultimately show ?thesis using sample_world_on_steps by fastforce
qed

section \<open>Properties\<close>

text \<open>
  The two programs together, over a network that loses, reorders and repeats datagrams: for
  every interleaving, each frame a pipeline line has worked on is a datagram of some emulator,
  read without error into a structure that starts with the header, the hits and the markers of the
  structure drawn for this very datagram, within the ranges and numbers of the configuration (or, when the library's
  stop returns, the empty stop marker); and the JSON files of the line, once closed, are arrays of
  exactly the structures of its frames, in their order.\<close>

theorem emulated_run:
  assumes "cq_documented c" "zpp_documented (lib_zpp libs)" "rng_documented r" "0 < buffer_size cfg"
    "set_output_filenames env names mk_Manager = (Inr (), m)" "emulators_fit (buffer_size cfg) wc"
    "\<And>d. lib_glz libs d = Some (g d)" "k < env_n_lines env"
    "steps (er_step r c libs stop_returns) (er_start gens wc c cfg m (env_n_lines env)) t"
  shows "(\<forall>bs \<in> set (frames_of k (pl_frames (er_pipeline t))). (stop_returns \<and> bs = []) \<or>
      frame_drawn libs (buffer_size cfg) wc (er_world t) bs) \<and>
    (\<forall>(name, conv, v) \<in> set (json_files (pl_sinks (er_pipeline t))). js_close v ! k =
      ''[\<newline>'' @ join_items (map (\<lambda>bs. g (export_of (frame_struct bs)))
        (frames_of k (rev (pl_frames (er_pipeline t))))) @ '']\<newline>'')"
proof (intro conjI ballI)
  let ?b = "buffer_size cfg"
  have m: "manager_ok env m" "json_lines k [] m" by (rule fresh_manager [OF assms(5,8)])+
  have inv: "er_inv (config_fixed wc) c ?b libs stop_returns env m t"
    using er.inv_steps [OF assms(9)] er_inv_start [OF assms(1) m(1)] assms(1-4) m(1) by blast
  then show "(stop_returns \<and> bs = []) \<or> frame_drawn libs ?b wc (er_world t) bs"
    if "bs \<in> set (frames_of k (pl_frames (er_pipeline t)))" for bs
    using frame_recorded assms(2,6) that by blast
  fix f assume "f \<in> set (json_files (pl_sinks (er_pipeline t)))"
  moreover have "json_lines k ([] @ json_texts g k (rev (pl_frames (er_pipeline t)))) (pl_sinks (er_pipeline t))"
    using json_lines_fold [OF assms(7) m, of "rev (pl_frames (er_pipeline t))"] inv
    by (simp add: er_inv_def pl_inv_def sinks_inv_def)
  ultimately show "case f of (name, conv, v) \<Rightarrow> js_close v ! k =
      ''[\<newline>'' @ join_items (map (\<lambda>bs. g (export_of (frame_struct bs)))
        (frames_of k (rev (pl_frames (er_pipeline t))))) @ '']\<newline>''"
    using json_closed by (auto simp: json_lines_def json_texts_def)
qed

lemma emulated_run_witness:
  "\<exists>t. steps (er_step rng_ref cq_ref sample_libs False)
      (er_start (\<lambda>_. 0 :: nat) sample_world_config cq_ref sample_run_bq_config sample_run_manager 1 :: (nat, unit, _) emulated_run) t \<and>
    (\<exists>bs s. frames_of 0 (pl_frames (er_pipeline t)) = [bs] \<and> frame_records sample_world_config 0 s bs)"
proof -
  obtain w d where w: "steps (wd_step zpp_ref rng_ref) sample_world w" "(0, d) \<in> set (w_sent w)" "d \<noteq> []"
    using sample_world_sends by blast
  have libs: "lib_zpp sample_libs = zpp_ref" "\<And>x. lib_glz sample_libs x = Some []" "env_n_lines sample_sink_env = 1"
    by (simp_all add: sample_libs_def sample_sink_env_def)
  have m: "manager_ok sample_sink_env sample_run_manager"
    using fresh_manager(1) [OF sample_run_manager(1), of 0] by (simp add: libs(3))
  let ?s0 = "er_start (\<lambda>_. 0 :: nat) sample_world_config cq_ref sample_run_bq_config sample_run_manager
    (env_n_lines sample_sink_env) :: (nat, unit, _) emulated_run"
  obtain t where t: "steps (er_step rng_ref cq_ref sample_libs False) ?s0 t" "map fst (pl_frames (er_pipeline t)) = [0]"
  proof -
    let ?p0 = "pl_start cq_ref sample_run_bq_config sample_run_manager 1"
    have s0: "?s0 = \<lparr>er_world = sample_world, er_pipeline = ?p0\<rparr>"
      by (simp only: er_start_def libs sample_world_def)
    have "steps (er_step rng_ref cq_ref sample_libs False) ?s0 \<lparr>er_world = w, er_pipeline = ?p0\<rparr>"
      unfolding s0 by (rule steps_emulators) (simp only: libs w(1))
    note run = steps_trans [OF this]
    obtain t where "steps (er_step rng_ref cq_ref sample_libs False) \<lparr>er_world = w, er_pipeline = ?p0\<rparr> t"
      "map fst (pl_frames (er_pipeline t)) = [0]"
      using steps_first_frame [OF w(2,3) _ m libs(3), of sample_libs rng_ref False] libs(1,2) by auto
    then show thesis using that run by metis
  qed
  obtain bs where "pl_frames (er_pipeline t) = [(0, bs)]" using t(2) by auto
  then have bs: "frames_of 0 (pl_frames (er_pipeline t)) = [bs]" by (simp add: frames_of_def)
  have one_fec: "length (cfg_FECs sample_world_config) = 1" by (simp add: sample_world_config_def)
  have fit: "emulators_fit (buffer_size sample_run_bq_config) sample_world_config"
    by (simp add: emulators_fit_def sample_world_config_def sample_fec_config_def sample_run_bq_config_def min_max_ok_def)
  have "0 < buffer_size sample_run_bq_config" by (simp add: sample_run_bq_config_def)
  note run = emulated_run [OF cq_ref_documented _ rng_ref_documented this sample_run_manager(1) fit libs(2) _ t(1), of 0]
  have "frame_drawn sample_libs (buffer_size sample_run_bq_config) sample_world_config (er_world t) bs"
    using conjunct1 [OF run] by (simp only: bs libs zpp_ref_documented zero_less_one simp_thms list.set insert_iff)
  then have "\<exists>j < length (cfg_FECs sample_world_config). \<exists>s. frame_records sample_world_config j s bs"
    unfolding frame_drawn_def by blast
  then have "\<exists>s. frame_records sample_world_config 0 s bs" by (auto simp: one_fec less_Suc_eq)
  then show ?thesis using t(1) bs unfolding libs by blast
qed

end
