(* ===== verification/Parallel_Flows.thy ===== *)
theory Parallel_Flows
  imports Pipeline
begin

text \<open>
  The pipeline with the flows of its lines in parallel. \<^verbatim>\<open>Pipeline\<close> runs the flow of a line in
  one step; here every task of it is a step of its own, as the executor schedules them: tasks of
  different lines interleave, and tasks of one line run in any order that the precedence edges
  allow. A flow begins with no task done and ends when all of them are. A task that throws leaves
  its line in the middle of its flow for good, and the executor may from then on cancel tasks of
  the other lines. The theorems show that nothing depends on the order but the counter check
  that all lines share, and that the flow of a line gets to its end as long as no task throws.
\<close>

section \<open>The system\<close>

text \<open>\<open>pf_done\<close>: the tasks of the current flow of each line that have run. \<open>pf_served\<close>: the
  sink tasks that have run, newest first, with their line and frame. \<open>pf_failed\<close>: the lines a
  task of which has thrown.\<close>

record 'q parallel_flows =
  pf_base :: "'q pipeline"
  pf_done :: "task_node list list"
  pf_served :: "(nat \<times> sink_ref \<times> bytes) list"
  pf_failed :: "nat list"

text \<open>A task can run once in a flow, after the tasks with an edge to it.\<close>

definition task_ready :: "taskflow \<Rightarrow> task_node list \<Rightarrow> task_node \<Rightarrow> bool" where
  "task_ready tf done n \<longleftrightarrow> n \<notin> set done \<and>
     (\<forall>(prev, n') \<in> set (tf_edges tf). n' = n \<longrightarrow> prev \<in> source_of ` set done)"

definition flow_finished :: "taskflow \<Rightarrow> task_node list \<Rightarrow> bool" where
  "flow_finished tf done \<longleftrightarrow> fst ` set (tf_tasks tf) \<subseteq> set done"

text \<open>The body of a task: \<^verbatim>\<open>current_task.run_once(prev_converter, line_number)\<close>. What a task has
  done to its sink before it throws stays.\<close>

definition pf_task :: "task_libs \<Rightarrow> nat \<Rightarrow> task_node \<times> task_source \<Rightarrow> 'q parallel_flows \<Rightarrow> 'q parallel_flows" where
  "pf_task libs k task s =
     (let b = pf_base s; (exn, td, m) = run_node libs k task (pl_diagram b, pl_sinks b)
      in s\<lparr>pf_base := b\<lparr>pl_diagram := td, pl_sinks := m\<rparr>,
           pf_done := (pf_done s)[k := fst task # pf_done s ! k],
           pf_served := (case fst task of
               N_sink sink \<Rightarrow> (k, sink, td_raw_data (pl_diagram b) ! k) # pf_served s
             | _ \<Rightarrow> pf_served s),
           pf_failed := (if exn = None then pf_failed s else k # pf_failed s)\<rparr>)"

text \<open>\<^verbatim>\<open>corun\<close> returns and the line is idle again. It does not on a line that has failed: there it
  throws, out of the body of the pipe. Once some task has thrown, what else the executor cancels
  is up to it, so \<^verbatim>\<open>corun\<close> of another line may return with tasks left out.\<close>

definition pf_end :: "nat \<Rightarrow> 'q parallel_flows \<Rightarrow> 'q parallel_flows" where
  "pf_end k s =
     (let b = pf_base s
      in s\<lparr>pf_base := b\<lparr>pl_pending := (pl_pending b)[k := None],
             pl_frames := (k, td_raw_data (pl_diagram b) ! k) # pl_frames b\<rparr>,
           pf_done := (pf_done s)[k := []]\<rparr>)"

inductive pf_step :: "'q cqueue \<Rightarrow> task_libs \<Rightarrow> bool \<Rightarrow> 'q parallel_flows \<Rightarrow> 'q parallel_flows \<Rightarrow> bool"
  for c libs stop_returns where
  pf_base: "pl_step c libs stop_returns (pf_base s) b \<Longrightarrow> pl_frames b = pl_frames (pf_base s) \<Longrightarrow>
    pf_step c libs stop_returns s (s\<lparr>pf_base := b\<rparr>)"
| pf_task: "k < length (pl_pending (pf_base s)) \<Longrightarrow> pl_pending (pf_base s) ! k \<noteq> None \<Longrightarrow>
    task \<in> set (tf_tasks (pl_flows (pf_base s) ! k)) \<Longrightarrow>
    task_ready (pl_flows (pf_base s) ! k) (pf_done s ! k) (fst task) \<Longrightarrow>
    pf_step c libs stop_returns s (pf_task libs k task s)"
| pf_end: "k < length (pl_pending (pf_base s)) \<Longrightarrow> pl_pending (pf_base s) ! k \<noteq> None \<Longrightarrow>
    flow_finished (pl_flows (pf_base s) ! k) (pf_done s ! k) \<or> pf_failed s \<noteq> [] \<Longrightarrow>
    k \<notin> set (pf_failed s) \<Longrightarrow> pf_step c libs stop_returns s (pf_end k s)"

definition pf_start :: "'q cqueue \<Rightarrow> bq_Config \<Rightarrow> Manager \<Rightarrow> nat \<Rightarrow> 'q parallel_flows" where
  "pf_start c cfg m n_lines =
     \<lparr>pf_base = pl_start c cfg m n_lines, pf_done = replicate n_lines [], pf_served = [], pf_failed = []\<rparr>"

section \<open>A task and the other lines\<close>

lemma deser_other_line:
  "k < sd_n_lines sd \<Longrightarrow> j \<noteq> k \<Longrightarrow> sd_output_data (snd (deser_run z sd bs k)) ! j = sd_output_data sd ! j"
  using deser.run_other [of k sd j z bs] by (simp add: sd_slot_def)

lemma converter_other_line:
  assumes "td_ok td" "k < td_n_lines td" "j \<noteq> k" "td_shows libs bs j d td" "\<forall>s. n \<noteq> N_sink s"
  shows "td_shows libs bs j d (fst (snd (run_node libs k (n, p) (td, m))))"
proof (cases n)
  case N_raw_delim
  then show ?thesis using assms(1-4)
    by (auto simp: delim.run_other td_ok_def td_shows_def view_struct_def view_proto_def unit_snd_def
        split: task_node.splits option.splits)
next
  case N_struct
  then show ?thesis using assms(1-4)
    by (auto simp: deser_other_line td_ok_def td_shows_def view_struct_def view_proto_def
        split: task_node.splits option.splits)
next
  case N_s2p
  then show ?thesis using assms(1-4)
    by (auto simp: s2p.run_other td_ok_def td_shows_def view_struct_def view_proto_def unit_snd_def
        split: task_node.splits option.splits)
next
  case N_proto
  then show ?thesis using assms(1-4)
    by (auto simp: proto_serializer.run_other td_ok_def td_shows_def view_struct_def view_proto_def unit_snd_def
        split: task_node.splits option.splits)
next
  case N_proto_delim
  then show ?thesis using assms(1-4)
    by (auto simp: proto_delim_serializer.run_other td_ok_def td_shows_def view_struct_def view_proto_def unit_snd_def
        split: task_node.splits option.splits)
qed (use assms(5) in blast)

section \<open>Tasks that can run see their input\<close>

definition flow_ok :: "Manager \<Rightarrow> taskflow \<Rightarrow> bool" where
  "flow_ok m tf \<longleftrightarrow> tf_tasks tf = flow_tasks m \<and>
     set (tf_edges tf) = {(p, n). (n, p) \<in> set (flow_tasks m) \<and> p \<noteq> Src_diagram}"

lemma task_ready_prev:
  assumes "flow_ok m tf" "(n, p) \<in> set (tf_tasks tf)" "task_ready tf done n" "p \<noteq> Src_diagram"
  shows "\<exists>d \<in> set done. source_of d = p"
proof -
  have "(p, n) \<in> set (tf_edges tf)" using assms by (simp add: flow_ok_def)
  then show ?thesis using assms(3) by (auto simp: task_ready_def)
qed

lemma source_of_inj:
  "source_of d = Src_raw_delim \<longleftrightarrow> d = N_raw_delim" "source_of d = Src_struct \<longleftrightarrow> d = N_struct"
  "source_of d = Src_s2p \<longleftrightarrow> d = N_s2p" "source_of d = Src_proto \<longleftrightarrow> d = N_proto"
  "source_of d = Src_proto_delim \<longleftrightarrow> d = N_proto_delim"
  by (cases d; simp)+

lemma ready_converter:
  assumes "flow_ok m tf" "(n, p) \<in> set (tf_tasks tf)" "task_ready tf done n" "\<forall>s. n \<noteq> N_sink s"
  shows "conv_edge_ok (set done) (n, p)"
proof -
  have "(n, p) \<in> set (conv_nodes m)" using assms(1,2,4) by (auto simp: flow_ok_def flow_tasks_def)
  then have "(n, p) \<in> {(N_raw_delim, Src_diagram), (N_struct, Src_diagram), (N_s2p, Src_struct),
      (N_proto, Src_s2p), (N_proto_delim, Src_s2p)}"
    unfolding conv_nodes_def set_filter by auto
  then show ?thesis using task_ready_prev [OF assms(1-3)]
    by (auto simp: conv_edge_ok_def source_of_inj)
qed

lemma ready_sink:
  assumes "manager_ok env m" "flow_ok m tf" "(N_sink r, p) \<in> set (tf_tasks tf)"
    and "task_ready tf done (N_sink r)" "\<forall>d \<in> set done. td_shows libs bs k d td" "td_raw_data td ! k = bs"
  shows "p = sink_source r \<and> r \<in> set (do_for_each_sink m) \<and> sink_views_ok libs bs k td r"
proof -
  have r: "p = sink_source r" "r \<in> set (do_for_each_sink m)"
    using assms(2,3) by (auto simp: flow_ok_def flow_tasks_def conv_nodes_no_sink)
  have "\<exists>d \<in> set done. source_of d = sink_source r" if "sink_source r \<noteq> Src_diagram"
    using task_ready_prev [OF assms(2-4)] that r by simp
  then have "sink_views_ok libs bs k td r"
    using manager_sink_ref_ok [OF assms(1) r(2)] assms(5,6)
    by (cases "sink_kind r")
      (force simp: sink_ref_ok_def sink_views_ok_def is_struct_type_def sink_source_def expected_bytes_def
        source_of_inj td_shows_views)+
  then show ?thesis using r by blast
qed

section \<open>The sinks, from the tasks that have run\<close>

definition serve_all :: "task_libs \<Rightarrow> (nat \<times> sink_ref \<times> bytes) list \<Rightarrow> Manager \<Rightarrow> Manager" where
  "serve_all libs served m = fold (\<lambda>(k, r, bs). serve libs bs k r) (rev served) m"

text \<open>What a sink has been run on, oldest first.\<close>

definition served_to :: "sink_ref \<Rightarrow> (nat \<times> sink_ref \<times> bytes) list \<Rightarrow> (nat \<times> bytes) list" where
  "served_to r served = map (\<lambda>(k, _, bs). (k, bs)) (filter (\<lambda>(_, r', _). r' = r) (rev served))"

definition update_kind ::
  "sink_kind \<Rightarrow> (DataConvertOptions \<Rightarrow> bytes \<Rightarrow> nat \<Rightarrow> 'v \<Rightarrow> 'v) \<Rightarrow> nat \<times> sink_ref \<times> bytes \<Rightarrow>
     (string \<times> DataConvertOptions \<times> 'v) list \<Rightarrow> (string \<times> DataConvertOptions \<times> 'v) list" where
  "update_kind K f e files = (case e of (k, r, bs) \<Rightarrow>
     if sink_kind r = K then update_sink (sink_name r) (f (sink_required r) bs k) files else files)"

lemma serve_kinds:
  "binary_files (serve libs bs k r m) =
     update_kind K_binary (\<lambda>c bs k v. unit_snd (bf_run v (expected_bytes libs c bs) k)) (k, r, bs) (binary_files m)"
  "udp_files (serve libs bs k r m) =
     update_kind K_udp (\<lambda>c bs k v. unit_snd (udp_run (lib_send libs) v (expected_bytes libs c bs) k)) (k, r, bs) (udp_files m)"
  "json_files (serve libs bs k r m) =
     update_kind K_json (\<lambda>_ bs k v. snd (js_run (lib_glz libs) v (frame_struct bs) k)) (k, r, bs) (json_files m)"
  "frame_count_checker (serve libs bs k r m) = (if sink_kind r = K_checker
     then map_option (\<lambda>c. snd (analyze_frame_counter (lib_zpp libs) c (expected_bytes libs (sink_required r) bs)))
       (frame_count_checker m) else frame_count_checker m)"
  "root_files (serve libs bs k r m) =
     update_kind K_root (\<lambda>_ bs k v. unit_snd (rf_run (lib_root libs) v (frame_struct bs) k)) (k, r, bs) (root_files m)"
  by (cases "sink_kind r"; simp add: serve_def serve_task_def run_sink_def update_kind_def is_struct_type_def)+

text \<open>The references in the ledger are sinks of the manager.\<close>

definition refs_ok :: "sink_kind \<Rightarrow> (string \<times> DataConvertOptions \<times> 'v) list \<Rightarrow> (nat \<times> sink_ref \<times> bytes) list \<Rightarrow> bool" where
  "refs_ok K files es \<longleftrightarrow> distinct (map fst files) \<and>
     (\<forall>(k, r, bs) \<in> set es. sink_kind r = K \<longrightarrow> (\<exists>v. (sink_name r, sink_required r, v) \<in> set files))"

lemma sink_ref_eq: "(r :: sink_ref) = \<lparr>sink_name = n, sink_kind = K, sink_required = c\<rparr> \<longleftrightarrow>
    sink_name r = n \<and> sink_kind r = K \<and> sink_required r = c"
  by (cases r) auto

lemma update_kind_map:
  assumes "refs_ok K files [(k, r, bs)]"
  shows "update_kind K f (k, r, bs) files =
    map (\<lambda>(n, c, v). (n, c, if r = \<lparr>sink_name = n, sink_kind = K, sink_required = c\<rparr> then f c bs k v else v)) files"
proof -
  have "sink_required r = c" if "(sink_name r, c, v) \<in> set files" "sink_kind r = K" for c v
    using assms that by (auto simp: refs_ok_def dest: eq_key_imp_eq_value)
  then show ?thesis by (auto simp: update_kind_def update_sink_def sink_ref_eq)
qed

lemma fold_update_kind:
  assumes "refs_ok K files es"
  shows "fold (update_kind K f) es files = map (\<lambda>(n, c, v). (n, c, fold (\<lambda>(k, bs). f c bs k)
    (served_to \<lparr>sink_name = n, sink_kind = K, sink_required = c\<rparr> (rev es)) v)) files"
  using assms
proof (induction es arbitrary: files)
  case Nil
  then show ?case by (simp add: served_to_def split_def)
next
  case (Cons e es)
  obtain k r bs where e: "e = (k, r, bs)" by (cases e)
  have up: "update_kind K f (k, r, bs) files =
      map (\<lambda>(n, c, v). (n, c, if r = \<lparr>sink_name = n, sink_kind = K, sink_required = c\<rparr> then f c bs k v else v)) files"
    using Cons.prems by (intro update_kind_map) (simp add: refs_ok_def e)
  have "refs_ok K (update_kind K f (k, r, bs) files) es"
    using Cons.prems unfolding up by (force simp: refs_ok_def e comp_def split_def)
  from Cons.IH [OF this] show ?case
    by (auto simp: e up served_to_def)
qed

section \<open>Lines of a task\<close>

text \<open>The frames of line \<open>k\<close> in a schedule; a slot depends on those of its line alone.\<close>

abbreviation on_line :: "nat \<Rightarrow> (nat \<times> 'a) list \<Rightarrow> (nat \<times> 'a) list" where
  "on_line k \<equiv> filter (\<lambda>e. fst e = k)"

context line_task
begin

lemma fold_on_line:
  assumes "\<forall>(k, x) \<in> set xs. k < n_lines s" "n_lines s = n_lines t" "slot s j = slot t j" "j < n_lines s"
  shows "slot (fold (\<lambda>(k, x) s. snd (run s (g x) k)) xs s) j =
    slot (fold (\<lambda>(k, x) s. snd (run s (g x) k)) (on_line j xs) t) j"
  using assms
proof (induction xs arbitrary: s t)
  case (Cons e xs)
  obtain k x where e: "e = (k, x)" by (cases e)
  have k: "k < n_lines s" using Cons.prems(1) by (simp add: e)
  show ?case
  proof (cases "k = j")
    case True
    then show ?thesis using Cons.prems k run_local [of j s t "g x"]
      by (simp add: e) (intro Cons.IH, auto simp: n_lines_run)
  next
    case False
    then show ?thesis using Cons.prems k
      by (simp add: e) (intro Cons.IH, auto simp: n_lines_run run_other)
  qed
qed simp

lemma fold_same_slot:
  assumes "on_line j xs = on_line j ys" "\<forall>(k, x) \<in> set xs. k < n_lines s" "\<forall>(k, x) \<in> set ys. k < n_lines s"
    and "j < n_lines s"
  shows "slot (fold (\<lambda>(k, x) s. snd (run s (g x) k)) xs s) j = slot (fold (\<lambda>(k, x) s. snd (run s (g x) k)) ys s) j"
  using fold_on_line [OF assms(2) refl refl assms(4), of g] fold_on_line [OF assms(3) refl refl assms(4), of g] assms(1)
  by simp

end

text \<open>What the sinks keep of a line: of a binary file its counter and its bytes, of a socket the
  size of the last message, of a JSON file its text and its buffers, of a ROOT file its tree, its
  branch buffer and the size of the last entry.\<close>

definition line_slots :: "nat \<Rightarrow> Manager \<Rightarrow>
    (string \<times> DataConvertOptions \<times> nat \<times> bytes) list \<times> (string \<times> DataConvertOptions \<times> nat \<times> endpoint) list \<times>
    (string \<times> DataConvertOptions \<times> bool \<times> nat \<times> string \<times> CompactExportData \<times> string) list \<times>
    (string \<times> DataConvertOptions \<times> TTree \<times> StructData \<times> u64) list" where
  "line_slots k m = (map (\<lambda>(n, c, v). (n, c, bf_slot v k)) (binary_files m),
     map (\<lambda>(n, c, v). (n, c, udp_output_data v ! k, udp_remote_endpoint v)) (udp_files m),
     map (\<lambda>(n, c, v). (n, c, js_slot v k)) (json_files m),
     map (\<lambda>(n, c, v). (n, c, rf_trees v ! k, rf_data_struct_buffers v ! k, rf_output_data v ! k)) (root_files m))"

lemma deliver_all_kinds:
  "binary_files (fold (\<lambda>(k, bs). deliver libs bs k) frames m) =
     map (\<lambda>(n, c, v). (n, c, fold (\<lambda>(k, bs) v. unit_snd (bf_run v (expected_bytes libs c bs) k)) frames v)) (binary_files m)"
  "udp_files (fold (\<lambda>(k, bs). deliver libs bs k) frames m) =
     map (\<lambda>(n, c, v). (n, c, fold (\<lambda>(k, bs) v. unit_snd (udp_run (lib_send libs) v (expected_bytes libs c bs) k)) frames v)) (udp_files m)"
  "json_files (fold (\<lambda>(k, bs). deliver libs bs k) frames m) =
     map (\<lambda>(n, c, v). (n, c, fold (\<lambda>(k, bs) v. snd (js_run (lib_glz libs) v (frame_struct bs) k)) frames v)) (json_files m)"
  "root_files (fold (\<lambda>(k, bs). deliver libs bs k) frames m) =
     map (\<lambda>(n, c, v). (n, c, fold (\<lambda>(k, bs) v. unit_snd (rf_run (lib_root libs) v (frame_struct bs) k)) frames v)) (root_files m)"
  by (induction frames arbitrary: m) (simp_all add: deliver_def split_def comp_def)

lemma fold_fold_kind:
  "\<forall>m e. sel (f e m) = g e (sel m) \<Longrightarrow> sel (fold f es m) = fold g es (sel m)"
  by (induction es arbitrary: m) auto

lemma serve_all_kinds:
  "binary_files (serve_all libs served m) = fold (update_kind K_binary
     (\<lambda>c bs k v. unit_snd (bf_run v (expected_bytes libs c bs) k))) (rev served) (binary_files m)"
  "udp_files (serve_all libs served m) = fold (update_kind K_udp
     (\<lambda>c bs k v. unit_snd (udp_run (lib_send libs) v (expected_bytes libs c bs) k))) (rev served) (udp_files m)"
  "json_files (serve_all libs served m) = fold (update_kind K_json
     (\<lambda>_ bs k v. snd (js_run (lib_glz libs) v (frame_struct bs) k))) (rev served) (json_files m)"
  "root_files (serve_all libs served m) = fold (update_kind K_root
     (\<lambda>_ bs k v. unit_snd (rf_run (lib_root libs) v (frame_struct bs) k))) (rev served) (root_files m)"
  unfolding serve_all_def by (rule fold_fold_kind; simp add: serve_kinds split_def)+

definition ledger_ok :: "Manager \<Rightarrow> nat \<Rightarrow> (nat \<times> sink_ref \<times> bytes) list \<Rightarrow> bool" where
  "ledger_ok m n served \<longleftrightarrow> (\<forall>(k, r, bs) \<in> set served. k < n \<and> r \<in> set (do_for_each_sink m))"

lemma ledger_refs_ok:
  assumes "manager_ok env m" "ledger_ok m n served"
  shows "refs_ok K_binary (binary_files m) served" "refs_ok K_udp (udp_files m) served" "refs_ok K_json (json_files m) served"
    "refs_ok K_root (root_files m) served"
proof -
  have "distinct (map fst (binary_files m))" "distinct (map fst (udp_files m))" "distinct (map fst (json_files m))"
    "distinct (map fst (root_files m))"
    using assms(1) by (auto simp: manager_ok_def intro: distinct_sink_names)
  then show "refs_ok K_binary (binary_files m) served" "refs_ok K_udp (udp_files m) served" "refs_ok K_json (json_files m) served"
    "refs_ok K_root (root_files m) served"
    using assms(2) by (fastforce simp: refs_ok_def ledger_ok_def do_for_each_sink_def split: if_splits)+
qed

lemma ledger_lines: "ledger_ok m n served \<Longrightarrow> (k, bs) \<in> set (served_to r served) \<Longrightarrow> k < n"
  by (auto simp: ledger_ok_def served_to_def)

lemma serve_all_slots:
  assumes "manager_ok env m" "ledger_ok m (env_n_lines env) served" "\<forall>(k, bs) \<in> set frames. k < env_n_lines env"
    and k: "k < env_n_lines env"
    and same: "\<And>r. r \<in> set (do_for_each_sink m) \<Longrightarrow> on_line k (served_to r served) = on_line k frames"
  shows "line_slots k (serve_all libs served m) = line_slots k (fold (\<lambda>(k, bs). deliver libs bs k) frames m)"
proof -
  note refs = ledger_refs_ok [OF assms(1), of "env_n_lines env" "rev served"]
  have rev: "ledger_ok m (env_n_lines env) (rev served)" using assms(2) by (simp add: ledger_ok_def)
  have lines: "\<forall>(k, bs) \<in> set (served_to r served). k < env_n_lines env" for r
    using ledger_lines [OF assms(2)] by blast
  have b: "bf_slot (fold (\<lambda>(k, bs) v. unit_snd (bf_run v (expected_bytes libs c bs) k))
      (served_to \<lparr>sink_name = n, sink_kind = K_binary, sink_required = c\<rparr> served) v) k =
    bf_slot (fold (\<lambda>(k, bs) v. unit_snd (bf_run v (expected_bytes libs c bs) k)) frames v) k"
    if "(n, c, v) \<in> set (binary_files m)" for n c v
  proof -
    have "bf_n_lines v = env_n_lines env" using assms(1) that by (auto simp: manager_ok_def sink_map_ok_def)
    moreover have "\<lparr>sink_name = n, sink_kind = K_binary, sink_required = c\<rparr> \<in> set (do_for_each_sink m)"
      using that by (force simp: do_for_each_sink_def)
    ultimately show ?thesis using same lines assms(3) k unfolding unit_snd_def
      by (intro binary_file.fold_same_slot) auto
  qed
  have u: "(udp_output_data u1 ! k, udp_remote_endpoint u1) = (udp_output_data u2 ! k, udp_remote_endpoint u2)"
    if "(n, c, v) \<in> set (udp_files m)"
      "u1 = fold (\<lambda>(k, bs) v. unit_snd (udp_run (lib_send libs) v (expected_bytes libs c bs) k))
        (served_to \<lparr>sink_name = n, sink_kind = K_udp, sink_required = c\<rparr> served) v"
      "u2 = fold (\<lambda>(k, bs) v. unit_snd (udp_run (lib_send libs) v (expected_bytes libs c bs) k)) frames v" for n c v u1 u2
  proof -
    have "length (udp_output_data v) = env_n_lines env" using assms(1) that(1) by (auto simp: manager_ok_def sink_map_ok_def)
    moreover have "\<lparr>sink_name = n, sink_kind = K_udp, sink_required = c\<rparr> \<in> set (do_for_each_sink m)"
      using that(1) by (force simp: do_for_each_sink_def)
    ultimately show ?thesis using same lines assms(3) k unfolding that(2,3) unit_snd_def
      by (intro udp.fold_same_slot) auto
  qed
  have j: "js_slot (fold (\<lambda>(k, bs) v. snd (js_run (lib_glz libs) v (frame_struct bs) k))
      (served_to \<lparr>sink_name = n, sink_kind = K_json, sink_required = c\<rparr> served) v) k =
    js_slot (fold (\<lambda>(k, bs) v. snd (js_run (lib_glz libs) v (frame_struct bs) k)) frames v) k"
    if "(n, c, v) \<in> set (json_files m)" for n c v
  proof -
    have "js_n_lines v = env_n_lines env" using assms(1) that by (auto simp: manager_ok_def sink_map_ok_def)
    moreover have "\<lparr>sink_name = n, sink_kind = K_json, sink_required = c\<rparr> \<in> set (do_for_each_sink m)"
      using that by (force simp: do_for_each_sink_def)
    ultimately show ?thesis using same lines assms(3) k by (intro json.fold_same_slot) auto
  qed
  have t: "(rf_trees v1 ! k, rf_data_struct_buffers v1 ! k, rf_output_data v1 ! k) =
      (rf_trees v2 ! k, rf_data_struct_buffers v2 ! k, rf_output_data v2 ! k)"
    if "(n, c, v) \<in> set (root_files m)"
      "v1 = fold (\<lambda>(k, bs) v. unit_snd (rf_run (lib_root libs) v (frame_struct bs) k))
        (served_to \<lparr>sink_name = n, sink_kind = K_root, sink_required = c\<rparr> served) v"
      "v2 = fold (\<lambda>(k, bs) v. unit_snd (rf_run (lib_root libs) v (frame_struct bs) k)) frames v" for n c v v1 v2
  proof -
    have "rf_n_lines v = env_n_lines env" using assms(1) that(1) by (auto simp: manager_ok_def sink_map_ok_def)
    moreover have "\<lparr>sink_name = n, sink_kind = K_root, sink_required = c\<rparr> \<in> set (do_for_each_sink m)"
      using that(1) by (force simp: do_for_each_sink_def)
    ultimately show ?thesis using same lines assms(3) k unfolding that(2,3) unit_snd_def
      by (intro root_file.fold_same_slot) auto
  qed
  have "map (\<lambda>(n, c, v). (n, c, bf_slot v k)) (binary_files (serve_all libs served m)) =
      map (\<lambda>(n, c, v). (n, c, bf_slot v k)) (binary_files (fold (\<lambda>(k, bs). deliver libs bs k) frames m))"
    unfolding serve_all_kinds deliver_all_kinds fold_update_kind [OF refs(1) [OF rev]] map_map rev_rev_ident
    by (rule map_cong [OF refl]) (clarsimp simp: b)
  moreover have "map (\<lambda>(n, c, v). (n, c, udp_output_data v ! k, udp_remote_endpoint v)) (udp_files (serve_all libs served m)) =
      map (\<lambda>(n, c, v). (n, c, udp_output_data v ! k, udp_remote_endpoint v)) (udp_files (fold (\<lambda>(k, bs). deliver libs bs k) frames m))"
    unfolding serve_all_kinds deliver_all_kinds fold_update_kind [OF refs(2) [OF rev]] map_map rev_rev_ident
    by (rule map_cong [OF refl]) (clarsimp, use u in blast)
  moreover have "map (\<lambda>(n, c, v). (n, c, js_slot v k)) (json_files (serve_all libs served m)) =
      map (\<lambda>(n, c, v). (n, c, js_slot v k)) (json_files (fold (\<lambda>(k, bs). deliver libs bs k) frames m))"
    unfolding serve_all_kinds deliver_all_kinds fold_update_kind [OF refs(3) [OF rev]] map_map rev_rev_ident
    by (rule map_cong [OF refl]) (clarsimp simp: j)
  moreover have "map (\<lambda>(n, c, v). (n, c, rf_trees v ! k, rf_data_struct_buffers v ! k, rf_output_data v ! k))
      (root_files (serve_all libs served m)) =
    map (\<lambda>(n, c, v). (n, c, rf_trees v ! k, rf_data_struct_buffers v ! k, rf_output_data v ! k))
      (root_files (fold (\<lambda>(k, bs). deliver libs bs k) frames m))"
    unfolding serve_all_kinds deliver_all_kinds fold_update_kind [OF refs(4) [OF rev]] map_map rev_rev_ident
    by (rule map_cong [OF refl]) (clarsimp, use t in blast)
  ultimately show ?thesis unfolding line_slots_def by (simp only:)
qed

section \<open>The invariant\<close>

text \<open>The pipeline whose flows have run in one step each: the sinks of the frames delivered.\<close>

definition coarse :: "task_libs \<Rightarrow> Manager \<Rightarrow> 'q pipeline \<Rightarrow> 'q pipeline" where
  "coarse libs m b = b\<lparr>pl_sinks := fold (\<lambda>(k, bs). deliver libs bs k) (rev (pl_frames b)) m\<rparr>"

definition line_inv :: "task_libs \<Rightarrow> Manager \<Rightarrow> 'q parallel_flows \<Rightarrow> nat \<Rightarrow> bool" where
  "line_inv libs m s k \<longleftrightarrow>
     (pl_pending (pf_base s) ! k = None \<longrightarrow> pf_done s ! k = []) \<and>
     (\<forall>bs. pl_pending (pf_base s) ! k = Some bs \<longrightarrow>
        (\<forall>d \<in> set (pf_done s ! k). td_shows libs bs k d (pl_diagram (pf_base s)))) \<and>
     (\<forall>r \<in> set (do_for_each_sink m). on_line k (served_to r (pf_served s)) =
        on_line k (rev (pl_frames (pf_base s))) @
        (if N_sink r \<in> set (pf_done s ! k) then [(k, td_raw_data (pl_diagram (pf_base s)) ! k)] else []))"

definition pf_inv :: "'q cqueue \<Rightarrow> nat \<Rightarrow> task_libs \<Rightarrow> bool \<Rightarrow> sink_env \<Rightarrow> Manager \<Rightarrow> nat \<Rightarrow> 'q parallel_flows \<Rightarrow> bool" where
  "pf_inv c bsize libs stop_returns env m n s \<longleftrightarrow>
     pl_inv c bsize libs stop_returns env m n (coarse libs m (pf_base s)) \<and>
     pl_sinks (pf_base s) = serve_all libs (pf_served s) m \<and> ledger_ok m n (pf_served s) \<and>
     (\<forall>tf \<in> set (pl_flows (pf_base s)). flow_ok m tf) \<and> (\<forall>(k, bs) \<in> set (pl_frames (pf_base s)). k < n) \<and>
     length (pf_done s) = n \<and> (\<forall>k < n. line_inv libs m s k)"

lemma pl_inv_diagram:
  assumes "pl_inv c bsize libs sr env m n s" "td_ready m td" "td_n_lines td = td_n_lines (pl_diagram s)"
    "td_raw_data td = td_raw_data (pl_diagram s)"
  shows "pl_inv c bsize libs sr env m n (s\<lparr>pl_diagram := td\<rparr>)"
  using assms by (simp add: pl_inv_def diagram_inv_def td_ready_def)

lemma coarse_simps [simp]:
  "pl_queue (coarse libs m b) = pl_queue b" "pl_diagram (coarse libs m b) = pl_diagram b"
  "pl_flows (coarse libs m b) = pl_flows b" "pl_pending (coarse libs m b) = pl_pending b"
  "pl_frames (coarse libs m b) = pl_frames b"
  by (simp_all add: coarse_def)

lemma coarse_updates:
  "coarse libs m (b\<lparr>pl_queue := q\<rparr>) = (coarse libs m b)\<lparr>pl_queue := q\<rparr>"
  "coarse libs m (pl_take sr k x q' b) = pl_take sr k x q' (coarse libs m b)"
  "coarse libs m (b\<lparr>pl_diagram := td\<rparr>) = (coarse libs m b)\<lparr>pl_diagram := td\<rparr>"
  "coarse libs m (b\<lparr>pl_diagram := td, pl_sinks := sinks\<rparr>) = (coarse libs m b)\<lparr>pl_diagram := td\<rparr>"
  by (simp_all add: coarse_def pl_take_def)

lemma coarse_step:
  assumes "pl_step c libs sr b b'" "pl_frames b' = pl_frames b"
  shows "pl_step c libs sr (coarse libs m b) (coarse libs m b')"
  using assms
proof cases
  case (pl_receive datagram)
  then show ?thesis using pl_step.pl_receive [of c libs sr "coarse libs m b" datagram] by (simp add: coarse_updates)
next
  case (pl_give k)
  then show ?thesis using pl_step.pl_give [of k "coarse libs m b" c libs sr] by (simp add: coarse_updates)
next
  case (pl_take k x q)
  then show ?thesis using pl_step.pl_take [of k "coarse libs m b" c x q libs sr]
    by (simp add: coarse_updates)
next
  case (pl_flow k)
  then show ?thesis using assms(2) by (simp add: pl_flow_def split_def Let_def)
next
  case pl_stop
  then show ?thesis using pl_step.pl_stop [of c libs sr "coarse libs m b"] by (simp add: coarse_updates)
qed

lemma pf_inv_facts:
  assumes "pf_inv c bsize libs sr env m n s" "k < n"
  shows "td_ok (pl_diagram (pf_base s))" "td_ready m (pl_diagram (pf_base s))" "td_n_lines (pl_diagram (pf_base s)) = n"
    "pl_pending (pf_base s) ! k = Some bs \<Longrightarrow> td_raw_data (pl_diagram (pf_base s)) ! k = bs"
    "flow_ok m (pl_flows (pf_base s) ! k)" "length (pl_pending (pf_base s)) = n" "length (td_raw_data (pl_diagram (pf_base s))) = n"
    "ln_state (sy_lines (pl_queue (pf_base s)) ! k) = L_waiting \<Longrightarrow> pl_pending (pf_base s) ! k = None"
  using assms by (auto simp: pf_inv_def pl_inv_def diagram_inv_def slots_inv_def td_ready_def td_ok_def)

lemma td_shows_raw: "td_shows libs bs k d (td\<lparr>td_raw_data := x\<rparr>) = td_shows libs bs k d td"
  by (cases d) (simp_all add: td_shows_def view_struct_def view_proto_def)

lemma pf_inv_base:
  assumes inv: "pf_inv c bsize libs sr env m n s" and "cq_documented c" "0 < bsize" "zpp_documented (lib_zpp libs)"
    "env_n_lines env = n" and step: "pl_step c libs sr (pf_base s) b" "pl_frames b = pl_frames (pf_base s)"
  shows "pf_inv c bsize libs sr env m n (s\<lparr>pf_base := b\<rparr>)"
proof -
  have coarse: "pl_inv c bsize libs sr env m n (coarse libs m b)"
    using pl_inv_step [OF assms(2-5) _ coarse_step [OF step]] inv by (simp add: pf_inv_def)
  have same: "pl_sinks b = pl_sinks (pf_base s) \<and> pl_flows b = pl_flows (pf_base s) \<and>
      (\<forall>k < n. line_inv libs m (s\<lparr>pf_base := b\<rparr>) k)"
    using step(1)
  proof cases
    case (pl_take j x q)
    have j: "j < n" using pl_take inv by (simp add: pf_inv_def pl_inv_def slots_inv_def)
    then have none: "pl_pending (pf_base s) ! j = None" using pf_inv_facts(8) [OF inv] pl_take(3) by blast
    have "line_inv libs m (s\<lparr>pf_base := b\<rparr>) k" if "k < n" for k
      using inv that none pf_inv_facts(6,7) [OF inv j] j
      by (cases "k = j") (auto simp: pl_take(1) pf_inv_def line_inv_def pl_take_def td_shows_raw)
    then show ?thesis by (simp add: pl_take(1) pl_take_def)
  next
    case (pl_flow k)
    then show ?thesis using step(2) by (simp add: pl_flow_def split_def Let_def)
  qed (use inv in \<open>simp_all add: pf_inv_def line_inv_def\<close>)
  show ?thesis using inv coarse same step(2) by (simp add: pf_inv_def)
qed

lemma pf_inv_start:
  assumes "cq_documented c" "manager_ok env m"
  shows "pf_inv c (buffer_size cfg) libs sr env m n (pf_start c cfg m n)"
proof -
  have flows: "\<forall>tf \<in> set (snd (construct_taskflow_lines m n td)). flow_ok m tf" for n td
  proof (induction n arbitrary: td)
    case (Suc n)
    have "flow_ok m (snd (construct_taskflow_line m td))"
      using construct_eq(2,3) [OF assms(2), of td] by (simp add: flow_ok_def)
    then show ?case using Suc.IH [of "fst (construct_taskflow_line m td)"] by (simp add: split_def Let_def)
  qed simp
  have b: "pl_frames (pl_start c cfg m n) = []" "pl_sinks (pl_start c cfg m n) = m"
    "pl_pending (pl_start c cfg m n) = replicate n None"
    "pl_flows (pl_start c cfg m n) = snd (construct_taskflow_lines m n (mk_TaskDiagram n))"
    by (simp_all add: pl_start_def split_def Let_def)
  have "coarse libs m (pl_start c cfg m n) = pl_start c cfg m n"
    by (simp add: coarse_def pl_start_def split_def Let_def)
  then show ?thesis using pl_inv_start [OF assms, of cfg libs sr n] flows
    by (simp add: pf_inv_def pf_start_def b line_inv_def serve_all_def ledger_ok_def served_to_def)
qed

section \<open>Tasks keep the invariant\<close>

lemma pf_inv_converter:
  assumes inv: "pf_inv c bsize libs sr env m n s" and libs: "zpp_documented (lib_zpp libs)" and k: "k < n"
    and pending: "pl_pending (pf_base s) ! k = Some bs"
    and task: "(x, p) \<in> set (tf_tasks (pl_flows (pf_base s) ! k))" "\<forall>r. x \<noteq> N_sink r"
    and ready: "task_ready (pl_flows (pf_base s) ! k) (pf_done s ! k) x"
  shows "pf_inv c bsize libs sr env m n (pf_task libs k (x, p) s) \<and> pf_failed (pf_task libs k (x, p) s) = pf_failed s"
proof -
  let ?b = "pf_base s" and ?td = "pl_diagram (pf_base s)"
  note facts = pf_inv_facts [OF inv k]
  have edge: "conv_edge_ok (set (pf_done s ! k)) (x, p)" by (rule ready_converter [OF facts(5) task(1) ready task(2)])
  have "(x, p) \<in> set (conv_nodes m)" using facts(5) task by (auto simp: flow_ok_def flow_tasks_def)
  then have has: "td_has ?td x" using facts(2) by (force simp: td_ready_def)
  have shows_done: "\<forall>d \<in> set (pf_done s ! k). td_shows libs bs k d ?td"
    using inv k pending by (simp add: pf_inv_def line_inv_def)
  obtain td' where td': "run_node libs k (x, p) (?td, pl_sinks ?b) = (None, td', pl_sinks ?b)" "td_ok td'"
    "td_n_lines td' = td_n_lines ?td" "td_raw_data td' = td_raw_data ?td" "\<forall>d. td_has ?td d \<longrightarrow> td_has td' d"
    "td_shows libs bs k x td'" "\<forall>d. d \<noteq> x \<longrightarrow> td_shows libs bs k d ?td \<longrightarrow> td_shows libs bs k d td'"
    using run_converter [OF libs facts(1) has _ facts(4) [OF pending] edge shows_done, of "pl_sinks ?b"] facts(3) k by auto
  have other: "td_shows libs bs' j d td'" if "j \<noteq> k" "td_shows libs bs' j d ?td" for j bs' d
    using converter_other_line [OF facts(1) _ that task(2), of p "pl_sinks ?b"] td'(1) facts(3) k by simp
  have run: "pf_task libs k (x, p) s = s\<lparr>pf_base := ?b\<lparr>pl_diagram := td'\<rparr>,
      pf_done := (pf_done s)[k := x # pf_done s ! k]\<rparr>"
    using task(2) td'(1) by (cases x) (simp_all add: pf_task_def Let_def del: run_node.simps)
  have "pl_inv c bsize libs sr env m n (coarse libs m ?b\<lparr>pl_diagram := td'\<rparr>)"
    using inv td'(2-5) facts(2) by (intro pl_inv_diagram) (auto simp: pf_inv_def td_ready_def)
  moreover have "line_inv libs m (pf_task libs k (x, p) s) j" if "j < n" for j
  proof (cases "j = k")
    case True
    have "line_inv libs m s k" using inv k by (simp add: pf_inv_def)
    then show ?thesis using True inv k pending td'(4,6,7) task(2)
      by (auto simp: run line_inv_def pf_inv_def)
  next
    case False
    have "line_inv libs m s j" using inv that by (simp add: pf_inv_def)
    then show ?thesis using False td'(4) other [OF False] by (auto simp: run line_inv_def)
  qed
  ultimately show ?thesis using inv by (simp add: pf_inv_def run coarse_updates)
qed

lemma served_to_Cons:
  "served_to r ((k, r', bs) # served) = served_to r served @ (if r' = r then [(k, bs)] else [])"
  by (simp add: served_to_def)

lemma serve_all_Cons: "serve_all libs ((k, r, bs) # served) m = serve libs bs k r (serve_all libs served m)"
  by (simp add: serve_all_def)

text \<open>The JSON files stay fit to be written, whatever has been served.\<close>

lemma serve_all_json_ready:
  assumes "json_ready k m"
  shows "json_ready k (serve_all libs served m) \<and>
    fst ` set (json_files (serve_all libs served m)) = fst ` set (json_files m)"
proof (induction served)
  case (Cons e served)
  obtain j r bs where e: "e = (j, r, bs)" by (cases e)
  show ?case unfolding e serve_all_Cons serve_json_names
    using json_ready_serve [of k "serve_all libs served m" libs bs j r] Cons.IH by simp
qed (use assms in \<open>simp add: serve_all_def\<close>)

lemma pf_inv_sink:
  assumes inv: "pf_inv c bsize libs sr env m n s" and m: "manager_ok env m" and n: "env_n_lines env = n" and k: "k < n"
    and pending: "pl_pending (pf_base s) ! k = Some bs"
    and task: "(N_sink r, p) \<in> set (tf_tasks (pl_flows (pf_base s) ! k))"
    and ready: "task_ready (pl_flows (pf_base s) ! k) (pf_done s ! k) (N_sink r)"
  shows "pf_inv c bsize libs sr env m n (pf_task libs k (N_sink r, p) s) \<and>
    pf_failed (pf_task libs k (N_sink r, p) s) =
      (if sink_kind r = K_json \<and> \<not> writable libs bs then k # pf_failed s else pf_failed s)"
proof -
  let ?b = "pf_base s" and ?td = "pl_diagram (pf_base s)"
  note facts = pf_inv_facts [OF inv k]
  have shows_done: "\<forall>d \<in> set (pf_done s ! k). td_shows libs bs k d ?td"
    using inv k pending by (simp add: pf_inv_def line_inv_def)
  have r: "p = sink_source r" "r \<in> set (do_for_each_sink m)" "sink_views_ok libs bs k ?td r"
    using ready_sink [OF m facts(5) task ready shows_done facts(4) [OF pending]] by auto
  have "run_node libs k (N_sink r, p) (?td, pl_sinks ?b) =
      (fst (serve_task libs bs k r (pl_sinks ?b)), ?td, serve libs bs k r (pl_sinks ?b))"
    using run_sink_node [OF r(3)] r(1) by (simp del: run_node.simps)
  moreover have "fst (serve_task libs bs k r (pl_sinks ?b)) =
      (if sink_kind r = K_json \<and> \<not> writable libs bs then Some CannotInterpret else None)"
    using inv serve_all_json_ready [OF manager_json_ready [OF m], of k libs "pf_served s"] k n sink_json_name [OF r(2)]
    by (intro serve_throws) (auto simp: pf_inv_def)
  ultimately have run: "pf_task libs k (N_sink r, p) s =
      s\<lparr>pf_base := ?b\<lparr>pl_diagram := ?td, pl_sinks := serve libs bs k r (pl_sinks ?b)\<rparr>,
        pf_done := (pf_done s)[k := N_sink r # pf_done s ! k], pf_served := (k, r, bs) # pf_served s,
        pf_failed := (if sink_kind r = K_json \<and> \<not> writable libs bs then k # pf_failed s else pf_failed s)\<rparr>"
    by (simp add: pf_task_def Let_def facts(4) [OF pending] del: run_node.simps)
  have new: "N_sink r \<notin> set (pf_done s ! k)" using ready by (simp add: task_ready_def)
  have "line_inv libs m (pf_task libs k (N_sink r, p) s) j" if "j < n" for j
  proof -
    have "line_inv libs m s j" using inv that by (simp add: pf_inv_def)
    then show ?thesis using inv k pending new facts(4) [OF pending]
      by (cases "j = k") (auto simp: run line_inv_def pf_inv_def served_to_Cons td_shows_def)
  qed
  then show ?thesis using inv k r(2)
    by (simp add: pf_inv_def run coarse_updates serve_all_Cons) (simp add: ledger_ok_def coarse_def)
qed

lemma pf_inv_end:
  assumes inv: "pf_inv c bsize libs sr env m n s" and n: "env_n_lines env = n"
    and k: "k < n" and pending: "pl_pending (pf_base s) ! k = Some bs"
    and finished: "flow_finished (pl_flows (pf_base s) ! k) (pf_done s ! k)"
  shows "pf_inv c bsize libs sr env m n (pf_end k s)"
proof -
  let ?b = "pf_base s" and ?s = "coarse libs m (pf_base s)"
  note facts = pf_inv_facts [OF inv k]
  have co: "pl_inv c bsize libs sr env m n ?s" using inv by (simp add: pf_inv_def)
  have k': "k < length (pl_pending ?b)" using facts(6) k by simp
  have all: "N_sink r \<in> set (pf_done s ! k)" if "r \<in> set (do_for_each_sink m)" for r
    using finished that facts(5) by (force simp: flow_finished_def flow_ok_def flow_tasks_def)
  have "pl_inv c bsize libs sr env m n (?s\<lparr>pl_diagram := pl_diagram ?b, pl_sinks := deliver libs bs k (pl_sinks ?s),
      pl_pending := (pl_pending ?s)[k := None], pl_frames := (k, bs) # pl_frames ?s\<rparr>)"
    using pl_inv_facts(2) [OF co k] pending by (intro pl_inv_frame [OF co n k]) simp_all
  moreover have "?s\<lparr>pl_diagram := pl_diagram ?b, pl_sinks := deliver libs bs k (pl_sinks ?s),
      pl_pending := (pl_pending ?s)[k := None], pl_frames := (k, bs) # pl_frames ?s\<rparr> =
      coarse libs m (pf_base (pf_end k s))"
    using facts(4) [OF pending] by (simp add: pf_end_def coarse_def Let_def)
  ultimately have "pl_inv c bsize libs sr env m n (coarse libs m (pf_base (pf_end k s)))" by simp
  moreover have "line_inv libs m (pf_end k s) j" if "j < n" for j
  proof -
    have "line_inv libs m s j" using inv that by (simp add: pf_inv_def)
    then show ?thesis using inv k k' all
      by (cases "j = k") (auto simp: pf_end_def Let_def line_inv_def pf_inv_def)
  qed
  ultimately show ?thesis using inv k by (auto simp: pf_inv_def pf_end_def Let_def)
qed

text \<open>No step takes a failure back; without one the invariant is kept.\<close>

lemma pf_failed_step:
  assumes "pf_step c libs sr s t"
  shows "set (pf_failed s) \<subseteq> set (pf_failed t)"
  using assms by cases (auto simp: pf_task_def pf_end_def split_def Let_def)

lemma pf_inv_step:
  assumes "cq_documented c" "0 < bsize" "zpp_documented (lib_zpp libs)" "manager_ok env m" "env_n_lines env = n"
    and inv: "pf_inv c bsize libs sr env m n s" and step: "pf_step c libs sr s t" and failed: "pf_failed s = []"
  shows "pf_inv c bsize libs sr env m n t"
  using step
proof cases
  case (pf_base b)
  then show ?thesis using pf_inv_base [OF inv assms(1-3,5)] by blast
next
  case (pf_task k task)
  obtain x p where x: "task = (x, p)" by (cases task)
  have k: "k < n" using pf_task(2) inv by (simp add: pf_inv_def pl_inv_def slots_inv_def)
  obtain bs where "pl_pending (parallel_flows.pf_base s) ! k = Some bs" using pf_task(3) by blast
  then show ?thesis using pf_task(4,5) pf_inv_converter [OF inv assms(3) k] pf_inv_sink [OF inv assms(4,5) k]
    unfolding pf_task(1) x by (cases x) (metis fst_conv task_node.distinct)+
next
  case (pf_end k)
  have "k < n" using pf_end(2) inv by (simp add: pf_inv_def pl_inv_def slots_inv_def)
  then show ?thesis using pf_end pf_inv_end [OF inv assms(5)] failed by auto
qed

lemma pf_task_failed:
  assumes "zpp_documented (lib_zpp libs)" "manager_ok env m" "env_n_lines env = n"
    and "pf_inv c bsize libs sr env m n s" "k < n" "pl_pending (pf_base s) ! k = Some bs"
    and "task \<in> set (tf_tasks (pl_flows (pf_base s) ! k))" "task_ready (pl_flows (pf_base s) ! k) (pf_done s ! k) (fst task)"
  shows "pf_failed (pf_task libs k task s) =
    (if (\<exists>r. fst task = N_sink r \<and> sink_kind r = K_json) \<and> \<not> writable libs bs then k # pf_failed s else pf_failed s)"
proof (cases "\<exists>r. fst task = N_sink r")
  case True
  then obtain r p where r: "task = (N_sink r, p)" by (cases task) auto
  show ?thesis using pf_inv_sink [OF assms(4,2,3,5,6), of r p] assms(7,8) by (simp add: r)
next
  case False
  obtain x p where x: "task = (x, p)" by (cases task)
  show ?thesis using pf_inv_converter [OF assms(4,1,5,6), of x p] assms(7,8) False by (auto simp: x)
qed

interpretation parallel: invariant_system
  "\<lambda>s. s = pf_start c cfg m (env_n_lines env)" "pf_step c libs stop_returns"
  "\<lambda>s. cq_documented c \<and> zpp_documented (lib_zpp libs) \<and> 0 < buffer_size cfg \<and> manager_ok env m \<and> pf_failed s = [] \<longrightarrow>
     pf_inv c (buffer_size cfg) libs stop_returns env m (env_n_lines env) s" for c cfg m env libs stop_returns
proof (unfold_locales, goal_cases)
  case (1 s)
  then show ?case using pf_inv_start by blast
next
  case (2 s t)
  then have "pf_failed s = []" if "pf_failed t = []" using pf_failed_step [OF 2(2)] that by simp
  then show ?case using 2(1) pf_inv_step [OF _ _ _ _ refl _ 2(2)] by blast
qed

section \<open>The flow of a line ends\<close>

lemma flow_tasks_source:
  assumes "(x, p) \<in> set (flow_tasks m)" "(x, q) \<in> set (flow_tasks m)"
  shows "p = q"
proof (cases "\<exists>r. x = N_sink r")
  case True
  then show ?thesis using assms by (auto simp: flow_tasks_def conv_nodes_no_sink)
next
  case False
  then have "(x, p) \<in> set (conv_nodes m)" "(x, q) \<in> set (conv_nodes m)" using assms by (auto simp: flow_tasks_def)
  then show ?thesis unfolding conv_nodes_def set_filter by auto
qed

lemma some_task_ready:
  assumes "manager_ok env m" "flow_ok m tf" "\<not> flow_finished tf done"
  shows "\<exists>task \<in> set (tf_tasks tf). task_ready tf done (fst task)"
proof -
  have "\<exists>task \<in> set (tf_tasks tf). fst task \<notin> set done" using assms(3) by (auto simp: flow_finished_def)
  then obtain us task vs where split: "tf_tasks tf = us @ task # vs" "fst task \<notin> set done" "\<forall>t \<in> set us. fst t \<in> set done"
    using split_list_first_prop [of "tf_tasks tf" "\<lambda>t. fst t \<notin> set done"] by blast
  obtain x p where x: "task = (x, p)" by (cases task)
  have "prev \<in> source_of ` set done" if "(prev, x) \<in> set (tf_edges tf)" for prev
  proof -
    have e: "(x, prev) \<in> set (flow_tasks m)" "prev \<noteq> Src_diagram" using that assms(2) by (auto simp: flow_ok_def)
    moreover have flow: "flow_tasks m = us @ (x, p) # vs" using split(1) assms(2) x by (simp add: flow_ok_def)
    ultimately have "prev = p" by (intro flow_tasks_source [OF e(1)]) simp
    then show ?thesis using flow_order [OF assms(1) flow] e(2) split(3) by force
  qed
  then have "task_ready tf done (fst task)" using split(2) x by (auto simp: task_ready_def)
  then show ?thesis using split(1) by auto
qed

text \<open>What runs between the take of a packet on line \<open>k\<close> and the end of its flow.\<close>

definition in_flow :: "nat \<Rightarrow> bytes \<Rightarrow> 'q parallel_flows \<Rightarrow> 'q parallel_flows \<Rightarrow> bool" where
  "in_flow k bs s t \<longleftrightarrow> pl_queue (pf_base t) = pl_queue (pf_base s) \<and>
     (if pl_pending (pf_base t) ! k = None
      then pl_pending (pf_base t) = (pl_pending (pf_base s))[k := None] \<and>
        pl_frames (pf_base t) = (k, bs) # pl_frames (pf_base s)
      else pl_pending (pf_base t) = pl_pending (pf_base s) \<and> pl_frames (pf_base t) = pl_frames (pf_base s))"

definition undone :: "nat \<Rightarrow> 'q parallel_flows \<Rightarrow> nat" where
  "undone k s = (if pl_pending (pf_base s) ! k = None then 0
     else Suc (length (filter (\<lambda>task. fst task \<notin> set (pf_done s ! k)) (tf_tasks (pl_flows (pf_base s) ! k)))))"

lemma pf_task_base:
  "pl_queue (pf_base (pf_task libs k task s)) = pl_queue (pf_base s)"
  "pl_pending (pf_base (pf_task libs k task s)) = pl_pending (pf_base s)"
  "pl_frames (pf_base (pf_task libs k task s)) = pl_frames (pf_base s)"
  "pl_flows (pf_base (pf_task libs k task s)) = pl_flows (pf_base s)"
  "pf_done (pf_task libs k task s) = (pf_done s)[k := fst task # pf_done s ! k]"
  by (simp_all add: pf_task_def split_def Let_def)

lemma undone_task:
  assumes "pl_pending (pf_base s) ! k \<noteq> None" "task \<in> set (tf_tasks (pl_flows (pf_base s) ! k))"
    "fst task \<notin> set (pf_done s ! k)" "k < length (pf_done s)"
  shows "undone k (pf_task libs k task s) < undone k s"
proof -
  let ?ts = "tf_tasks (pl_flows (pf_base s) ! k)" and ?D = "set (pf_done s ! k)"
  have "filter (\<lambda>t. fst t \<notin> insert (fst task) ?D) ?ts = filter (\<lambda>t. fst t \<noteq> fst task) (filter (\<lambda>t. fst t \<notin> ?D) ?ts)"
    by (simp add: conj_commute)
  moreover have "length (filter (\<lambda>t. fst t \<noteq> fst task) (filter (\<lambda>t. fst t \<notin> ?D) ?ts)) < length (filter (\<lambda>t. fst t \<notin> ?D) ?ts)"
    using assms(2,3) by (intro length_filter_less [of task]) auto
  ultimately show ?thesis using assms(1,4) by (simp add: undone_def pf_task_base)
qed

text \<open>A task of a line throws only when there are JSON files and glaze refuses the structure.\<close>

lemma pf_task_returns:
  assumes "zpp_documented (lib_zpp libs)" "manager_ok env m" "env_n_lines env = n"
    and "pf_inv c bsize libs sr env m n s" "k < n" "pl_pending (pf_base s) ! k = Some bs"
    and "task \<in> set (tf_tasks (pl_flows (pf_base s) ! k))" "task_ready (pl_flows (pf_base s) ! k) (pf_done s ! k) (fst task)"
    and "json_files m = [] \<or> writable libs bs"
  shows "pf_failed (pf_task libs k task s) = pf_failed s"
proof -
  have "r \<in> set (do_for_each_sink m)" if r: "fst task = N_sink r" for r
  proof -
    obtain p where "task = (N_sink r, p)" using r by (cases task) simp
    then show ?thesis using assms(7) pf_inv_facts(5) [OF assms(4,5)]
      by (auto simp: flow_ok_def flow_tasks_def conv_nodes_no_sink)
  qed
  then have "\<not> ((\<exists>r. fst task = N_sink r \<and> sink_kind r = K_json) \<and> \<not> writable libs bs)"
    using assms(9) no_json_sinks [of m] by blast
  then show ?thesis unfolding pf_task_failed [OF assms(1-8)] by (rule if_not_P)
qed

definition flow_goes_on ::
  "'q cqueue \<Rightarrow> nat \<Rightarrow> task_libs \<Rightarrow> bool \<Rightarrow> sink_env \<Rightarrow> Manager \<Rightarrow> nat \<Rightarrow> bytes \<Rightarrow> 'q parallel_flows \<Rightarrow>
     'q parallel_flows \<Rightarrow> bool" where
  "flow_goes_on c bsize libs sr env m k bs s0 t \<longleftrightarrow>
     cq_documented c \<and> zpp_documented (lib_zpp libs) \<and> 0 < bsize \<and> manager_ok env m \<and> k < env_n_lines env \<and>
     pl_pending (pf_base s0) ! k = Some bs \<and> (json_files m = [] \<or> writable libs bs) \<and>
     pf_inv c bsize libs sr env m (env_n_lines env) t \<and> in_flow k bs s0 t \<and> pf_failed t = []"

lemma flow_progress:
  assumes t: "flow_goes_on c bsize libs sr env m k bs s0 t" and run: "pl_pending (pf_base t) ! k \<noteq> None"
  shows "\<exists>u. pf_step c libs sr t u \<and> in_flow k bs s0 u \<and> undone k u < undone k t \<and> pf_failed u = []"
proof -
  note c = t [unfolded flow_goes_on_def]
  have inv: "pf_inv c bsize libs sr env m (env_n_lines env) t" and k0: "k < env_n_lines env" using c by blast+
  let ?tf = "pl_flows (pf_base t) ! k"
  have k: "k < length (pl_pending (pf_base t))" "k < length (pf_done t)" "flow_ok m ?tf"
    using pf_inv_facts(5,6) [OF inv k0] k0 inv by (simp_all add: pf_inv_def)
  have pend: "pl_pending (pf_base t) = pl_pending (pf_base s0)" "pl_frames (pf_base t) = pl_frames (pf_base s0)"
    "td_raw_data (pl_diagram (pf_base t)) ! k = bs"
    using c run pf_inv_facts(4) [OF inv k0] by (simp_all add: in_flow_def)
  show ?thesis
  proof (cases "flow_finished ?tf (pf_done t ! k)")
    case True
    then have "pf_step c libs sr t (pf_end k t)" using k(1) run c by (intro pf_step.pf_end) simp_all
    moreover have "in_flow k bs s0 (pf_end k t)" "undone k (pf_end k t) < undone k t" "pf_failed (pf_end k t) = []"
      using c k run pend by (simp_all add: in_flow_def pf_end_def Let_def undone_def)
    ultimately show ?thesis by blast
  next
    case False
    from some_task_ready [OF _ k(3) this] c obtain task where task: "task \<in> set (tf_tasks ?tf)"
      "task_ready ?tf (pf_done t ! k) (fst task)" by blast
    have "pf_step c libs sr t (pf_task libs k task t)" using k(1) run task by (intro pf_step.pf_task)
    moreover have "in_flow k bs s0 (pf_task libs k task t)" using c run by (simp add: in_flow_def pf_task_base)
    moreover have "undone k (pf_task libs k task t) < undone k t"
      using task by (intro undone_task run k(2)) (simp_all add: task_ready_def)
    moreover have "pf_failed (pf_task libs k task t) = []"
      using pf_task_returns [OF _ _ refl inv k0 _ task] c pend(1) by simp
    ultimately show ?thesis by blast
  qed
qed

interpretation flow: terminating_system "pf_step c libs sr" "flow_goes_on c bsize libs sr env m k bs s0"
  "\<lambda>t. pl_pending (pf_base t) ! k = None" "undone k" for c libs sr bsize env m k bs s0
proof unfold_locales
  fix t
  assume t: "flow_goes_on c bsize libs sr env m k bs s0 t" and run: "pl_pending (pf_base t) ! k \<noteq> None"
  obtain u where u: "pf_step c libs sr t u" "in_flow k bs s0 u" "undone k u < undone k t" "pf_failed u = []"
    using flow_progress [OF t run] by blast
  have "pf_inv c bsize libs sr env m (env_n_lines env) u"
    using t pf_inv_step [OF _ _ _ _ refl _ u(1)] by (simp add: flow_goes_on_def)
  then have "flow_goes_on c bsize libs sr env m k bs s0 u" using t u(2,4) by (simp add: flow_goes_on_def)
  then show "\<exists>u. steps (pf_step c libs sr) t u \<and> flow_goes_on c bsize libs sr env m k bs s0 u \<and> undone k u < undone k t"
    using u(1,3) by (blast intro: steps_one)
qed

section \<open>A line that has failed\<close>

text \<open>A line a task of which has thrown never becomes idle again.\<close>

definition line_hangs :: "nat \<Rightarrow> 'q parallel_flows \<Rightarrow> bool" where
  "line_hangs k s \<longleftrightarrow> k \<in> set (pf_failed s) \<and> pl_pending (pf_base s) ! k \<noteq> None \<and>
     length (sy_lines (pl_queue (pf_base s))) = length (pl_pending (pf_base s)) \<and>
     ln_state (sy_lines (pl_queue (pf_base s)) ! k) \<noteq> L_waiting"

lemma line_hangs_step:
  assumes "line_hangs k s" "pf_step c libs sr s t"
  shows "line_hangs k t"
  using assms(2)
proof cases
  case (pf_base b)
  note t = pf_base
  have "pl_pending b ! k \<noteq> None \<and> length (sy_lines (pl_queue b)) = length (pl_pending b) \<and>
      ln_state (sy_lines (pl_queue b) ! k) \<noteq> L_waiting"
    using t(2)
  proof cases
    case (pl_give j)
    then show ?thesis using assms(1) by (auto simp: line_hangs_def give_keeps)
  next
    case (pl_take j x q)
    then have "j \<noteq> k" using assms(1) by (auto simp: line_hangs_def)
    then show ?thesis using assms(1) pl_take(1) by (auto simp: line_hangs_def pl_take_def sy_take_def)
  next
    case (pl_flow j)
    then show ?thesis using t(3) by (simp add: pl_flow_def split_def Let_def)
  qed (use assms(1) in \<open>simp_all add: line_hangs_def\<close>)
  then show ?thesis using assms(1) t(1) by (simp add: line_hangs_def)
next
  case (pf_task j task)
  then show ?thesis using assms(1) pf_failed_step [OF assms(2)] by (auto simp: line_hangs_def pf_task_base)
next
  case (pf_end j)
  then have "j \<noteq> k" using assms(1) by (auto simp: line_hangs_def)
  then show ?thesis using assms(1) pf_end(1) by (simp add: line_hangs_def pf_end_def Let_def)
qed

lemma failed_line_never_idle:
  "steps (pf_step c libs sr) s t \<Longrightarrow> line_hangs k s \<Longrightarrow> line_hangs k t \<and> pl_pending (pf_base t) ! k \<noteq> None"
  by (induction rule: steps.induct) (auto simp: line_hangs_step, simp add: line_hangs_def)

section \<open>Properties\<close>

definition checker_ref :: sink_ref where
  "checker_ref = \<lparr>sink_name = ''FrameCountChecker'', sink_kind = K_checker, sink_required = opt_raw\<rparr>"

lemma checker_ref_kind: "r \<in> set (do_for_each_sink m) \<Longrightarrow> sink_kind r = K_checker \<longleftrightarrow> r = checker_ref"
  by (auto simp: do_for_each_sink_def checker_ref_def split: if_splits)

lemma serve_all_checker:
  assumes "ledger_ok m n served"
  shows "frame_count_checker (serve_all libs served m) = map_option (fold (\<lambda>bs c. snd (analyze_frame_counter (lib_zpp libs) c bs))
    (map snd (served_to checker_ref served))) (frame_count_checker m)"
  using assms
proof (induction served)
  case Nil
  then show ?case by (cases "frame_count_checker m") (simp_all add: serve_all_def served_to_def)
next
  case (Cons e served)
  obtain k r bs where e: "e = (k, r, bs)" by (cases e)
  have r: "r \<in> set (do_for_each_sink m)" "ledger_ok m n served" using Cons.prems by (simp_all add: e ledger_ok_def)
  have "expected_bytes libs (sink_required checker_ref) bs = bs" by (simp add: checker_ref_def expected_bytes_def)
  then show ?case using Cons.IH [OF r(2)] checker_ref_kind [OF r(1)]
    by (cases "frame_count_checker m") (simp_all add: e serve_all_Cons serve_kinds served_to_Cons)
qed

lemma mset_by_lines:
  assumes "\<And>k. on_line k xs = on_line k ys"
  shows "mset xs = mset ys"
proof (rule multiset_eqI)
  fix e
  have "count (mset zs) e = count (mset (on_line (fst e) zs)) e" for zs :: "(nat \<times> 'a) list"
    by (simp add: mset_filter)
  then show "count (mset xs) e = count (mset ys) e" using assms by metis
qed

lemma line_contents_slots: "line_slots k m = line_slots k m' \<Longrightarrow> line_contents k m = line_contents k m'"
proof -
  assume "line_slots k m = line_slots k m'"
  then have "map (\<lambda>(n, c, v). (n, c, bf_slot v k)) (binary_files m) = map (\<lambda>(n, c, v). (n, c, bf_slot v k)) (binary_files m')"
    by (simp add: line_slots_def)
  from arg_cong [OF this, of "map (\<lambda>(n, c, x). (n, c, snd x))"] show ?thesis
    by (simp add: line_contents_def bf_slot_def comp_def split_def)
qed

lemma pf_inv_reached:
  assumes "cq_documented c" "zpp_documented (lib_zpp libs)" "0 < buffer_size cfg" "manager_ok env m"
    and "steps (pf_step c libs stop_returns) (pf_start c cfg m (env_n_lines env)) s" "pf_failed s = []"
  shows "pf_inv c (buffer_size cfg) libs stop_returns env m (env_n_lines env) s"
proof -
  have "cq_documented c \<and> zpp_documented (lib_zpp libs) \<and> 0 < buffer_size cfg \<and> manager_ok env m \<and> pf_failed s = [] \<longrightarrow>
     pf_inv c (buffer_size cfg) libs stop_returns env m (env_n_lines env) s"
    using pf_inv_start [OF assms(1,4)] by (intro parallel.inv_steps [OF assms(5)]) blast
  then show ?thesis using assms(1-4,6) by blast
qed

text \<open>With a glaze that writes everything no task throws.\<close>

lemma pf_never_fails_step:
  assumes "cq_documented c" "zpp_documented (lib_zpp libs)" "0 < bsize" "manager_ok env m"
    and "\<And>d. lib_glz libs d \<noteq> None" "pf_inv c bsize libs sr env m (env_n_lines env) s" "pf_failed s = []"
    and step: "pf_step c libs sr s t"
  shows "pf_inv c bsize libs sr env m (env_n_lines env) t \<and> pf_failed t = []"
proof
  show "pf_inv c bsize libs sr env m (env_n_lines env) t"
    by (rule pf_inv_step [OF assms(1,3,2,4) refl assms(6) step assms(7)])
  show "pf_failed t = []"
    using step
  proof cases
    case (pf_task k task)
    have k: "k < env_n_lines env" using pf_task(2) assms(6) by (simp add: pf_inv_def pl_inv_def slots_inv_def)
    obtain bs where bs: "pl_pending (parallel_flows.pf_base s) ! k = Some bs" using pf_task(3) by blast
    have "json_files m = [] \<or> writable libs bs" using assms(5) by (simp add: writable_def)
    then show ?thesis
      using pf_task_returns [OF assms(2,4) refl assms(6) k bs pf_task(4,5)] assms(7) by (simp add: pf_task(1))
  qed (use assms(7) in \<open>simp_all add: pf_end_def Let_def\<close>)
qed

lemma pf_never_fails:
  assumes "cq_documented c" "zpp_documented (lib_zpp libs)" "0 < buffer_size cfg" "manager_ok env m"
    and "steps (pf_step c libs stop_returns) (pf_start c cfg m (env_n_lines env)) s" "\<And>d. lib_glz libs d \<noteq> None"
  shows "pf_failed s = []"
proof -
  have "steps (pf_step c libs stop_returns) s t \<Longrightarrow>
      pf_inv c (buffer_size cfg) libs stop_returns env m (env_n_lines env) s \<and> pf_failed s = [] \<Longrightarrow> pf_failed t = []" for s t
    by (induction rule: steps.induct) (use pf_never_fails_step [OF assms(1-4,6)] in blast)+
  from this [OF assms(5)] show ?thesis using pf_inv_start [OF assms(1,4)] by (simp add: pf_start_def)
qed

text \<open>A packet on its way, before any task has run.\<close>

lemma base_steps:
  "steps (pl_step c libs sr) b b' \<Longrightarrow> pl_frames b' = [] \<Longrightarrow>
     pl_frames b = [] \<and> (\<forall>s. pf_base s = b \<longrightarrow> steps (pf_step c libs sr) s (s\<lparr>pf_base := b'\<rparr>))"
proof (induction rule: steps.induct)
  case (steps_refl b)
  have "s\<lparr>pf_base := pf_base s\<rparr> = s" for s :: "'a parallel_flows" by simp
  then show ?case using steps_refl by (auto intro: steps.steps_refl)
next
  case (steps_step b b1 b2)
  then have b1: "pl_frames b1 = []" by blast
  with steps_step.hyps(1) have b: "pl_frames b = []" by cases (simp_all add: pl_take_def pl_flow_def split_def Let_def)
  have "steps (pf_step c libs sr) s (s\<lparr>pf_base := b2\<rparr>)" if "pf_base s = b" for s
  proof -
    have "pf_step c libs sr s (s\<lparr>pf_base := b1\<rparr>)"
      using steps_step.hyps(1) that b b1 by (intro pf_step.pf_base) simp_all
    moreover have "steps (pf_step c libs sr) (s\<lparr>pf_base := b1\<rparr>) (s\<lparr>pf_base := b2\<rparr>)"
      using steps_step.IH steps_step.prems by (metis parallel_flows.simps(1,4) parallel_flows.surjective parallel_flows.update_convs(1))
    ultimately show ?thesis by (rule steps.steps_step)
  qed
  with b show ?case by blast
qed

lemma sample_parallel:
  "\<exists>s. steps (pf_step cq_ref sample_libs False) (pf_start cq_ref sample_bq_config sample_manager 1) s \<and>
     pl_pending (pf_base s) = [Some [1, 2, 3]] \<and> pl_frames (pf_base s) = []"
proof -
  obtain b where b: "steps (pl_step cq_ref sample_libs False) (pl_start cq_ref sample_bq_config sample_manager 1) b"
    "pl_pending b = [Some [1, 2, 3]]" "pl_frames b = []" using sample_taken by blast
  let ?s0 = "pf_start cq_ref sample_bq_config sample_manager 1"
  have "steps (pf_step cq_ref sample_libs False) ?s0 (?s0\<lparr>pf_base := b\<rparr>)"
    using conjunct2 [OF base_steps [OF b(1,3)], rule_format, of ?s0] by (simp add: pf_start_def)
  then show ?thesis using b(2,3) by (intro exI [of _ "?s0\<lparr>pf_base := b\<rparr>"]) simp
qed

lemma sample_sink_env_lines [simp]: "env_n_lines sample_sink_env = 1"
  by (simp add: sample_sink_env_def)

text \<open>
  C2. The flows of the lines in parallel: in every interleaving of the tasks of all lines, with
  each other and with packets, takes and stops, and as long as no task has thrown (which a
  JSON file does when glaze refuses the structure of a frame, and nothing else does), every packet
  is still accounted for exactly once, and a line that is not in the middle of a flow has in
  every binary file, socket, JSON file and ROOT tree exactly what running its flows one after the
  other would have put there; its part of each binary file is the conversions of its frames in
  their order. When no line is in the middle of a flow, the counter check that they share has
  registered every frame exactly once, in some order.\<close>

theorem parallel_flows_end_to_end:
  assumes "cq_documented c" "zpp_documented (lib_zpp libs)" "0 < buffer_size cfg" "manager_ok env m"
    and "steps (pf_step c libs stop_returns) (pf_start c cfg m (env_n_lines env)) s"
    and "pf_failed s = []" "k < env_n_lines env" "pl_pending (pf_base s) ! k = None"
  shows "mset (sy_received (pl_queue (pf_base s))) + all_of (marker_of stop_returns) (sy_lines (pl_queue (pf_base s))) =
      mset (sy_dropped (pl_queue (pf_base s))) +
      image_mset lb_view (data_buffers (cq_contents c (valid_buffer_queue (sy_queue (pl_queue (pf_base s)))))) +
      all_of pending_of (pl_pending (pf_base s)) + mset (map snd (pl_frames (pf_base s))) \<and>
    line_slots k (pl_sinks (pf_base s)) = line_slots k (fold (\<lambda>(k, bs). deliver libs bs k) (rev (pl_frames (pf_base s))) m) \<and>
    line_contents k (pl_sinks (pf_base s)) = map (\<lambda>(name, conv, t). (name, conv,
      t @ concat (map (expected_bytes libs conv) (frames_of k (rev (pl_frames (pf_base s))))))) (line_contents k m) \<and>
    ((\<forall>j < env_n_lines env. pl_pending (pf_base s) ! j = None) \<longrightarrow>
      (\<exists>xs. mset xs = mset (map snd (pl_frames (pf_base s))) \<and> frame_count_checker (pl_sinks (pf_base s)) =
        map_option (fold (\<lambda>bs c. snd (analyze_frame_counter (lib_zpp libs) c bs)) xs) (frame_count_checker m)))"
proof (intro conjI impI)
  let ?n = "env_n_lines env" and ?b = "pf_base s" and ?fs = "rev (pl_frames (pf_base s))"
  have inv: "pf_inv c (buffer_size cfg) libs stop_returns env m ?n s" by (rule pf_inv_reached [OF assms(1-6)])
  then have sinks: "pl_sinks ?b = serve_all libs (pf_served s) m" and ledger: "ledger_ok m ?n (pf_served s)"
    and lines: "\<forall>(k, bs) \<in> set ?fs. k < ?n" by (simp_all add: pf_inv_def)
  have idle: "on_line j (served_to r (pf_served s)) = on_line j ?fs"
    if "j < ?n" "pl_pending ?b ! j = None" "r \<in> set (do_for_each_sink m)" for j r
    using inv that by (simp add: pf_inv_def line_inv_def)
  have co: "pl_inv c (buffer_size cfg) libs stop_returns env m ?n (coarse libs m ?b)" using inv by (simp add: pf_inv_def)
  then have "mset (sy_received (pl_queue ?b)) = mset (sy_dropped (pl_queue ?b)) + mset (sy_delivered (pl_queue ?b)) +
      image_mset lb_view (data_buffers (cq_contents c (valid_buffer_queue (sy_queue (pl_queue ?b)))))"
    "mset (map snd (pl_frames ?b)) + all_of pending_of (pl_pending ?b) =
      mset (sy_delivered (pl_queue ?b)) + all_of (marker_of stop_returns) (sy_lines (pl_queue ?b))"
    by (simp_all add: pl_inv_def sy_inv_def)
  then show "mset (sy_received (pl_queue ?b)) + all_of (marker_of stop_returns) (sy_lines (pl_queue ?b)) =
      mset (sy_dropped (pl_queue ?b)) +
      image_mset lb_view (data_buffers (cq_contents c (valid_buffer_queue (sy_queue (pl_queue ?b))))) +
      all_of pending_of (pl_pending ?b) + mset (map snd (pl_frames ?b))"
    by (simp add: ac_simps)
  show slots: "line_slots k (pl_sinks ?b) = line_slots k (fold (\<lambda>(k, bs). deliver libs bs k) ?fs m)"
    unfolding sinks using idle [OF assms(7,8)] by (intro serve_all_slots [OF assms(4) ledger lines assms(7)])
  have "\<forall>(name, conv, v) \<in> set (binary_files m). bf_n_lines v = ?n"
    using assms(4) by (auto simp: manager_ok_def sink_map_ok_def)
  then show "line_contents k (pl_sinks ?b) = map (\<lambda>(name, conv, t). (name, conv,
      t @ concat (map (expected_bytes libs conv) (frames_of k ?fs)))) (line_contents k m)"
    unfolding line_contents_slots [OF slots] by (rule line_contents_fold [OF _ assms(7) lines])
  assume all: "\<forall>j < ?n. pl_pending ?b ! j = None"
  show "\<exists>xs. mset xs = mset (map snd (pl_frames ?b)) \<and> frame_count_checker (pl_sinks ?b) =
      map_option (fold (\<lambda>bs c. snd (analyze_frame_counter (lib_zpp libs) c bs)) xs) (frame_count_checker m)"
  proof (cases "frame_count_checker m")
    case None
    then show ?thesis using serve_all_checker [OF ledger, of libs] sinks ex_mset [of "mset (map snd (pl_frames ?b))"]
      by simp
  next
    case (Some fc)
    then have r: "checker_ref \<in> set (do_for_each_sink m)" by (simp add: do_for_each_sink_def checker_ref_def)
    have "on_line j (served_to checker_ref (pf_served s)) = on_line j ?fs" for j
    proof (cases "j < ?n")
      case True
      then show ?thesis using idle all r by blast
    next
      case False
      then have "on_line j (served_to checker_ref (pf_served s)) = []" "on_line j ?fs = []"
        using ledger_lines [OF ledger] lines by (fastforce simp: filter_empty_conv)+
      then show ?thesis by simp
    qed
    then have "mset (served_to checker_ref (pf_served s)) = mset ?fs" by (rule mset_by_lines)
    then have "mset (map snd (served_to checker_ref (pf_served s))) = mset (map snd (pl_frames ?b))" by simp
    then show ?thesis using serve_all_checker [OF ledger, of libs] sinks by metis
  qed
qed

lemma parallel_flows_end_to_end_witness:
  "\<exists>s. steps (pf_step cq_ref sample_libs False) (pf_start cq_ref sample_bq_config sample_manager 1) s \<and>
     line_contents 0 (pl_sinks (pf_base s)) = [(''a.bin'', opt_raw_frame, delim_frame [1, 2, 3])]"
proof -
  let ?n = "env_n_lines sample_sink_env" and ?step = "pf_step cq_ref sample_libs False"
  have libs: "zpp_documented (lib_zpp sample_libs)" "0 < buffer_size sample_bq_config" "\<And>d. lib_glz sample_libs d \<noteq> None"
    by (simp_all add: sample_libs_def sample_bq_config_def)
  note never = pf_never_fails [OF cq_ref_documented libs(1,2) sample_manager_ok _ libs(3)]
  obtain s where s: "steps ?step (pf_start cq_ref sample_bq_config sample_manager ?n) s"
    "pl_pending (pf_base s) = [Some [1, 2, 3]]" "pl_frames (pf_base s) = []"
    using sample_parallel by auto
  have "flow_goes_on cq_ref (buffer_size sample_bq_config) sample_libs False sample_sink_env sample_manager 0 [1, 2, 3] s s"
    using pf_inv_reached [OF cq_ref_documented libs(1,2) sample_manager_ok s(1) never [OF s(1)]] libs sample_manager_ok s(2)
      never [OF s(1)] by (simp add: flow_goes_on_def in_flow_def writable_def)
  from flow.reaches_goal [OF this] have "\<exists>t. steps ?step s t \<and> in_flow 0 [1, 2, 3] s t \<and> pl_pending (pf_base t) ! 0 = None"
    by (auto simp: flow_goes_on_def)
  then obtain t where t: "steps ?step s t" "in_flow 0 [1, 2, 3] s t" "pl_pending (pf_base t) ! 0 = None" by blast
  have "pl_frames (pf_base t) = [(0, [1, 2, 3])]" using t(2,3) s(3) by (simp add: in_flow_def)
  moreover note run = steps_trans [OF s(1) t(1)]
  moreover have "line_contents 0 sample_manager = [(''a.bin'', opt_raw_frame, [])]"
    by (simp add: line_contents_def sample_manager_def mk_BinaryFile_def)
  ultimately have "line_contents 0 (pl_sinks (pf_base t)) = [(''a.bin'', opt_raw_frame, delim_frame [1, 2, 3])]"
    using parallel_flows_end_to_end [OF cq_ref_documented libs(1,2) sample_manager_ok run never [OF run] _ t(3)]
    by (simp add: frames_of_def expected_bytes_def)
  with run show ?thesis by auto
qed

text \<open>
  C34. The flow of a line is never stuck and, as long as no task has thrown and glaze writes the
  structure of its frame or there is no JSON file, gets to its end: a line in the middle of a
  flow has a task that can run, unless all of its tasks have run; and from there the tasks of this
  line alone bring its flow to the end, none of them throwing, with the queue and every other line
  left as they are.\<close>

theorem parallel_flow_completes:
  assumes "cq_documented c" "zpp_documented (lib_zpp libs)" "0 < buffer_size cfg" "manager_ok env m"
    and "steps (pf_step c libs stop_returns) (pf_start c cfg m (env_n_lines env)) s" "pf_failed s = []"
    and "k < env_n_lines env" "pl_pending (pf_base s) ! k = Some bs"
    and "json_files m = [] \<or> lib_glz libs (export_of (frame_struct bs)) \<noteq> None"
  shows "(flow_finished (pl_flows (pf_base s) ! k) (pf_done s ! k) \<or>
      (\<exists>task \<in> set (tf_tasks (pl_flows (pf_base s) ! k)). task_ready (pl_flows (pf_base s) ! k) (pf_done s ! k) (fst task))) \<and>
    (\<exists>t. steps (pf_step c libs stop_returns) s t \<and> pl_queue (pf_base t) = pl_queue (pf_base s) \<and> pf_failed t = [] \<and>
      pl_pending (pf_base t) = (pl_pending (pf_base s))[k := None] \<and> pl_frames (pf_base t) = (k, bs) # pl_frames (pf_base s))"
proof
  note inv = pf_inv_reached [OF assms(1-6)]
  show "flow_finished (pl_flows (pf_base s) ! k) (pf_done s ! k) \<or>
      (\<exists>task \<in> set (tf_tasks (pl_flows (pf_base s) ! k)). task_ready (pl_flows (pf_base s) ! k) (pf_done s ! k) (fst task))"
    using some_task_ready [OF assms(4) pf_inv_facts(5) [OF inv assms(7)]] by blast
  have "flow_goes_on c (buffer_size cfg) libs stop_returns env m k bs s s"
    using assms inv by (simp add: flow_goes_on_def in_flow_def writable_def)
  from flow.reaches_goal [OF this]
  show "\<exists>t. steps (pf_step c libs stop_returns) s t \<and> pl_queue (pf_base t) = pl_queue (pf_base s) \<and> pf_failed t = [] \<and>
      pl_pending (pf_base t) = (pl_pending (pf_base s))[k := None] \<and> pl_frames (pf_base t) = (k, bs) # pl_frames (pf_base s)"
    by (auto simp: flow_goes_on_def in_flow_def)
qed

lemma parallel_flow_completes_witness:
  "\<exists>s t. steps (pf_step cq_ref sample_libs False) (pf_start cq_ref sample_bq_config sample_manager 1) s \<and>
     pl_pending (pf_base s) = [Some [1, 2, 3]] \<and> steps (pf_step cq_ref sample_libs False) s t \<and>
     pl_pending (pf_base t) = [None] \<and> pl_frames (pf_base t) = [(0, [1, 2, 3])]"
proof -
  have libs: "zpp_documented (lib_zpp sample_libs)" "0 < buffer_size sample_bq_config"
    by (simp_all add: sample_libs_def sample_bq_config_def)
  obtain s where s: "steps (pf_step cq_ref sample_libs False) (pf_start cq_ref sample_bq_config sample_manager (env_n_lines sample_sink_env)) s"
    "pl_pending (pf_base s) = [Some [1, 2, 3]]" "pl_frames (pf_base s) = []"
    using sample_parallel by auto
  have "pf_failed s = []"
    by (rule pf_never_fails [OF cq_ref_documented libs sample_manager_ok s(1)]) (simp add: sample_libs_def)
  moreover have k: "0 < env_n_lines sample_sink_env" "pl_pending (pf_base s) ! 0 = Some [1, 2, 3]" using s(2) by simp_all
  moreover have "lib_glz sample_libs (export_of (frame_struct [1, 2, 3])) \<noteq> None" by (simp add: sample_libs_def)
  ultimately show ?thesis
    using parallel_flow_completes [OF cq_ref_documented libs sample_manager_ok s(1)] s by fastforce
qed

end
