(* ===== verification/Emulated_Parallel.thy ===== *)
theory Emulated_Parallel
  imports Emulated_Run Parallel_Flows
begin

text \<open>
  The two programs together, as in \<^verbatim>\<open>Emulated_Run\<close>, with the pipeline of \<^verbatim>\<open>Parallel_Flows\<close>:
  emulators, the network, and the tasks of the flows of all lines interleave. The abstraction of
  \<^verbatim>\<open>Parallel_Flows\<close> turns a state into one of \<^verbatim>\<open>Emulated_Run\<close>, so the invariant of that theory
  is what says where frames come from.
\<close>

section \<open>The two programs\<close>






section \<open>The invariant\<close>








section \<open>The JSON files of an idle line\<close>




section \<open>A concrete run\<close>







section \<open>Properties\<close>




end
