(* ===== verification/Udp_Writer.thy ===== *)
theory Udp_Writer
  imports Sink_Manager
begin

text \<open>
  The UDP sink in detail: \<^verbatim>\<open>connection::UDPWriterConnection\<close> and \<^verbatim>\<open>sink::UDP\<close> of
  \<^verbatim>\<open>sinks/UDPWriter.{hpp,cpp}\<close>, one socket for every pipeline line. What the operating system
  answers to \<^verbatim>\<open>send_to\<close>, \<^verbatim>\<open>shutdown\<close> and \<^verbatim>\<open>close\<close> is an argument. The lemmas show that the
  sink of \<^verbatim>\<open>Sink_Manager\<close> is what the pipeline sees of it, whatever goes wrong on the network,
  and what the destructor does when a socket does not close.
\<close>

section \<open>A connection\<close>

type_synonym os_error = string

record udp_connection =
  cn_err :: "os_error option"
  cn_remote_endpoint :: endpoint
  cn_is_open :: bool

text \<open>The socket is opened and bound to a free port by its constructor, which may throw.\<close>

definition mk_udp_connection :: "os_error option \<Rightarrow> endpoint \<Rightarrow> os_error + udp_connection" where
  "mk_udp_connection open_error remote_endpoint =
     (case open_error of
        Some e \<Rightarrow> Inl e
      | None \<Rightarrow> Inr \<lparr>cn_err = None, cn_remote_endpoint = remote_endpoint, cn_is_open = True\<rparr>)"

text \<open>The overload of \<^verbatim>\<open>send_to\<close> with an error code returns zero bytes on an error and clears
  the code on success.\<close>

definition connection_send ::
  "(endpoint \<Rightarrow> bytes \<Rightarrow> os_error + nat) \<Rightarrow> bytes \<Rightarrow> udp_connection \<Rightarrow> nat \<times> udp_connection" where
  "connection_send send_to input_data c =
     (if input_data \<noteq> []
      then case send_to (cn_remote_endpoint c) input_data of
             Inl e \<Rightarrow> (0, c\<lparr>cn_err := Some e\<rparr>)
           | Inr read_size \<Rightarrow> (read_size, c\<lparr>cn_err := None\<rparr>)
      else (0, c))"

text \<open>The overload of \<^verbatim>\<open>local_endpoint\<close> without an error code throws on a socket that is not
  open. A socket is closed after \<^verbatim>\<open>close\<close>, also when it reports an error.\<close>

definition local_endpoint :: "udp_connection \<Rightarrow> os_error + unit" where
  "local_endpoint c = (if cn_is_open c then Inr () else Inl ''Bad file descriptor'')"

definition connection_close ::
  "os_error option \<Rightarrow> os_error option \<Rightarrow> udp_connection \<Rightarrow> (os_error + unit) \<times> udp_connection" where
  "connection_close shutdown_error close_error c =
     (let error = shutdown_error;
          c = c\<lparr>cn_is_open := False\<rparr>;
          error = close_error
      in case error of
           None \<Rightarrow> (Inr (), c)
         | Some _ \<Rightarrow> (local_endpoint c, c))"

section \<open>The sink\<close>

record udp_writer =
  uw_output_data :: "nat list"
  uw_connections :: "udp_connection list"

fun open_connections :: "(nat \<Rightarrow> os_error option) \<Rightarrow> endpoint \<Rightarrow> nat list \<Rightarrow> os_error + udp_connection list" where
  "open_connections open_error ep [] = Inr []"
| "open_connections open_error ep (idx # rest) =
     (case mk_udp_connection (open_error idx) ep of
        Inl e \<Rightarrow> Inl e
      | Inr c \<Rightarrow> map_sum id (\<lambda>cs. c # cs) (open_connections open_error ep rest))"

definition mk_udp_writer :: "(nat \<Rightarrow> os_error option) \<Rightarrow> endpoint \<Rightarrow> nat \<Rightarrow> os_error + udp_writer" where
  "mk_udp_writer open_error remote_endpoint n_lines =
     map_sum id (\<lambda>cs. \<lparr>uw_output_data = replicate n_lines 0, uw_connections = cs\<rparr>)
       (open_connections open_error remote_endpoint [0..<n_lines])"

definition udp_writer_run ::
  "(endpoint \<Rightarrow> bytes \<Rightarrow> os_error + nat) \<Rightarrow> udp_writer \<Rightarrow> bytes \<Rightarrow> nat \<Rightarrow> ('e + nat) \<times> udp_writer" where
  "udp_writer_run send_to u input line =
     (let (n, c) = connection_send send_to input (uw_connections u ! line);
          u = u\<lparr>uw_connections := (uw_connections u)[line := c]\<rparr>;
          u = u\<lparr>uw_output_data := (uw_output_data u)[line := n]\<rparr>
      in (Inr (uw_output_data u ! line), u))"

text \<open>The destructor closes the connections in turn. An exception that leaves it ends the
  program, since it is declared not to throw.\<close>

datatype udp_end = Udp_closed "udp_connection list" | Udp_terminated os_error "udp_connection list"

fun close_connections ::
  "(nat \<Rightarrow> os_error option \<times> os_error option) \<Rightarrow> nat \<Rightarrow> udp_connection list \<Rightarrow> udp_end" where
  "close_connections answers k [] = Udp_closed []"
| "close_connections answers k (c # cs) =
     (case connection_close (fst (answers k)) (snd (answers k)) c of
        (Inl e, c) \<Rightarrow> Udp_terminated e (c # cs)
      | (Inr _, c) \<Rightarrow>
          (case close_connections answers (Suc k) cs of
             Udp_closed cs \<Rightarrow> Udp_closed (c # cs)
           | Udp_terminated e cs \<Rightarrow> Udp_terminated e (c # cs)))"

definition destroy_udp_writer :: "(nat \<Rightarrow> os_error option \<times> os_error option) \<Rightarrow> udp_writer \<Rightarrow> udp_end" where
  "destroy_udp_writer answers u = close_connections answers 0 (uw_connections u)"

section \<open>What the pipeline sees\<close>

definition uw_n_lines :: "udp_writer \<Rightarrow> nat" where
  "uw_n_lines u = min (length (uw_output_data u)) (length (uw_connections u))"

interpretation udp_writer: line_task uw_n_lines
  "\<lambda>u k. (uw_output_data u ! k, uw_connections u ! k)" "udp_writer_run send_to" fst for send_to
  by unfold_locales (auto simp: udp_writer_run_def uw_n_lines_def split_def Let_def)

definition writer_to :: "endpoint \<Rightarrow> udp_writer \<Rightarrow> bool" where
  "writer_to ep u \<longleftrightarrow> length (uw_connections u) = length (uw_output_data u) \<and>
     (\<forall>c \<in> set (uw_connections u). cn_remote_endpoint c = ep)"

definition abs_udp :: "endpoint \<Rightarrow> udp_writer \<Rightarrow> UDP" where
  "abs_udp ep u = \<lparr>udp_output_data = uw_output_data u, udp_remote_endpoint = ep\<rparr>"

definition sent_or_zero :: "os_error + nat \<Rightarrow> nat" where
  "sent_or_zero answer = (case answer of Inl _ \<Rightarrow> 0 | Inr n \<Rightarrow> n)"

lemma open_connections_ok:
  "open_connections open_error ep ks = Inr cs \<Longrightarrow> length cs = length ks \<and>
     (\<forall>c \<in> set cs. cn_remote_endpoint c = ep \<and> cn_is_open c)"
  by (induction ks arbitrary: cs)
    (auto simp: mk_udp_connection_def map_sum_def split: option.splits sum.splits)

lemma mk_udp_writer_ok:
  "mk_udp_writer open_error ep n = Inr u \<Longrightarrow> writer_to ep u \<and> abs_udp ep u = mk_UDP ep n"
  by (auto simp: mk_udp_writer_def map_sum_def writer_to_def abs_udp_def mk_UDP_def dest!: open_connections_ok
      split: sum.splits)

lemma connection_send_view:
  "fst (connection_send send_to bs c) = send_sync_message (\<lambda>ep bs. sent_or_zero (send_to ep bs)) (cn_remote_endpoint c) bs"
  "cn_remote_endpoint (snd (connection_send send_to bs c)) = cn_remote_endpoint c"
  by (simp_all add: connection_send_def send_sync_message_def sent_or_zero_def split: sum.split)

lemma udp_run_abs:
  assumes "writer_to ep u" "line < length (uw_output_data u)"
  shows "case udp_writer_run send_to u bs line of (r :: 'e + nat, u') \<Rightarrow> writer_to ep u' \<and>
    udp_run (\<lambda>ep bs. sent_or_zero (send_to ep bs)) (abs_udp ep u) bs line = (r, abs_udp ep u')"
proof -
  have l: "line < length (uw_connections u)" "cn_remote_endpoint (uw_connections u ! line) = ep"
    using assms by (auto simp: writer_to_def)
  let ?r = "connection_send send_to bs (uw_connections u ! line)"
  have "cn_remote_endpoint (snd ?r) = ep" using connection_send_view(2) l(2) by metis
  then have "\<forall>c \<in> set ((uw_connections u)[line := snd ?r]). cn_remote_endpoint c = ep"
    using assms(1) by (auto simp: writer_to_def dest!: set_update_subset_insert [THEN subsetD])
  moreover have "fst ?r = send_sync_message (\<lambda>ep bs. sent_or_zero (send_to ep bs)) ep bs"
    using connection_send_view(1) [of send_to bs "uw_connections u ! line"] l(2) by simp
  ultimately show ?thesis
    using assms by (simp add: udp_writer_run_def udp_run_def abs_udp_def writer_to_def split_def Let_def)
qed

section \<open>Sequences of frames\<close>

text \<open>The answers of the system may be others at every send.\<close>

fun udp_writer_runs ::
  "(nat \<Rightarrow> endpoint \<Rightarrow> bytes \<Rightarrow> os_error + nat) \<Rightarrow> nat \<Rightarrow> udp_writer \<Rightarrow> (bytes \<times> nat) list \<Rightarrow>
     ('e + nat) list \<times> udp_writer" where
  "udp_writer_runs send_to t u [] = ([], u)"
| "udp_writer_runs send_to t u ((bs, line) # fs) =
     (let (r, u) = udp_writer_run (send_to t) u bs line; (rs, u) = udp_writer_runs send_to (Suc t) u fs in (r # rs, u))"

fun udp_runs ::
  "(nat \<Rightarrow> endpoint \<Rightarrow> bytes \<Rightarrow> nat) \<Rightarrow> nat \<Rightarrow> UDP \<Rightarrow> (bytes \<times> nat) list \<Rightarrow> ('e + nat) list \<times> UDP" where
  "udp_runs send t u [] = ([], u)"
| "udp_runs send t u ((bs, line) # fs) =
     (let (r, u) = udp_run (send t) u bs line; (rs, u) = udp_runs send (Suc t) u fs in (r # rs, u))"

lemma udp_writer_runs_abs:
  assumes "writer_to ep u" "\<forall>(bs, line) \<in> set fs. line < length (uw_output_data u)"
  shows "map_prod id (abs_udp ep) (udp_writer_runs send_to t u fs) =
    (udp_runs (\<lambda>t ep bs. sent_or_zero (send_to t ep bs)) t (abs_udp ep u) fs :: ('e + nat) list \<times> UDP)"
  using assms
proof (induction fs arbitrary: t u)
  case (Cons f fs)
  obtain bs line where f: "f = (bs, line)" by (cases f)
  obtain r u' where r: "udp_writer_run (send_to t) u bs line = (r :: 'e + nat, u')" by fastforce
  have line: "line < length (uw_output_data u)" using Cons.prems(2) by (simp add: f)
  have step: "writer_to ep u'" "udp_run (\<lambda>ep bs. sent_or_zero (send_to t ep bs)) (abs_udp ep u) bs line = (r, abs_udp ep u')"
    using udp_run_abs [OF Cons.prems(1) line, of "send_to t" bs, where 'e = 'e] by (simp_all add: r)
  have "length (uw_output_data u') = length (uw_output_data u)"
    using r by (auto simp: udp_writer_run_def split_def Let_def)
  then have "\<forall>(bs, line) \<in> set fs. line < length (uw_output_data u')" using Cons.prems(2) by simp
  from Cons.IH [OF step(1) this, of "Suc t"] show ?case by (simp add: f r step(2) split_def Let_def prod_eq_iff)
qed simp

text \<open>Closing until the first socket that reports an error.\<close>

definition closed_connection :: "udp_connection \<Rightarrow> udp_connection" where
  "closed_connection c = c\<lparr>cn_is_open := False\<rparr>"

lemma connection_close_eq:
  "connection_close s e c = (if e = None then Inr () else Inl ''Bad file descriptor'', closed_connection c)"
  by (cases e) (simp_all add: connection_close_def local_endpoint_def closed_connection_def)

lemma close_connections_eq:
  "close_connections answers k cs =
     (let n = length (takeWhile (\<lambda>j. snd (answers j) = None) [k..<k + length cs])
      in if n = length cs then Udp_closed (map closed_connection cs)
         else Udp_terminated ''Bad file descriptor'' (map closed_connection (take (Suc n) cs) @ drop (Suc n) cs))"
proof (induction cs arbitrary: k)
  case (Cons c cs)
  have "[k..<k + length (c # cs)] = k # [Suc k..<Suc k + length cs]" by (simp add: upt_conv_Cons del: upt_Suc)
  then show ?case using Cons.IH [of "Suc k"]
    by (cases "snd (answers k)") (simp_all add: connection_close_eq Let_def)
qed simp

section \<open>Properties\<close>

text \<open>
  The UDP sink that sends by one socket for each line, with any send failing at any time, does
  for the pipeline what the sink of the manager does: once constructed, for any sequence of frames
  on its lines, the results and the sizes kept are those of that sink, a failed send counting as
  zero bytes sent and never as an error.\<close>

theorem udp_writer_refines:
  assumes "mk_udp_writer open_error ep n_lines = Inr u" "\<forall>(bs, line) \<in> set fs. line < n_lines"
  shows "map_prod id (abs_udp ep) (udp_writer_runs send_to 0 u fs) =
    udp_runs (\<lambda>t ep bs. sent_or_zero (send_to t ep bs)) 0 (mk_UDP ep n_lines) fs"
proof -
  have u: "writer_to ep u" "abs_udp ep u = mk_UDP ep n_lines" using mk_udp_writer_ok [OF assms(1)] by simp_all
  then have "length (uw_output_data u) = n_lines" by (simp add: abs_udp_def mk_UDP_def)
  then show ?thesis using udp_writer_runs_abs [OF u(1), of fs send_to 0] assms(2) by (simp add: u(2))
qed

lemma udp_writer_refines_witness:
  "\<exists>u. mk_udp_writer (\<lambda>_. None) (''127.0.0.1'', 6006) 2 = Inr u \<and>
    fst (udp_writer_runs (\<lambda>t ep bs. if t = 1 then Inl ''Network is unreachable'' else Inr (length bs)) 0 u
      [([1, 2], 0), ([3], 1), ([], 1)]) = [Inr 2, Inr 0, Inr 0 :: unit + nat]"
proof -
  let ?send = "\<lambda>t ep bs. if t = (1 :: nat) then Inl ''Network is unreachable'' else Inr (length bs)"
  obtain u where u: "mk_udp_writer (\<lambda>_. None) (''127.0.0.1'', 6006) 2 = Inr u"
    by (simp add: mk_udp_writer_def mk_udp_connection_def numeral_2_eq_2)
  have "fst (udp_writer_runs ?send 0 u [([1, 2], 0), ([3], 1), ([], 1)]) =
      fst (udp_runs (\<lambda>t ep bs. sent_or_zero (?send t ep bs)) 0 (mk_UDP (''127.0.0.1'', 6006) 2)
        [([1, 2], 0), ([3], 1), ([], 1)])"
    using udp_writer_refines [OF u, of "[([1, 2], 0), ([3], 1), ([], 1)]" ?send] by (auto simp: prod_eq_iff)
  also have "\<dots> = [Inr 2, Inr 0, Inr 0 :: unit + nat]"
    by (simp add: udp_run_def send_sync_message_def sent_or_zero_def mk_UDP_def numeral_2_eq_2)
  finally show ?thesis using u by blast
qed

text \<open>
  When a run ends, the destructor of the UDP sink closes the sockets in turn; if they all close
  without an error, all are closed. The first that reports an error ends the whole program: the
  warning asks the closed socket for its endpoint, which throws, and the destructor may not throw;
  the sockets after it stay open. An error of \<open>shutdown\<close> is never noticed.\<close>

theorem udp_destructor_outcome:
  shows "destroy_udp_writer answers u =
    (let cs = uw_connections u; n = length (takeWhile (\<lambda>k. snd (answers k) = None) [0..<length cs])
     in if n = length cs then Udp_closed (map closed_connection cs)
        else Udp_terminated ''Bad file descriptor'' (map closed_connection (take (Suc n) cs) @ drop (Suc n) cs))"
  by (simp add: destroy_udp_writer_def close_connections_eq Let_def)

end
