(* ===== verification/Data_Format.thy ===== *)
theory Data_Format
  imports Data_Structs File_Names
begin

text \<open>
  The text of the data structures, \<^verbatim>\<open>data/DataStructsFormat.hpp\<close>: what \<^verbatim>\<open>fmt\<close> prints for a
  header, a marker, a hit and a whole structure. Numbers are printed in decimal, the identifier
  of the FEC as eight binary digits, the tag as its characters. The lemmas show that the text of
  an element says everything about it.
\<close>

section \<open>The formatters\<close>

definition format_bool :: "bool \<Rightarrow> string" where
  "format_bool b = (if b then ''true'' else ''false'')"

definition format_word :: "'a::len word \<Rightarrow> string" where
  "format_word w = format_nat (unat w)"

text \<open>\<^verbatim>\<open>{:08b}\<close> of eight bits.\<close>

definition format_bits8 :: "u8 \<Rightarrow> string" where
  "format_bits8 w = map (\<lambda>k. if bit w k then CHR ''1'' else CHR ''0'') (rev [0..<8])"

definition format_char :: "u8 \<Rightarrow> char" where
  "format_char c = char_of (unat c)"

definition format_header :: "ReceiveDataHeader \<Rightarrow> string" where
  "format_header h = (case vmm_tag h of (a, b, c) \<Rightarrow>
     ''Header data: [frame counter: '' @ format_word (frame_counter h) @ '', vmm tag: '' @
     [format_char a, format_char b, format_char c] @ '', fec id: '' @ format_bits8 (fec_id h) @
     '', udp timestamp: '' @ format_word (udp_timestamp h) @ '', overflow: '' @ format_word (overflow h) @ '']'')"

definition format_marker :: "MarkerData \<Rightarrow> string" where
  "format_marker m = ''Marker data: [vmm id: '' @ format_word (marker_vmm_id m) @ '', srs timestamp: '' @
     format_word (srs_timestamp m) @ '']''"

definition format_hit :: "HitData \<Rightarrow> string" where
  "format_hit h = ''Hit data: [Over threshold: '' @ format_bool (is_over_threshold h) @ '', channel num: '' @
     format_word (channel_num h) @ '', tdc: '' @ format_word (tdc h) @ '', adc: '' @ format_word (adc h) @
     '', offset: '' @ format_word (offset h) @ '', vmm id: '' @ format_word (vmm_id h) @ '', bc id: '' @
     format_word (bc_id h) @ '']''"

fun fmt_join :: "string \<Rightarrow> string list \<Rightarrow> string" where
  "fmt_join sep [] = []"
| "fmt_join sep [x] = x"
| "fmt_join sep (x # y # xs) = x @ sep @ fmt_join sep (y # xs)"

definition format_struct :: "StructData \<Rightarrow> string" where
  "format_struct s = format_header (header s) @ ''\<newline>'' @ fmt_join ''\<newline>'' (map format_marker (marker_data s)) @
     ''\<newline>'' @ fmt_join ''\<newline>'' (map format_hit (hit_data s)) @ ''\<newline>''"

section \<open>Texts that say everything\<close>

lemma digit_char_not_special: "d < 10 \<Longrightarrow> digit_char d \<noteq> CHR '','' \<and> digit_char d \<noteq> CHR '']''"
  using of_digit_char [of d] by auto

lemma format_nat_plain: "c \<in> {CHR '','', CHR '']''} \<Longrightarrow> c \<notin> set (format_nat n)"
  using set_format_nat [of n] digit_char_not_special by fastforce

lemma split_at:
  "c \<notin> set xs \<Longrightarrow> c \<notin> set ys \<Longrightarrow> xs @ c # r = ys @ c # s \<longleftrightarrow> xs = ys \<and> r = s"
proof (induction xs arbitrary: ys)
  case Nil
  then show ?case by (cases ys) auto
next
  case (Cons x xs)
  then show ?case by (cases ys) auto
qed

lemma format_word_inj [simp]: "format_word v = format_word w \<longleftrightarrow> v = w"
  by (simp add: format_word_def format_nat_inj word_unat_eq_iff)

lemma format_word_prefix:
  "c \<in> {CHR '','', CHR '']''} \<Longrightarrow> format_word v @ c # r = format_word w @ c # s \<longleftrightarrow> v = w \<and> r = s"
  using split_at [of c "format_word v" "format_word w" r s] format_nat_plain [of c] format_word_inj [of v w]
  by (simp add: format_word_def)

lemma format_bool_prefix:
  "format_bool a @ CHR '','' # r = format_bool b @ CHR '','' # s \<longleftrightarrow> a = b \<and> r = s"
  by (auto simp: format_bool_def)

lemma format_bits8_inj: "format_bits8 v = format_bits8 w \<longleftrightarrow> v = w"
proof
  assume "format_bits8 v = format_bits8 w"
  then have "\<forall>k \<in> set (rev [0..<8]). (if bit v k then CHR ''1'' else CHR ''0'') = (if bit w k then CHR ''1'' else CHR ''0'')"
    unfolding format_bits8_def by (rule map_eq_conv [THEN iffD1])
  then have "bit v k = bit w k" if "k < 8" for k using that by (auto split: if_splits)
  then show "v = w" by (intro bit_word_eqI) simp
qed simp

lemma format_char_inj: "format_char a = format_char b \<longleftrightarrow> a = b"
  using unsigned_less [of a, where 'a = nat] unsigned_less [of b, where 'a = nat]
  by (auto simp: format_char_def char_of_eq_iff take_bit_nat_eq_self_iff word_unat_eq_iff
      dest!: arg_cong [where f = of_char]) (simp add: take_bit_eq_mod word_unat_eq_iff)

lemma length_format_bits8 [simp]: "length (format_bits8 w) = 8"
  by (simp add: format_bits8_def)

lemma format_marker_inj: "format_marker m = format_marker m' \<longleftrightarrow> m = m'"
  by (cases m; cases m') (simp add: format_marker_def format_word_prefix)

lemma format_hit_inj: "format_hit h = format_hit h' \<longleftrightarrow> h = h'"
  by (cases h; cases h') (auto simp: format_hit_def format_word_prefix format_bool_prefix)

lemma format_header_inj: "format_header h = format_header h' \<longleftrightarrow> h = h'"
  by (cases h; cases h')
    (auto simp: format_header_def format_word_prefix format_char_inj format_bits8_inj split: prod.splits)

text \<open>Lines that begin with a letter the rest does not begin with.\<close>

definition lines_of :: "char \<Rightarrow> string list \<Rightarrow> bool" where
  "lines_of c xs \<longleftrightarrow> (\<forall>x \<in> set xs. x \<noteq> [] \<and> hd x = c \<and> CHR ''\<newline>'' \<notin> set x) \<and> c \<noteq> CHR ''\<newline>''"

lemma lines_of_Cons:
  "lines_of c (x # xs) \<longleftrightarrow> lines_of c xs \<and> (\<exists>y. x = c # y) \<and> CHR ''\<newline>'' \<notin> set x"
  by (cases x) (auto simp: lines_of_def)

lemma lines_prefix:
  assumes "lines_of c xs" "lines_of c ys" "r = [] \<or> hd r \<noteq> c" "s = [] \<or> hd s \<noteq> c"
  shows "concat (map (\<lambda>x. x @ ''\<newline>'') xs) @ r = concat (map (\<lambda>x. x @ ''\<newline>'') ys) @ s \<longleftrightarrow> xs = ys \<and> r = s"
  using assms(1,2)
proof (induction xs arbitrary: ys)
  case Nil
  then show ?case using assms(3,4) by (cases ys) (auto simp: lines_of_Cons)
next
  case (Cons x xs)
  show ?case
  proof (cases ys)
    case Nil
    then show ?thesis using Cons.prems assms(3,4) by (auto simp: lines_of_Cons)
  next
    case (Cons y zs)
    have "CHR ''\<newline>'' \<notin> set x" "CHR ''\<newline>'' \<notin> set y" "lines_of c xs" "lines_of c zs"
      using Cons.prems by (simp_all add: Cons lines_of_Cons)
    then show ?thesis using Cons.IH [of zs] by (simp add: Cons split_at)
  qed
qed

lemma fmt_join_lines:
  "fmt_join ''\<newline>'' xs @ CHR ''\<newline>'' # r =
     (if xs = [] then CHR ''\<newline>'' # r else concat (map (\<lambda>x. x @ ''\<newline>'') xs) @ r)"
  by (induction "''\<newline>''" xs rule: fmt_join.induct) simp_all

lemma fmt_join_prefix:
  assumes "lines_of c xs" "lines_of c ys" "r = [] \<or> hd r \<noteq> c" "s = [] \<or> hd s \<noteq> c"
  shows "fmt_join ''\<newline>'' xs @ CHR ''\<newline>'' # r = fmt_join ''\<newline>'' ys @ CHR ''\<newline>'' # s \<longleftrightarrow> xs = ys \<and> r = s"
proof -
  have "c \<noteq> CHR ''\<newline>''" using assms(1) by (simp add: lines_of_def)
  then show ?thesis using lines_prefix [OF assms] assms(1,2)
    by (cases "xs = []"; cases "ys = []"; simp only: fmt_join_lines) (auto simp: neq_Nil_conv lines_of_Cons)
qed

lemma no_newline:
  "CHR ''\<newline>'' \<notin> set (format_word w)" "CHR ''\<newline>'' \<notin> set (format_bool b)"
proof -
  have "digit_char d \<noteq> CHR ''\<newline>''" if "d < 10" for d using of_digit_char [OF that] by auto
  then show "CHR ''\<newline>'' \<notin> set (format_word w)"
    using set_format_nat [of "unat w"] by (fastforce simp: format_word_def)
qed (simp add: format_bool_def)

lemma element_lines:
  "lines_of (CHR ''M'') (map format_marker ms)" "lines_of (CHR ''H'') (map format_hit hs)"
  by (auto simp: lines_of_def format_marker_def format_hit_def no_newline)

section \<open>Properties\<close>

text \<open>
  The text of a structure says everything about it: two structures with the same text have the
  same header, markers and hits.\<close>

theorem struct_text_unique: "format_struct s = format_struct t \<longleftrightarrow> s = t"
proof
  let ?hits = "\<lambda>x. fmt_join ''\<newline>'' (map format_hit (hit_data x)) @ ''\<newline>''"
  assume eq: "format_struct s = format_struct t"
  obtain h k where hk: "header s = h" "header t = k" by blast
  have "h = k \<and> fmt_join ''\<newline>'' (map format_marker (marker_data s)) @ CHR ''\<newline>'' # ?hits s =
      fmt_join ''\<newline>'' (map format_marker (marker_data t)) @ CHR ''\<newline>'' # ?hits t"
    using eq unfolding format_struct_def hk format_header_def
    by (cases h; cases k)
      (auto simp: format_word_prefix format_char_inj format_bits8_inj split: prod.splits)
  moreover have "?hits x = [] \<or> hd (?hits x) \<noteq> CHR ''M''" for x
    by (cases "hit_data x") (auto simp: format_hit_def fmt_join_lines)
  ultimately have "h = k" "map format_marker (marker_data s) = map format_marker (marker_data t)" "?hits s = ?hits t"
    using fmt_join_prefix [OF element_lines(1) element_lines(1)] by blast+
  moreover from this(3) have "map format_hit (hit_data s) = map format_hit (hit_data t)"
    using fmt_join_prefix [OF element_lines(2) element_lines(2), of "[]" "[]"] by blast
  ultimately show "s = t"
    using inj_map_eq_map [of format_marker] inj_map_eq_map [of format_hit]
    by (cases s; cases t) (use hk in \<open>simp add: inj_def format_marker_inj format_hit_inj\<close>)
qed simp

end
