(* ===== verification/Data_Socket.thy ===== *)
theory Data_Socket
  imports App_Report App_Lifecycle
begin

text \<open>
  The life of the data sockets: \<^verbatim>\<open>connection::DataSocket\<close> (\<^verbatim>\<open>connections/DataSocket\<close>) on
  \<^verbatim>\<open>SpecialSocket\<close> (\<^verbatim>\<open>connections/SpecialSocketBase\<close>), from \<^verbatim>\<open>App::read_data\<close> that makes them
  to \<^verbatim>\<open>App::wait_for_reading_finish\<close> that cancels them. All of them hand their packets to one
  workflow. Receiving, errors, the cancel timer and the calls of the application are the steps
  of one relation; an open socket can receive at any time, so a cancellation does not lose what
  arrives before the listening coroutine ends. The lemmas tie the rows of the report to the
  counters of the workflow.
\<close>

section \<open>The sockets\<close>

text \<open>The listening coroutine: in the loop, out of it, after \<^verbatim>\<open>before_socket_close\<close>, after
  \<^verbatim>\<open>close_socket\<close>. The counters are those of \<^verbatim>\<open>SpecialSocket\<close>. \<open>sk_reported\<close> is a history
  variable: whether the socket has registered its counters.\<close>

datatype listen_state = Ls_listening | Ls_left | Ls_registered | Ls_closed

record data_socket =
  sk_local_endpoint :: string
  sk_buffer_size :: nat
  sk_read_msg_buffer :: LargeBuffer
  sk_has_report :: bool
  sk_listen :: listen_state
  sk_canceller :: canceller
  sk_n_records :: nat
  sk_n_bytes :: nat
  sk_total_time_ns :: nat
  sk_reported :: bool

definition mk_DataSocket :: "string \<Rightarrow> nat \<Rightarrow> data_socket" where
  "mk_DataSocket local_endpoint bsize = \<lparr>sk_local_endpoint = local_endpoint, sk_buffer_size = bsize,
     sk_read_msg_buffer = mk_LargeBuffer bsize, sk_has_report = False, sk_listen = Ls_listening,
     sk_canceller = Cc_start, sk_n_records = 0, sk_n_bytes = 0, sk_total_time_ns = 0, sk_reported = False\<rparr>"

text \<open>The sockets, the workflow they feed, the report, and the packets as read (newest first).\<close>

record 'q reading =
  rd_sockets :: "data_socket list"
  rd_queue :: "'q BufferQueue"
  rd_counters :: analysis_counters
  rd_report :: AppReport
  rd_packets :: "(nat \<times> bytes) list"

text \<open>A round of the loop that received a packet; the handler takes \<open>dt\<close> nanoseconds.\<close>

definition sk_receive :: "'q cqueue \<Rightarrow> bytes \<Rightarrow> nat \<Rightarrow> nat \<Rightarrow> 'q reading \<Rightarrow> 'q reading" where
  "sk_receive c packet dt k s =
     (let sk = rd_sockets s ! k;
          (receive_size, b) = receive_into packet (sk_read_msg_buffer sk);
          (b, q, a) = ds_response_handler c (sk_buffer_size sk) receive_size b (rd_queue s) (rd_counters s);
          sk = sk\<lparr>sk_read_msg_buffer := b\<rparr>;
          sk = sk\<lparr>sk_n_records := sk_n_records sk + 1\<rparr>;
          sk = sk\<lparr>sk_n_bytes := sk_n_bytes sk + receive_size\<rparr>;
          sk = sk\<lparr>sk_total_time_ns := sk_total_time_ns sk + dt\<rparr>
      in s\<lparr>rd_sockets := (rd_sockets s)[k := sk], rd_queue := q, rd_counters := a,
           rd_packets := (k, take receive_size packet) # rd_packets s\<rparr>)"

definition upd_socket :: "nat \<Rightarrow> (data_socket \<Rightarrow> data_socket) \<Rightarrow> 'q reading \<Rightarrow> 'q reading" where
  "upd_socket k f s = s\<lparr>rd_sockets := (rd_sockets s)[k := f (rd_sockets s ! k)]\<rparr>"

text \<open>\<^verbatim>\<open>before_socket_close\<close>; the endpoint is asked for while the socket is open.\<close>

definition before_socket_close :: "nat \<Rightarrow> 'q reading \<Rightarrow> 'q reading" where
  "before_socket_close k s =
     (let sk = rd_sockets s ! k;
          report = (if sk_has_report sk then Some (rd_report s) else None);
          report = data_socket_register (sk_local_endpoint sk) (sk_n_records sk) (sk_n_bytes sk) (sk_total_time_ns sk) report
      in upd_socket k (\<lambda>sk. sk\<lparr>sk_listen := Ls_registered, sk_reported := sk_has_report sk\<rparr>)
           (case report of None \<Rightarrow> s | Some r \<Rightarrow> s\<lparr>rd_report := r\<rparr>))"

text \<open>\<^verbatim>\<open>timer.cancel()\<close> wakes a coroutine that waits on the timer; \<^verbatim>\<open>operator||\<close> then makes the
  receive of the listening coroutine end with an error.\<close>

definition cancel_timer :: "data_socket \<Rightarrow> data_socket" where
  "cancel_timer sk = (if sk_canceller sk = Cc_waiting then sk\<lparr>sk_canceller := Cc_woken\<rparr> else sk)"

text \<open>The end of the coroutine; with it \<^verbatim>\<open>operator||\<close> ends the other one too.\<close>

definition close_socket :: "data_socket \<Rightarrow> data_socket" where
  "close_socket sk = cancel_timer (sk\<lparr>sk_listen := Ls_closed\<rparr>)"

text \<open>What waiting for the listening coroutine gives, by what it has reached in that time.\<close>

definition wait_for_listen_finish :: "bool \<Rightarrow> data_socket \<Rightarrow> future_status option" where
  "wait_for_listen_finish is_valid sk =
     (if \<not> is_valid then None else Some (if sk_listen sk = Ls_closed then ready else timeout))"

inductive rd_step :: "'q cqueue \<Rightarrow> 'q reading \<Rightarrow> 'q reading \<Rightarrow> bool" for c where
  rd_receive: "k < length (rd_sockets s) \<Longrightarrow> sk_listen (rd_sockets s ! k) = Ls_listening \<Longrightarrow>
    rd_step c s (sk_receive c packet dt k s)"
| rd_error: "k < length (rd_sockets s) \<Longrightarrow> sk_listen (rd_sockets s ! k) = Ls_listening \<Longrightarrow>
    rd_step c s (upd_socket k (\<lambda>sk. sk\<lparr>sk_listen := Ls_left\<rparr>) s)"
| rd_aborted: "k < length (rd_sockets s) \<Longrightarrow> sk_listen (rd_sockets s ! k) = Ls_listening \<Longrightarrow>
    sk_canceller (rd_sockets s ! k) = Cc_woken \<Longrightarrow>
    rd_step c s (upd_socket k (\<lambda>sk. sk\<lparr>sk_listen := Ls_left\<rparr>) s)"
| rd_register: "k < length (rd_sockets s) \<Longrightarrow> sk_listen (rd_sockets s ! k) = Ls_left \<Longrightarrow>
    rd_step c s (before_socket_close k s)"
| rd_close: "k < length (rd_sockets s) \<Longrightarrow> sk_listen (rd_sockets s ! k) = Ls_registered \<Longrightarrow>
    rd_step c s (upd_socket k close_socket s)"
| rd_wait_cancel: "k < length (rd_sockets s) \<Longrightarrow> sk_canceller (rd_sockets s ! k) = Cc_start \<Longrightarrow>
    rd_step c s (upd_socket k (\<lambda>sk. sk\<lparr>sk_canceller := Cc_waiting\<rparr>) s)"
| rd_cancel: "k < length (rd_sockets s) \<Longrightarrow> rd_step c s (upd_socket k cancel_timer s)"
| rd_set_report: "k < length (rd_sockets s) \<Longrightarrow>
    rd_step c s (upd_socket k (\<lambda>sk. sk\<lparr>sk_has_report := True\<rparr>) s)"
| rd_workflow: "rd_step c s (s\<lparr>rd_queue := q\<rparr>)"

definition rd_start :: "string list \<Rightarrow> nat \<Rightarrow> 'q BufferQueue \<Rightarrow> AppReport \<Rightarrow> 'q reading" where
  "rd_start endpoints bsize q report = \<lparr>rd_sockets = map (\<lambda>e. mk_DataSocket e bsize) endpoints, rd_queue = q,
     rd_counters = \<lparr>total_read_data_bytes = 0, total_drop_data_bytes = 0, total_frame_counts = 0\<rparr>,
     rd_report = report, rd_packets = []\<rparr>"

section \<open>What the steps keep\<close>

definition packets_of :: "nat \<Rightarrow> (nat \<times> bytes) list \<Rightarrow> bytes list" where
  "packets_of k ps = map snd (filter (\<lambda>p. fst p = k) ps)"

text \<open>The row of a socket.\<close>

definition sk_stat :: "data_socket \<Rightarrow> string \<times> FrameReadingStat" where
  "sk_stat sk = (sk_local_endpoint sk, \<lparr>n_frames = sk_n_records sk, stat_time_ns = sk_total_time_ns sk,
     total_bytes_read = sk_n_bytes sk\<rparr>)"

definition sk_rows :: "data_socket \<Rightarrow> (string \<times> FrameReadingStat) list" where
  "sk_rows sk = (if sk_reported sk then [sk_stat sk] else [])"

definition sk_counts :: "string \<Rightarrow> bytes list \<Rightarrow> data_socket \<Rightarrow> bool" where
  "sk_counts e ps sk \<longleftrightarrow> sk_local_endpoint sk = e \<and> sk_n_records sk = length ps \<and> sk_n_bytes sk = lens ps \<and>
     (sk_listen sk \<in> {Ls_listening, Ls_left} \<longrightarrow> \<not> sk_reported sk)"

definition rd_inv :: "string list \<Rightarrow> AppReport \<Rightarrow> 'q reading \<Rightarrow> bool" where
  "rd_inv endpoints report0 s \<longleftrightarrow> length (rd_sockets s) = length endpoints \<and>
     (\<forall>k < length endpoints. sk_counts (endpoints ! k) (packets_of k (rd_packets s)) (rd_sockets s ! k)) \<and>
     total_frame_counts (rd_counters s) = sum_list (map sk_n_records (rd_sockets s)) \<and>
     total_read_data_bytes (rd_counters s) = sum_list (map sk_n_bytes (rd_sockets s)) \<and>
     (\<exists>rows. frame_reading_records (rd_report s) = frame_reading_records report0 @ rows \<and>
        mset rows = mset (concat (map sk_rows (rd_sockets s))))"

text \<open>A step that leaves the counters and the row of a socket.\<close>

lemma rd_inv_upd:
  assumes "rd_inv endpoints r0 s" "k < length (rd_sockets s)"
    and "\<And>e ps. sk_counts e ps (rd_sockets s ! k) \<Longrightarrow> sk_counts e ps (f (rd_sockets s ! k))"
    and "sk_rows (f (rd_sockets s ! k)) = sk_rows (rd_sockets s ! k)"
    and "sk_n_records (f (rd_sockets s ! k)) = sk_n_records (rd_sockets s ! k)"
    "sk_n_bytes (f (rd_sockets s ! k)) = sk_n_bytes (rd_sockets s ! k)"
  shows "rd_inv endpoints r0 (upd_socket k f s)"
  using assms(1-3) mset_concat_update [OF assms(2), of sk_rows "f (rd_sockets s ! k)"]
    sum_list_map_update [OF assms(2), of sk_n_records "f (rd_sockets s ! k)"]
    sum_list_map_update [OF assms(2), of sk_n_bytes "f (rd_sockets s ! k)"]
  unfolding rd_inv_def upd_socket_def assms(4-6)
  by (auto simp: nth_list_update)

lemma handler_counts:
  assumes "ds_response_handler c full n b q a = (b', q', a')"
  shows "total_frame_counts a' = total_frame_counts a + 1" "total_read_data_bytes a' = total_read_data_bytes a + n"
  using assms by (auto simp: ds_response_handler_def read_data_once_def Let_def split: prod.splits if_splits)

lemma packets_of_Cons: "packets_of j ((k, p) # ps) = (if k = j then p # packets_of j ps else packets_of j ps)"
  by (simp add: packets_of_def)

lemma rd_inv_receive:
  assumes "rd_inv endpoints r0 s" "k < length (rd_sockets s)" "sk_listen (rd_sockets s ! k) = Ls_listening"
  shows "rd_inv endpoints r0 (sk_receive c packet dt k s)"
proof -
  let ?sk = "rd_sockets s ! k"
  obtain n b where r: "receive_into packet (sk_read_msg_buffer ?sk) = (n, b)" by fastforce
  obtain b' q' a' where h: "ds_response_handler c (sk_buffer_size ?sk) n b (rd_queue s) (rd_counters s) = (b', q', a')"
    using prod_cases3 by blast
  define sk' where "sk' = ?sk\<lparr>sk_read_msg_buffer := b', sk_n_records := sk_n_records ?sk + 1,
    sk_n_bytes := sk_n_bytes ?sk + n, sk_total_time_ns := sk_total_time_ns ?sk + dt\<rparr>"
  have eq: "sk_receive c packet dt k s = s\<lparr>rd_sockets := (rd_sockets s)[k := sk'], rd_queue := q', rd_counters := a',
      rd_packets := (k, take n packet) # rd_packets s\<rparr>"
    by (simp add: sk_receive_def r h sk'_def Let_def)
  have n: "length (take n packet) = n" using r by (auto simp: receive_into_def Let_def)
  have k: "k < length endpoints" using assms(1,2) by (simp add: rd_inv_def)
  have "\<not> sk_reported ?sk" using assms(1,3) k by (simp add: rd_inv_def sk_counts_def)
  then have rows: "sk_rows sk' = sk_rows ?sk" by (simp add: sk_rows_def sk'_def)
  have fields: "sk_n_records sk' = sk_n_records ?sk + 1" "sk_n_bytes sk' = sk_n_bytes ?sk + n" by (simp_all add: sk'_def)
  have "sk_counts (endpoints ! k) (take n packet # packets_of k (rd_packets s)) sk'"
    using assms(1) k n by (simp add: rd_inv_def sk_counts_def sk'_def)
  then show ?thesis
    using assms(1) mset_concat_update [OF assms(2), of sk_rows sk'] handler_counts [OF h]
      sum_list_map_update [OF assms(2), of sk_n_records sk'] sum_list_map_update [OF assms(2), of sk_n_bytes sk']
    unfolding eq rd_inv_def rows fields
    by (simp add: nth_list_update packets_of_Cons)
qed

lemma rd_inv_register:
  assumes "rd_inv endpoints r0 s" "k < length (rd_sockets s)" "sk_listen (rd_sockets s ! k) = Ls_left"
  shows "rd_inv endpoints r0 (before_socket_close k s)"
proof -
  let ?sk = "rd_sockets s ! k"
  let ?sk' = "?sk\<lparr>sk_listen := Ls_registered, sk_reported := sk_has_report ?sk\<rparr>"
  have k: "k < length endpoints" using assms(1,2) by (simp add: rd_inv_def)
  have "\<not> sk_reported ?sk" using assms(1,3) k by (simp add: rd_inv_def sk_counts_def)
  then have rows: "sk_rows ?sk = []" "sk_rows ?sk' = (if sk_has_report ?sk then [sk_stat ?sk] else [])"
    by (simp_all add: sk_rows_def sk_stat_def)
  have eq: "before_socket_close k s = s\<lparr>rd_report := (if sk_has_report ?sk
      then register_frame_reading_result (fst (sk_stat ?sk)) (snd (sk_stat ?sk)) (rd_report s) else rd_report s),
      rd_sockets := (rd_sockets s)[k := ?sk']\<rparr>"
    by (simp add: before_socket_close_def data_socket_register_def upd_socket_def sk_stat_def Let_def)
  have "mset (concat (map sk_rows ((rd_sockets s)[k := ?sk']))) = mset (concat (map sk_rows (rd_sockets s))) + mset (sk_rows ?sk')"
    using mset_concat_update [OF assms(2), of sk_rows ?sk'] by (simp add: rows(1))
  moreover obtain rs where "frame_reading_records (rd_report s) = frame_reading_records r0 @ rs"
    "mset rs = mset (concat (map sk_rows (rd_sockets s)))" using assms(1) by (auto simp: rd_inv_def)
  ultimately have "frame_reading_records (rd_report (before_socket_close k s)) = frame_reading_records r0 @ rs @ sk_rows ?sk' \<and>
      mset (rs @ sk_rows ?sk') = mset (concat (map sk_rows (rd_sockets (before_socket_close k s))))"
    by (simp add: eq rows(2) register_frame_reading_result_def)
  then have "\<exists>rows. frame_reading_records (rd_report (before_socket_close k s)) = frame_reading_records r0 @ rows \<and>
      mset rows = mset (concat (map sk_rows (rd_sockets (before_socket_close k s))))" by blast
  moreover have "map g (rd_sockets (before_socket_close k s)) = map g (rd_sockets s)"
    if "g ?sk' = g ?sk" for g :: "data_socket \<Rightarrow> nat"
    using that assms(2) by (simp add: eq map_update list_update_same_conv)
  ultimately show ?thesis using assms(1) k
    by (simp add: rd_inv_def) (simp add: eq nth_list_update sk_counts_def)
qed

lemma rd_inv_step: "rd_inv endpoints r0 s \<Longrightarrow> rd_step c s t \<Longrightarrow> rd_inv endpoints r0 t"
proof (erule rd_step.cases, goal_cases)
  case (1 s k packet dt)
  then show ?case by (simp add: rd_inv_receive)
next
  case (4 s k)
  then show ?case by (simp add: rd_inv_register)
next
  case (9 s q)
  then show ?case by (simp add: rd_inv_def)
qed (auto intro!: rd_inv_upd simp: sk_counts_def sk_rows_def sk_stat_def cancel_timer_def close_socket_def)

lemma rd_inv_start: "rd_inv endpoints r0 (rd_start endpoints bsize q r0)"
  by (simp add: rd_inv_def rd_start_def sk_counts_def mk_DataSocket_def packets_of_def sk_rows_def map_replicate_const
      concat_map_singleton comp_def)

interpretation reading: invariant_system "\<lambda>s. s = rd_start endpoints bsize q r0" "rd_step c" "rd_inv endpoints r0"
  for endpoints bsize q r0 c
  by unfold_locales (auto simp: rd_inv_start intro: rd_inv_step)


section \<open>Cancelling\<close>

text \<open>A socket whose listening coroutine was cancelled comes to its end with no packet more;
  before the coroutine waits on the timer a cancellation does nothing at all.\<close>

lemma cancel_before_wait: "sk_canceller (rd_sockets s ! k) = Cc_start \<Longrightarrow> upd_socket k cancel_timer s = s"
  by (simp add: upd_socket_def cancel_timer_def)

definition closing_size :: "nat \<Rightarrow> 'q reading \<Rightarrow> nat" where
  "closing_size k s = (case sk_listen (rd_sockets s ! k) of
     Ls_listening \<Rightarrow> 3 | Ls_left \<Rightarrow> 2 | Ls_registered \<Rightarrow> 1 | Ls_closed \<Rightarrow> 0)"

interpretation closing: terminating_system "rd_step c"
  "\<lambda>s. k < length (rd_sockets s) \<and> (sk_canceller (rd_sockets s ! k) = Cc_woken \<or> sk_listen (rd_sockets s ! k) \<noteq> Ls_listening) \<and>
     rd_counters s = a \<and> rd_packets s = ps"
  "\<lambda>s. sk_listen (rd_sockets s ! k) = Ls_closed" "closing_size k" for c :: "'q cqueue" and k a ps
proof (unfold_locales, elim conjE)
  fix s :: "'q reading"
  assume s: "k < length (rd_sockets s)" "sk_canceller (rd_sockets s ! k) = Cc_woken \<or> sk_listen (rd_sockets s ! k) \<noteq> Ls_listening"
    "rd_counters s = a" "rd_packets s = ps" "sk_listen (rd_sockets s ! k) \<noteq> Ls_closed"
  let ?inv = "\<lambda>t. k < length (rd_sockets t) \<and>
    (sk_canceller (rd_sockets t ! k) = Cc_woken \<or> sk_listen (rd_sockets t ! k) \<noteq> Ls_listening) \<and> rd_counters t = a \<and> rd_packets t = ps"
  have "\<exists>t. rd_step c s t \<and> ?inv t \<and> closing_size k t < closing_size k s"
  proof (cases "sk_listen (rd_sockets s ! k)")
    case Ls_listening
    then show ?thesis using rd_aborted [of k s c] s
      by (intro exI [of _ "upd_socket k (\<lambda>sk. sk\<lparr>sk_listen := Ls_left\<rparr>) s"])
        (simp add: upd_socket_def closing_size_def)
  next
    case Ls_left
    then show ?thesis using rd_register [of k s c] s
      by (intro exI [of _ "before_socket_close k s"])
        (simp add: before_socket_close_def upd_socket_def closing_size_def Let_def split: option.split)
  next
    case Ls_registered
    then show ?thesis using rd_close [of k s c] s
      by (intro exI [of _ "upd_socket k close_socket s"])
        (simp add: upd_socket_def closing_size_def cancel_timer_def close_socket_def)
  qed (use s in simp)
  then show "\<exists>t. steps (rd_step c) s t \<and> ?inv t \<and> closing_size k t < closing_size k s"
    by (blast intro: steps_one)
qed

text \<open>
  Cancelling a data socket: once its coroutine waits on the timer, a cancelled socket can
  always end, without reading another packet; a call of \<^verbatim>\<open>cancel\<close> before that is lost.\<close>

theorem data_socket_cancel:
  assumes "k < length (rd_sockets s)"
  shows "(sk_canceller (rd_sockets s ! k) = Cc_start \<longrightarrow> upd_socket k cancel_timer s = s) \<and>
    (sk_canceller (rd_sockets s ! k) = Cc_waiting \<longrightarrow> (\<exists>t. steps (rd_step c) (upd_socket k cancel_timer s) t \<and>
       wait_for_listen_finish True (rd_sockets t ! k) = Some ready \<and> rd_packets t = rd_packets s))"
proof (intro conjI impI)
  assume "sk_canceller (rd_sockets s ! k) = Cc_waiting"
  then have "sk_canceller (rd_sockets (upd_socket k cancel_timer s) ! k) = Cc_woken" "k < length (rd_sockets (upd_socket k cancel_timer s))"
    "rd_packets (upd_socket k cancel_timer s) = rd_packets s"
    using assms by (simp_all add: upd_socket_def cancel_timer_def)
  then show "\<exists>t. steps (rd_step c) (upd_socket k cancel_timer s) t \<and>
       wait_for_listen_finish True (rd_sockets t ! k) = Some ready \<and> rd_packets t = rd_packets s"
    using closing.reaches_goal [of k "upd_socket k cancel_timer s" _ "rd_packets s" c]
    by (auto simp: wait_for_listen_finish_def)
qed (rule cancel_before_wait)

section \<open>Properties\<close>



end
