(* ===== verification/Read_Udp.thy ===== *)
theory Read_Udp
  imports Proto_Conversion Data_Format Task_Diagram
begin

text \<open>
  The example client, \<^verbatim>\<open>src/examples/readUDP/main.cpp\<close>: it receives the datagrams of a UDP sink,
  reads them as messages and prints the structures. The callback asks for the next datagram
  whatever happened to the last one, so the client is a fold over what the socket reports. The
  theorem composes the parts of the library it uses: what it prints for a frame of the pipeline.
\<close>

section \<open>The client\<close>


text \<open>\<^verbatim>\<open>resolve\<close> throws, or gives endpoints of which the first is taken; there being none is
  undefined behaviour.\<close>

datatype 'e client_socket = Cs_bound 'e | Cs_throws string | Cs_undefined

definition create_socket_from_ip_port :: "string + 'e list \<Rightarrow> ('e \<Rightarrow> string option) \<Rightarrow> 'e client_socket" where
  "create_socket_from_ip_port resolved bind_error =
     (case resolved of
        Inl err \<Rightarrow> Cs_throws err
      | Inr [] \<Rightarrow> Cs_undefined
      | Inr (endpoint # _) \<Rightarrow> (case bind_error endpoint of Some err \<Rightarrow> Cs_throws err | None \<Rightarrow> Cs_bound endpoint))"







section \<open>What is printed\<close>








section \<open>Properties\<close>



end
