(* ===== verification/Fec_Report.thy ===== *)
theory Fec_Report
  imports Fec_Socket Data_Format
begin

text \<open>
  What the command socket tells of the commands that were not answered
  (\<^verbatim>\<open>FecCommandSocket::print_error\<close> and \<^verbatim>\<open>print_available_responses\<close> of
  \<^verbatim>\<open>connections/FecSwitchSocket.cpp\<close>). The text of an endpoint is a parameter. The theorem gives
  the whole text of the TIMEOUT error after any run of the socket.
\<close>

section \<open>The texts\<close>

definition hex_digit :: "nat \<Rightarrow> char" where
  "hex_digit d = ''0123456789abcdef'' ! d"

text \<open>\<^verbatim>\<open>{:02x}\<close> of a character.\<close>

definition format_hex02 :: "byte \<Rightarrow> string" where
  "format_hex02 b = [hex_digit (unat b div 16), hex_digit (unat b mod 16)]"

definition join_bytes :: "bytes \<Rightarrow> string" where
  "join_bytes bs = fmt_join '' '' (map format_hex02 bs)"

definition new_line :: string where "new_line = [CHR 0x0A, CHR 0x09]"

definition print_connections :: "'e CommandBase list \<Rightarrow> nat list \<Rightarrow> string" where
  "print_connections commands connections =
     fmt_join new_line (map (\<lambda>c. join_bytes (get_response_msg (commands ! c))) connections)"

definition available_responses :: "'e FecCommandSocket \<Rightarrow> string" where
  "available_responses s = ''Available responses are:'' @ new_line @
     fmt_join new_line (map (print_connections (fs_commands s)) (filter (\<lambda>connections. connections \<noteq> []) (map snd (all_connections s))))"

definition endpoint_block :: "('e \<Rightarrow> string) \<Rightarrow> 'e \<Rightarrow> string \<Rightarrow> string" where
  "endpoint_block format_endpoint e responses = ''Remote endpoint:'' @ [CHR 0x09] @ format_endpoint e @ new_line @
     ''Expected Response:'' @ [CHR 0x09] @ responses"

definition print_error :: "('e \<Rightarrow> string) \<Rightarrow> nat \<Rightarrow> 'e FecCommandSocket \<Rightarrow> string" where
  "print_error format_endpoint port s = ''TIMEOUT from local port '' @ format_nat port @
     '' waiting for the response(s):'' @ new_line @
     fmt_join new_line (map (\<lambda>(e, connections). endpoint_block format_endpoint e (print_connections (fs_commands s) connections))
       (filter (\<lambda>(e, connections). connections \<noteq> []) (all_connections s)))"

section \<open>What waits\<close>

lemma response_bytes_not_empty: "response_bytes cl \<noteq> []"
  by (simp add: response_bytes_def)

lemma expected_response:
  assumes "fs_inv cl eps rs s" "c \<in> set (waiting s e)"
  shows "get_response_msg (fs_commands s ! c) = response_bytes cl"
proof -
  have "check_response (fs_commands s ! c) r \<longleftrightarrow> r = response_bytes cl" for r
    using assms by (auto simp: fs_inv_def)
  then show ?thesis using response_bytes_not_empty [of cl]
    by (metis check_response_def get_response_msg_def list.discI)
qed

lemma print_connections_waiting:
  assumes "fs_inv cl eps rs s"
  shows "print_connections (fs_commands s) (waiting s e) =
    fmt_join new_line (replicate (count_list eps e - count_list rs (e, response_bytes cl)) (join_bytes (response_bytes cl)))"
proof -
  have "map (\<lambda>c. join_bytes (get_response_msg (fs_commands s ! c))) (waiting s e) =
      replicate (length (waiting s e)) (join_bytes (response_bytes cl))"
    using expected_response [OF assms, of _ e] by (intro replicate_eqI) auto
  then show ?thesis using assms by (simp add: print_connections_def fs_inv_def)
qed

text \<open>The endpoints with commands that wait, in the order of the map.\<close>

definition unanswered :: "'e FecCommandSocket \<Rightarrow> 'e list" where
  "unanswered s = map fst (filter (\<lambda>(e, connections). connections \<noteq> []) (all_connections s))"

lemma unanswered_set:
  assumes "fs_inv cl eps rs s"
  shows "distinct (unanswered s) \<and> set (unanswered s) = {e. count_list rs (e, response_bytes cl) < count_list eps e}"
proof -
  have ok: "distinct (map fst (all_connections s))" using assms by (simp add: fs_inv_def connections_ok_def)
  have "e \<in> set (unanswered s) \<longleftrightarrow> waiting s e \<noteq> []" for e
  proof -
    have "e \<in> set (unanswered s) \<longleftrightarrow> (\<exists>cs. (e, cs) \<in> set (all_connections s) \<and> cs \<noteq> [])"
      by (force simp: unanswered_def)
    also have "\<dots> \<longleftrightarrow> (\<exists>cs. map_of (all_connections s) e = Some cs \<and> cs \<noteq> [])"
      using ok by simp
    finally show ?thesis by (auto simp: waiting_def split: option.splits)
  qed
  moreover have "waiting s e \<noteq> [] \<longleftrightarrow> count_list rs (e, response_bytes cl) < count_list eps e" for e
  proof -
    have "length (waiting s e) = count_list eps e - count_list rs (e, response_bytes cl)"
      using assms by (simp add: fs_inv_def)
    then show ?thesis by (metis length_0_conv zero_less_diff neq0_conv)
  qed
  moreover have "distinct (unanswered s)"
    unfolding unanswered_def by (rule distinct_map_filter [OF ok])
  ultimately show ?thesis by blast
qed

lemma print_error_unanswered:
  assumes "fs_inv cl eps rs s"
  shows "print_error f port s = ''TIMEOUT from local port '' @ format_nat port @ '' waiting for the response(s):'' @ new_line @
    fmt_join new_line (map (\<lambda>e. endpoint_block f e (print_connections (fs_commands s) (waiting s e))) (unanswered s))"
proof -
  have "distinct (map fst (all_connections s))" using assms by (simp add: fs_inv_def connections_ok_def)
  then have "waiting s e = cs" if "(e, cs) \<in> set (all_connections s)" for e cs
    using that by (simp add: waiting_def)
  then have "map (\<lambda>(e, cs). endpoint_block f e (print_connections (fs_commands s) cs)) (filter (\<lambda>(e, cs). cs \<noteq> []) (all_connections s)) =
      map (\<lambda>e. endpoint_block f e (print_connections (fs_commands s) (waiting s e))) (unanswered s)"
    by (auto simp: unanswered_def)
  then show ?thesis by (simp add: print_error_def)
qed

section \<open>Properties\<close>

text \<open>
  The TIMEOUT error says exactly what is missing: after any run of the socket it has one
  block for each endpoint that has sent fewer correct responses than it was sent commands, no
  other and none twice, and the block repeats the expected response, in hexadecimal, as often as
  it is missing.\<close>

theorem timeout_message_exact:
  assumes "zpp_documented z"
    "steps sw_step (sw_start (switch_FECs z cl name ne eps mk_FecCommandSocket)) s"
  shows "\<exists>es. distinct es \<and> set es = {e. count_list (sw_received s) (e, response_bytes cl) < count_list eps e} \<and>
    print_error f port (sw_socket s) =
      ''TIMEOUT from local port '' @ format_nat port @ '' waiting for the response(s):'' @ new_line @
      fmt_join new_line (map (\<lambda>e. endpoint_block f e (fmt_join new_line
        (replicate (count_list eps e - count_list (sw_received s) (e, response_bytes cl)) (join_bytes (response_bytes cl))))) es)"
proof -
  have inv: "fs_inv cl eps (sw_received s) (sw_socket s)"
    using sw_inv_steps [OF assms] by (simp add: sw_inv_def)
  show ?thesis
    using unanswered_set [OF inv] print_error_unanswered [OF inv, of f port] print_connections_waiting [OF inv]
    by (intro exI [of _ "unanswered (sw_socket s)"]) simp
qed

lemma timeout_message_exact_witness:
  "print_error (\<lambda>_ :: nat. ''fec'') 6007 (switch_FECs zpp_ref Starter ''Starter'' 0 [1] mk_FecCommandSocket) =
     ''TIMEOUT from local port '' @ format_nat 6007 @ '' waiting for the response(s):'' @ new_line @
     endpoint_block (\<lambda>_ :: nat. ''fec'') 1 (join_bytes (response_bytes Starter))"
proof -
  obtain es where es: "distinct es" "set es = {e. 0 < count_list [1 :: nat] e}"
    "print_error (\<lambda>_ :: nat. ''fec'') 6007 (switch_FECs zpp_ref Starter ''Starter'' 0 [1] mk_FecCommandSocket) =
      ''TIMEOUT from local port '' @ format_nat 6007 @ '' waiting for the response(s):'' @ new_line @
      fmt_join new_line (map (\<lambda>e. endpoint_block (\<lambda>_ :: nat. ''fec'') e (fmt_join new_line
        (replicate (count_list [1] e) (join_bytes (response_bytes Starter))))) es)"
    using timeout_message_exact [OF zpp_ref_documented steps_refl, of Starter "''Starter''" "0 :: nat" "[1]" "\<lambda>_. ''fec''" 6007]
    by (auto simp: sw_start_def)
  have "set es = {1}" using es(2) by (auto split: if_splits)
  then obtain xs where xs: "es = 1 # xs" "set xs \<subseteq> {1}" by (cases es) auto
  then have "xs = []" using es(1) by (cases xs) auto
  then have "es = [1]" using xs(1) by simp
  moreover have "replicate (count_list [1 :: nat] 1) x = [x]" for x :: string by simp
  ultimately show ?thesis using es(3) by (simp only: list.map fmt_join.simps)
qed

end
