(* ===== verification/Check_Program.thy ===== *)
theory Check_Program
  imports Command_Line Log_Check
begin

text \<open>
  \<^verbatim>\<open>srs_check.cpp\<close> from the command line: the file that is checked and what the exit status
  says. As in \<^verbatim>\<open>Command_Line\<close>, reading the arguments is the library's; what it returns for an
  error is not used by this program.
\<close>

record check_args =
  arg_file :: "string option"
  arg_show_last_log :: bool

definition check_program ::
  "('argv, check_args) cli \<Rightarrow> ctre \<Rightarrow> (string \<Rightarrow> string option) \<Rightarrow> (string \<Rightarrow> string option) \<Rightarrow> 'argv \<Rightarrow>
     check_result option" where
  "check_program cli m getenv open_file argv =
     (case get_default_log_path getenv of
        None \<Rightarrow> None
      | Some default_log_filename \<Rightarrow>
          (case cli_read cli default_log_filename argv of
             Inl err \<Rightarrow> Some (Exit_with 0 [err])
           | Inr a \<Rightarrow>
               let filename = (case arg_file a of None \<Rightarrow> default_log_filename | Some f \<Rightarrow> f)
               in Some (check_main m open_file filename (arg_show_last_log a))))"

text \<open>The log that is checked: the text of the chosen file, after the last start in it.\<close>

definition checked_log :: "(string \<Rightarrow> string option) \<Rightarrow> string \<Rightarrow> string list option" where
  "checked_log open_file filename = map_option (\<lambda>s. last_instance (text_lines s)) (open_file filename)"

definition unbalanced :: "ctre \<Rightarrow> string list \<Rightarrow> bool" where
  "unbalanced m lines \<longleftrightarrow> (\<exists>k. scopes_begun m k lines \<noteq> scopes_ended m k lines)"

text \<open>What the main function does with a file, by the cases of its inputs.\<close>

lemma check_main_status:
  "\<exists>code printed. check_main m open_file filename show_log = Exit_with code printed \<and>
     code = (if \<not> show_log \<and> (\<exists>lines. checked_log open_file filename = Some lines \<and> unbalanced m lines) then 1 else 0)"
proof (cases "open_file filename")
  case None
  then show ?thesis by (simp add: check_main_def mk_LogFile_def checked_log_def)
next
  case (Some s)
  obtain f g where f: "mk_LogFile (Some s) = Inr f" "lf_read f = Some g"
      "lf_lines g = last_instance (text_lines s)" "call_map g = []"
    using new_log_read by blast
  let ?a = "lf_analysis m g"
  have d: "distinct (map fst (call_map ?a))" using f(4) by (simp add: lf_analysis_def analysed(2))
  have "call_count (call_map ?a) k = int (scopes_begun m k (last_instance (text_lines s))) -
      int (scopes_ended m k (last_instance (text_lines s)))" for k
    using f by (simp add: lf_analysis_def analysed(1) call_count_def [of "[]"])
  then show ?thesis using summarised [OF d] Some f
    by (auto simp: check_main_def checked_log_def unbalanced_def split: prod.split)
qed

section \<open>Properties\<close>

text \<open>
  What the exit status of \<^verbatim>\<open>srs_check\<close> says: with \<^verbatim>\<open>HOME\<close> set the program always ends, and
  it fails exactly when its arguments can be read, the log is not only shown, the chosen file (or
  the default log) can be opened, and the last run in it has left or entered a scope more often
  than the other. A wrong argument and a missing file are successes.\<close>

theorem check_exit_status:
  assumes "getenv ''HOME'' \<noteq> None"
  shows "\<exists>default code printed. get_default_log_path getenv = Some default \<and>
    check_program cli m getenv open_file argv = Some (Exit_with code printed) \<and>
    code = (if \<exists>a lines. cli_read cli default argv = Inr a \<and> \<not> arg_show_last_log a \<and>
        checked_log open_file (case arg_file a of None \<Rightarrow> default | Some f \<Rightarrow> f) = Some lines \<and> unbalanced m lines
      then 1 else 0)"
proof -
  obtain default where default: "get_default_log_path getenv = Some default"
    using assms by (cases "getenv ''XDG_STATE_HOME''") (auto simp: get_default_log_path_def)
  show ?thesis
  proof (cases "cli_read cli default argv")
    case (Inl e)
    then show ?thesis using default by (simp add: check_program_def)
  next
    case (Inr a)
    then show ?thesis using default check_main_status [of m open_file _ "arg_show_last_log a"]
      by (simp add: check_program_def Let_def)
  qed
qed

definition sample_check_cli :: "(string list, check_args) cli" where
  "sample_check_cli = \<lparr>cli_read = (\<lambda>_ argv. case argv of [] \<Rightarrow> Inr \<lparr>arg_file = None, arg_show_last_log = False\<rparr>
     | f # _ \<Rightarrow> Inr \<lparr>arg_file = Some f, arg_show_last_log = False\<rparr>), cli_transform = (\<lambda>_ _. None), cli_exit = (\<lambda>_. 1)\<rparr>"

lemma check_exit_status_witness:
  "\<exists>printed. check_program sample_check_cli ctre_ref (\<lambda>_. Some ''/root'') (\<lambda>_. None) [''a.log''] = Some (Exit_with 0 printed)"
  using check_exit_status [of "\<lambda>_. Some ''/root''" sample_check_cli ctre_ref "\<lambda>_. None" "[''a.log'']"]
  by (simp add: checked_log_def)

end
