(* ===== verification/Control_Port.thy ===== *)
theory Control_Port
  imports Fec_Socket
begin

text \<open>
  Two switchings on one control port. \<^verbatim>\<open>App::switch_on\<close> and \<^verbatim>\<open>App::switch_off\<close> each make a
  socket on the port of the configuration (\<^verbatim>\<open>SpecialSocket::create\<close>), and the exit of the
  application asks for the second one as soon as the future of the first is ready. That future
  belongs to the waiting coroutine; the listening coroutine, which closes the socket, may still
  be running. Which ports can be bound is the operating system's and a parameter.
\<close>

section \<open>Making a socket\<close>

text \<open>\<open>os used p\<close> is what binding to \<open>p\<close> gives while the program has the ports \<open>used\<close> open: an
  error or the port that is bound. Port 0 asks for any free one.\<close>

type_synonym os_bind = "u16 list \<Rightarrow> u16 \<Rightarrow> string + u16"

definition os_documented :: "os_bind \<Rightarrow> bool" where
  "os_documented os \<longleftrightarrow> (\<forall>used p q. os used p = Inr q \<longrightarrow> q \<notin> set used \<and> (p \<noteq> 0 \<longrightarrow> q = p))"

text \<open>\<^verbatim>\<open>static_cast<port_type>\<close> keeps the low sixteen bits of the number.\<close>

definition bind_socket :: "os_bind \<Rightarrow> u16 list \<Rightarrow> int \<Rightarrow> string + u16" where
  "bind_socket os used port_number = os used (word_of_int port_number)"

definition create :: "os_bind \<Rightarrow> u16 list \<Rightarrow> int \<Rightarrow> 's \<Rightarrow> string + u16 \<times> 's" where
  "create os used port_number socket =
     (case bind_socket os used port_number of Inl error_code \<Rightarrow> Inl error_code | Inr p \<Rightarrow> Inr (p, socket))"

text \<open>\<^verbatim>\<open>App::switch_FECs\<close>, from the making of the socket to its datagrams.\<close>

definition switch_on_port ::
  "os_bind \<Rightarrow> zpp_bits \<Rightarrow> u16 list \<Rightarrow> int \<Rightarrow> command_class \<Rightarrow> string \<Rightarrow> 'e \<Rightarrow> 'e list \<Rightarrow>
     string + u16 \<times> 'e switching \<times> ('e \<times> bytes) list" where
  "switch_on_port os z used port cl connection_name no_endpoint remote_fec_endpoints =
     (case create os used port mk_FecCommandSocket of
        Inl error_code \<Rightarrow> Inl error_code
      | Inr (p, socket) \<Rightarrow>
          let socket = switch_FECs z cl connection_name no_endpoint remote_fec_endpoints socket;
              (datagrams, socket) = launch_send_actions socket
          in Inr (p, sw_start socket, datagrams))"

section \<open>Switching on, then off\<close>

record 'e control_port =
  cp_on :: "u16 \<times> 'e switching"
  cp_off :: "(string + u16 \<times> 'e switching \<times> ('e \<times> bytes) list) option"

definition cp_used :: "u16 list \<Rightarrow> 'e control_port \<Rightarrow> u16 list" where
  "cp_used data_ports s = data_ports @ (if fs_is_open (sw_socket (snd (cp_on s))) then [fst (cp_on s)] else [])"

inductive cp_step ::
  "os_bind \<Rightarrow> zpp_bits \<Rightarrow> u16 list \<Rightarrow> int \<Rightarrow> 'e \<Rightarrow> 'e list \<Rightarrow> 'e control_port \<Rightarrow> 'e control_port \<Rightarrow> bool"
  for os z data_ports port no_endpoint eps where
  cp_on_step: "sw_step (snd (cp_on s)) t \<Longrightarrow>
    cp_step os z data_ports port no_endpoint eps s (s\<lparr>cp_on := (fst (cp_on s), t)\<rparr>)"
| cp_off_step: "cp_off s = Some (Inr (p, sw, datagrams)) \<Longrightarrow> sw_step sw t \<Longrightarrow>
    cp_step os z data_ports port no_endpoint eps s (s\<lparr>cp_off := Some (Inr (p, t, datagrams))\<rparr>)"
| cp_switch_off: "cp_off s = None \<Longrightarrow> sw_waiter (snd (cp_on s)) = Wt_done err \<Longrightarrow>
    cp_step os z data_ports port no_endpoint eps s
      (s\<lparr>cp_off := Some (switch_on_port os z (cp_used data_ports s) port Stopper ''Stopper'' no_endpoint eps)\<rparr>)"

section \<open>What is kept\<close>

lemma closed_stays: "sw_step s t \<Longrightarrow> \<not> fs_is_open (sw_socket s) \<Longrightarrow> \<not> fs_is_open (sw_socket t)"
  by (induction rule: sw_step.induct) simp_all

lemma switch_on_port_result:
  assumes "zpp_documented z" "os_documented os" "switch_on_port os z used port cl name ne eps = Inr (p, sw, ds)"
  shows "p \<notin> set used" "word_of_int port \<noteq> (0 :: u16) \<Longrightarrow> p = word_of_int port"
    "ds = map (\<lambda>e. (e, message_bytes cl)) eps"
    "sw = sw_start (snd (launch_send_actions (switch_FECs z cl name ne eps mk_FecCommandSocket)))"
  using assms fst_launch_switch [OF assms(1), of cl name ne eps]
  by (auto simp: switch_on_port_def create_def bind_socket_def os_documented_def split_def Let_def split: sum.splits)

definition cp_inv :: "int \<Rightarrow> 'e list \<Rightarrow> 'e control_port \<Rightarrow> bool" where
  "cp_inv port eps s \<longleftrightarrow> fst (cp_on s) = word_of_int port \<and>
     (\<forall>p sw ds. cp_off s = Some (Inr (p, sw, ds)) \<longrightarrow>
        \<not> fs_is_open (sw_socket (snd (cp_on s))) \<and> p = word_of_int port \<and> ds = map (\<lambda>e. (e, message_bytes Stopper)) eps)"

lemma cp_inv_step:
  assumes "zpp_documented z" "os_documented os" "word_of_int port \<noteq> (0 :: u16)"
    "cp_inv port eps s" "cp_step os z data_ports port ne eps s t"
  shows "cp_inv port eps t"
  using assms(5,4)
proof cases
  case (cp_switch_off err)
  then show ?thesis
    using switch_on_port_result [OF assms(1,2), of "cp_used data_ports s" port Stopper "''Stopper''" ne eps] assms(3,4)
    by (auto simp: cp_inv_def cp_used_def split: if_splits)
qed (auto simp: cp_inv_def dest: closed_stays)

interpretation control_port: invariant_system
  "\<lambda>s. \<exists>sw. s = \<lparr>cp_on = (word_of_int port, sw), cp_off = None\<rparr>" "cp_step os z data_ports port ne eps"
  "\<lambda>s. zpp_documented z \<and> os_documented os \<and> word_of_int port \<noteq> (0 :: u16) \<longrightarrow> cp_inv port eps s"
  for port os z data_ports ne eps
proof (unfold_locales, goal_cases)
  case (2 s t)
  then show ?case using cp_inv_step [of z os port eps s data_ports ne t] by simp
qed (auto simp: cp_inv_def)

lemma cp_inv_reached:
  assumes "zpp_documented z" "os_documented os" "word_of_int port \<noteq> (0 :: u16)"
    "steps (cp_step os z data_ports port ne eps) \<lparr>cp_on = (word_of_int port, sw), cp_off = None\<rparr> s"
  shows "cp_inv port eps s"
  using control_port.inv_steps [OF assms(4)] assms(1-3) by (simp add: cp_inv_def)

section \<open>All FECs have answered\<close>

lemma sw_receive_all:
  "fs_is_open (sw_socket s) \<Longrightarrow> \<exists>t. steps sw_step s t \<and> sw_received t = rev rs @ sw_received s \<and>
     fs_is_open (sw_socket t) \<and> sw_waiter t = sw_waiter s \<and> sw_canceller t = sw_canceller s"
proof (induction rs arbitrary: s)
  case Nil
  then show ?case by (intro exI [of _ s]) (simp add: steps_refl)
next
  case (Cons r rs)
  let ?s = "s\<lparr>sw_socket := listen_received (fst r) (snd r) (sw_socket s), sw_received := r # sw_received s\<rparr>"
  have "sw_step s ?s" using sw_receive [OF Cons.prems, of "fst r" "snd r"] by simp
  moreover obtain t where "steps sw_step ?s t" "sw_received t = rev rs @ sw_received ?s" "fs_is_open (sw_socket t)"
    "sw_waiter t = sw_waiter ?s" "sw_canceller t = sw_canceller ?s" using Cons.IH [of ?s] Cons.prems by auto
  ultimately show ?case by (intro exI [of _ t]) (simp add: steps_step)
qed

lemma launched_start:
  assumes "zpp_documented z"
  shows "fs_inv cl eps [] (snd (launch_send_actions (switch_FECs z cl name ne eps mk_FecCommandSocket))) \<and>
    fs_is_open (snd (launch_send_actions (switch_FECs z cl name ne eps mk_FecCommandSocket)))"
proof -
  have "fs_is_open s \<Longrightarrow> fs_is_open (switch_FECs z cl name ne es s)" for s es
    by (induction es arbitrary: s)
      (simp_all add: switch_FECs_def switch_one_def send_message_from_def register_send_action_imp_def Let_def)
  moreover have "fs_inv cl eps [] (x\<lparr>action_queue := []\<rparr>) \<longleftrightarrow> fs_inv cl eps [] x" for x
    by (simp add: fs_inv_def connections_ok_def waiting_def)
  ultimately show ?thesis using fs_inv_switch_FECs [OF assms fs_inv_start, of cl eps name ne]
    by (simp add: launch_send_actions_def mk_FecCommandSocket_def)
qed

text \<open>All responses arrive, the waiting coroutine sees them, cancels, and its future is ready; the
  listening coroutine is woken but has not run yet.\<close>

lemma answered_and_ready:
  assumes "fs_inv cl eps [] x" "fs_is_open x"
  shows "\<exists>s. steps sw_step (sw_start x) s \<and> is_finished (sw_socket s) \<and> sw_waiter s = Wt_done False \<and>
    fs_is_open (sw_socket s) \<and> sw_canceller s = Cc_woken"
proof -
  let ?rs = "map (\<lambda>e. (e, response_bytes cl)) eps"
  obtain a where a: "steps sw_step (sw_start x) a" "sw_received a = rev ?rs" "fs_is_open (sw_socket a)"
    "sw_waiter a = Wt_start" "sw_canceller a = Cc_start"
    using sw_receive_all [of "sw_start x" ?rs] assms(2) by (auto simp: sw_start_def)
  have "sw_inv cl eps a" using sw.inv_steps [OF a(1)] assms(1) by (simp add: sw_inv_start)
  then have inv: "fs_inv cl eps (rev ?rs) (sw_socket a)" by (simp add: sw_inv_def a(2))
  have "count_list (rev ?rs) (e, response_bytes cl) = count_list eps e" for e
    by (induction eps) auto
  then have fin: "is_finished (sw_socket a)" by (simp add: fs_inv_finished [OF inv])
  define b where "b = a\<lparr>sw_canceller := Cc_waiting\<rparr>"
  define d where "d = b\<lparr>sw_waiter := Wt_timer True\<rparr>"
  define e where "e = d\<lparr>sw_waiter := Wt_cancelled True, sw_canceller := Cc_woken\<rparr>"
  define f where "f = e\<lparr>sw_waiter := Wt_done False\<rparr>"
  have "sw_step a b" unfolding b_def by (rule sw_wait_cancel) (rule a(5))
  moreover have "sw_step b d" using sw_wait_start [of b] a(4) fin by (simp add: b_def d_def)
  moreover have "sw_step d e" using sw_timer [of d True] by (simp add: b_def d_def e_def)
  moreover have "sw_step e f" using sw_report [of e True] by (simp add: b_def d_def e_def f_def)
  ultimately have "steps sw_step a f" by (blast intro: steps_step steps_refl)
  with a(1) have "steps sw_step (sw_start x) f" by (rule steps_trans)
  then show ?thesis using fin a(3) by (intro exI [of _ f]) (simp add: f_def e_def d_def b_def)
qed

lemma cp_on_steps:
  "steps sw_step x y \<Longrightarrow> steps (cp_step os z data_ports port ne eps) \<lparr>cp_on = (p, x), cp_off = off\<rparr> \<lparr>cp_on = (p, y), cp_off = off\<rparr>"
proof (induction rule: steps.induct)
  case (steps_step s t u)
  have "cp_step os z data_ports port ne eps \<lparr>cp_on = (p, s), cp_off = off\<rparr> \<lparr>cp_on = (p, t), cp_off = off\<rparr>"
    using cp_on_step [of "\<lparr>cp_on = (p, s), cp_off = off\<rparr>" t] steps_step.hyps(1) by simp
  then show ?case using steps_step.IH by (rule steps.steps_step)
qed (rule steps_refl)

section \<open>Properties\<close>

text \<open>
  C39. Switching off on the port of the switching on: whatever the interleaving, the socket that
  switches off exists only when the one that switched on has been closed, it has the same port,
  and it sends every FEC the command off. But that the switching on has ended well does not mean
  that its socket is closed: there is a run in which every FEC has answered, the future is ready
  without an error, and the switching off then fails to bind and no FEC is switched off. A bind
  that comes after the closing succeeds, if nothing else has the port.\<close>

theorem switch_off_needs_closed_socket:
  assumes "zpp_documented z" "os_documented os" "word_of_int port \<noteq> (0 :: u16)"
    "switch_on_port os z data_ports port Starter name ne eps = Inr (p, sw, ds)"
  shows "(\<forall>s q off ds'. steps (cp_step os z data_ports port ne eps) \<lparr>cp_on = (p, sw), cp_off = None\<rparr> s \<longrightarrow>
      cp_off s = Some (Inr (q, off, ds')) \<longrightarrow>
      \<not> fs_is_open (sw_socket (snd (cp_on s))) \<and> q = p \<and> ds' = map (\<lambda>e. (e, message_bytes Stopper)) eps) \<and>
    (\<exists>s err. steps (cp_step os z data_ports port ne eps) \<lparr>cp_on = (p, sw), cp_off = None\<rparr> s \<and>
      is_finished (sw_socket (snd (cp_on s))) \<and> sw_waiter (snd (cp_on s)) = Wt_done False \<and> cp_off s = Some (Inl err)) \<and>
    (os data_ports p = Inr p \<longrightarrow>
      (\<exists>s off ds'. steps (cp_step os z data_ports port ne eps) \<lparr>cp_on = (p, sw), cp_off = None\<rparr> s \<and>
        is_finished (sw_socket (snd (cp_on s))) \<and> cp_off s = Some (Inr (p, off, ds'))))"
proof (intro conjI allI impI)
  let ?step = "cp_step os z data_ports port ne eps" and ?s0 = "\<lparr>cp_on = (p, sw), cp_off = None\<rparr>"
  note on = switch_on_port_result [OF assms(1,2,4)]
  have p: "p = word_of_int port" by (rule on(2) [OF assms(3)])
  {
    fix s q off ds' assume "steps ?step ?s0 s" "cp_off s = Some (Inr (q, off, ds'))"
    moreover from this(1) have "cp_inv port eps s"
      by (intro cp_inv_reached [OF assms(1-3)]) (simp add: p)
    ultimately show "\<not> fs_is_open (sw_socket (snd (cp_on s)))" "q = p" "ds' = map (\<lambda>e. (e, message_bytes Stopper)) eps"
      by (auto simp: cp_inv_def p)
  }
  note launched = launched_start [OF assms(1), where cl = Starter and name = name and ne = ne and eps = eps]
  obtain a where a: "steps sw_step sw a" "is_finished (sw_socket a)" "sw_waiter a = Wt_done False"
    "fs_is_open (sw_socket a)" "sw_canceller a = Cc_woken"
    unfolding on(4) using answered_and_ready [OF conjunct1 [OF launched] conjunct2 [OF launched]] by blast
  let ?a = "\<lparr>cp_on = (p, a), cp_off = None\<rparr>" and ?b = "a\<lparr>sw_socket := listen_error (sw_socket a)\<rparr>"
  let ?bs = "\<lparr>cp_on = (p, ?b), cp_off = None\<rparr>"
  let ?off = "\<lambda>used. switch_on_port os z used port Stopper ''Stopper'' ne eps"
  have run: "steps ?step ?s0 ?a" by (rule cp_on_steps [OF a(1)])
  have "?step ?a (?a\<lparr>cp_off := Some (?off (cp_used data_ports ?a))\<rparr>)"
    by (rule cp_switch_off [where err = False]) (simp_all add: a(3))
  from steps_trans [OF run steps_one [of ?step, OF this]]
  have early: "steps ?step ?s0 \<lparr>cp_on = (p, a), cp_off = Some (?off (data_ports @ [p]))\<rparr>" by (simp add: cp_used_def a(4))
  have "\<exists>err. ?off (data_ports @ [p]) = Inl err"
    using switch_on_port_result(1,2) [OF assms(1,2), of "data_ports @ [p]" port Stopper "''Stopper''" ne eps] assms(3) p
    by (cases "?off (data_ports @ [p])") auto
  then show "\<exists>s err. steps ?step ?s0 s \<and> is_finished (sw_socket (snd (cp_on s))) \<and>
      sw_waiter (snd (cp_on s)) = Wt_done False \<and> cp_off s = Some (Inl err)"
    using early a(2,3) by force
  assume free: "os data_ports p = Inr p"
  have "sw_step a ?b" by (rule sw_cancelled [OF a(4,5)])
  then have "steps ?step ?a ?bs" by (intro cp_on_steps steps_one [of sw_step])
  from steps_trans [OF run this] have closed: "steps ?step ?s0 ?bs" .
  have "?step ?bs (?bs\<lparr>cp_off := Some (?off (cp_used data_ports ?bs))\<rparr>)"
    by (rule cp_switch_off [where err = False]) (simp_all add: a(3))
  from steps_trans [OF closed steps_one [of ?step, OF this]] have late: "steps ?step ?s0 \<lparr>cp_on = (p, ?b), cp_off = Some (?off data_ports)\<rparr>"
    by (simp add: cp_used_def listen_error_def)
  have "\<exists>off ds'. ?off data_ports = Inr (p, off, ds')"
    using free p by (simp add: switch_on_port_def create_def bind_socket_def split_def Let_def)
  then show "\<exists>s off ds'. steps ?step ?s0 s \<and> is_finished (sw_socket (snd (cp_on s))) \<and> cp_off s = Some (Inr (p, off, ds'))"
    using late a(2) by (force simp: listen_error_simps)
qed

definition sample_os :: os_bind where
  "sample_os used p = (if p \<in> set used then Inl ''Address already in use'' else Inr p)"

lemma switch_off_needs_closed_socket_witness:
  "\<exists>sw ds s off err. switch_on_port sample_os zpp_ref [6006] 6600 Starter ''Starter'' (0 :: nat) [1, 2] = Inr (6600, sw, ds) \<and>
     (\<exists>t. steps (cp_step sample_os zpp_ref [6006] 6600 0 [1, 2]) \<lparr>cp_on = (6600, sw), cp_off = None\<rparr> t \<and> cp_off t = Some (Inl err)) \<and>
     steps (cp_step sample_os zpp_ref [6006] 6600 0 [1, 2]) \<lparr>cp_on = (6600, sw), cp_off = None\<rparr> s \<and>
     cp_off s = Some (Inr (6600, off, [(1, message_bytes Stopper), (2, message_bytes Stopper)]))"
proof -
  have os: "os_documented sample_os" "sample_os [6006] 6600 = Inr 6600" by (auto simp: os_documented_def sample_os_def)
  obtain sw ds where on: "switch_on_port sample_os zpp_ref [6006] 6600 Starter ''Starter'' (0 :: nat) [1, 2] = Inr (6600, sw, ds)"
    by (simp add: switch_on_port_def create_def bind_socket_def sample_os_def split_def Let_def)
  have "word_of_int 6600 \<noteq> (0 :: u16)" by simp
  note run = switch_off_needs_closed_socket [OF zpp_ref_documented os(1) this on]
  obtain t err where "steps (cp_step sample_os zpp_ref [6006] 6600 0 [1, 2]) \<lparr>cp_on = (6600, sw), cp_off = None\<rparr> t"
    "cp_off t = Some (Inl err)" using run by blast
  moreover obtain s off ds' where s: "steps (cp_step sample_os zpp_ref [6006] 6600 0 [1, 2]) \<lparr>cp_on = (6600, sw), cp_off = None\<rparr> s"
    "cp_off s = Some (Inr (6600, off, ds'))" using run os(2) by blast
  moreover have "ds' = [(1, message_bytes Stopper), (2, message_bytes Stopper)]"
    using conjunct1 [OF run, rule_format, OF s] by simp
  ultimately show ?thesis using on by blast
qed

end
