(* ===== verification/Spec2Isabelle.thy ===== *)
theory Spec2Isabelle
  imports Task_Diagram Buffer_Queue Fec_Emulator App_Lifecycle Log_Check Workflow_Control Default_Paths
    Pipeline Enum_Names App_Report Command_Line Frame_Miss_Monitor Data_Monitor Emulated_Parallel
    Parallel_Flows Udp_Writer Data_Format Data_Socket Root_Writer Read_Udp Fec_Report Check_Program
    Control_Port
begin

text \<open>
  A verification development for \<^verbatim>\<open>srs-control\<close>, the data acquisition of the Scalable
  Readout System. File names below are relative to \<^verbatim>\<open>src/backend/srs\<close>, those of the main
  programs to \<^verbatim>\<open>src/backend\<close>.

  \<^bold>\<open>The program.\<close> \<^verbatim>\<open>srs_control\<close> switches front-end cards (FECs) on and off by UDP
  commands and receives their frames. A data socket hands every datagram to a queue of reused
  buffers; a pipeline of several lines takes the buffers, runs the conversions that the
  requested outputs need (raw, delimited raw, structure, Protobuf message, serialised message)
  and passes the results to the sinks (binary files, JSON files, UDP sockets, the frame counter
  check). \<^verbatim>\<open>srs_fec_emulator\<close> plays the FECs, \<^verbatim>\<open>srs_check\<close> reads the log of a run.

  \<^bold>\<open>The foundations.\<close>
  \<^item> \<open>Srs_Prelude\<close>: machine integers as words, byte strings, vectors, sequencing of steps
    that may fail; the collection \<open>bit_simps\<close> carries the proofs on words.
  \<^item> \<open>Zpp_Archive\<close>: what the program uses of the archives of \<^verbatim>\<open>zpp::bits\<close>.
  \<^item> \<open>State_Machine\<close>: reachability, and the contracts \<open>invariant_system\<close> (an invariant holds
    along every run) and \<open>terminating_system\<close> (a measure leads to an end state). The step
    relations of the components interpret them.
  \<^item> \<open>Doubles\<close>: the type \<^verbatim>\<open>double\<close> with the rounding of every operation and its error; the
    exponent is not bounded, since no value of the program comes near its limits.
  \<^item> \<open>Conversion_Task\<close>: the contract \<open>line_task\<close> of \<^verbatim>\<open>workflow/BaseTask.hpp\<close>. A task keeps
    a slot per line and a run touches its own only; hence runs on different lines commute. All
    converters and sinks with lines interpret it.

  \<^bold>\<open>The data and its conversions.\<close>
  \<^item> \<open>Bit_Utils\<close> (\<^verbatim>\<open>utils/CommonFunctions.hpp\<close>): bit sets, byte order, Gray code and its
    inverse.
  \<^item> \<open>Data_Structs\<close> (\<^verbatim>\<open>data/SRSDataStructs.hpp\<close>, \<^verbatim>\<open>data/SRSDataCompact.hpp\<close>): a C++ struct
    is a record, a compact struct the 48 bits of its bit fields.
  \<^item> \<open>Data_Format\<close> (\<^verbatim>\<open>data/DataStructsFormat.hpp\<close>): the structures as text; equal texts mean
    equal structures.
  \<^item> \<open>Struct_Serializer\<close>, \<open>Struct_Deserializer\<close> (\<^verbatim>\<open>converters/\<close>): frames and structures. The
    lemmas give the result for every structure and for every byte string, the round trips both
    ways, and what several lines do to each other in the serialiser.
  \<^item> \<open>Proto_Conversion\<close> (\<^verbatim>\<open>data/message.proto\<close>, \<^verbatim>\<open>converters/\<close>, \<^verbatim>\<open>readers/ProtoMsgReader\<close>):
    structures and Protobuf messages; the exact loss of a trip.
  \<^item> \<open>Raw_Files\<close> (\<^verbatim>\<open>converters/RawToDelimRawConveter\<close>, \<^verbatim>\<open>sinks/BinaryFileWriter\<close>,
    \<^verbatim>\<open>readers/RawFrameReader\<close>): files of frames, written and read back; truncated files.
  \<^item> \<open>Convert_Options\<close> (\<^verbatim>\<open>converters/DataConvertOptions.hpp\<close>): the graph of conversions; the
    recursive dependency test decides reachability.

  \<^bold>\<open>The sinks.\<close>
  \<^item> \<open>File_Names\<close> (\<^verbatim>\<open>sinks/DataWriterOptions.hpp\<close>): the kind of an output name and the names of
    the files of the lines.
  \<^item> \<open>Json_Writer\<close> (\<^verbatim>\<open>sinks/JsonWriter\<close>): structures by columns; a file is one array.
  \<^item> \<open>Frame_Count\<close> (\<^verbatim>\<open>sinks/FrameCountChecker\<close>): the check as a function, and as a step
    relation of its atomic operations; the drop counter is exact in every interleaving.
  \<^item> \<open>Sink_Manager\<close> (\<^verbatim>\<open>sinks/Manager\<close>, \<^verbatim>\<open>sinks/UDPWriter\<close>): from output names to sinks, and
    the conversions they require, against the graph as the specification.
  \<^item> \<open>Udp_Writer\<close> (\<^verbatim>\<open>sinks/UDPWriter\<close>): the sockets of the UDP sink. It refines the sink of the
    manager whatever the system answers; how its destructor ends.
  \<^item> \<open>Root_Writer\<close> (\<^verbatim>\<open>sinks/RootFileWriter\<close>, a build with ROOT): the files of the ROOT sink,
    with one tree each that holds the structures of its line.
  \<^item> \<open>Read_Udp\<close> (\<^verbatim>\<open>src/examples/readUDP/main.cpp\<close>): the example client of the UDP sink; what
    it prints for the frames of the pipeline.

  \<^bold>\<open>The pipeline.\<close>
  \<^item> \<open>Task_Diagram\<close> (\<^verbatim>\<open>workflow/TaskDiagram\<close>): the tasks of a line and their order; a run
    refines the specification that every sink gets its conversion of the frame once.
  \<^item> \<open>Buffer_Queue\<close> (\<^verbatim>\<open>data/LargeBuffer.hpp\<close>, \<^verbatim>\<open>data/BufferQueue\<close>,
    \<^verbatim>\<open>connections/DataSocket\<close>, \<^verbatim>\<open>workflow/AnalysisHandle.cpp\<close>): the way of a packet to a
    line; no packet is lost uncounted, doubled or changed.
  \<^item> \<open>Pipeline\<close>: both together. A step relation receives packets, gives buffers to lines and
    runs flows; in every interleaving the files hold the conversions of the packets of their
    line in order.
  \<^item> \<open>Parallel_Flows\<close>: the same with every task of a flow as a step of its own, in any order
    the precedence edges allow and interleaved with the tasks of other lines. It refines
    \<open>Pipeline\<close>: an idle line has in every sink what the flows one by one leave there. A flow is
    never stuck and ends.
  \<^item> \<open>Workflow_Control\<close> (\<^verbatim>\<open>AnalysisHandle::start\<close>, \<^verbatim>\<open>stop_workflow\<close>): the threads that start
    and stop the workflow, cut at every access to the shared state; stop markers are queued
    once, and a call that misses the notification never returns.

  \<^bold>\<open>Commands and the application.\<close>
  \<^item> \<open>Commands\<close> (\<^verbatim>\<open>connections/ConnectionBase\<close>, \<^verbatim>\<open>connections/Connections\<close>): command objects
    and the bytes of their messages.
  \<^item> \<open>Fec_Socket\<close> (\<^verbatim>\<open>connections/FecSwitchSocket\<close>, \<^verbatim>\<open>connections/SpecialSocketBase\<close>,
    \<^verbatim>\<open>App::switch_FECs\<close>): commands that wait for responses; sending, listening, timing out
    and cancelling as a step relation. The socket is finished exactly when every command has
    its responses.
  \<^item> \<open>Control_Port\<close> (\<^verbatim>\<open>SpecialSocket::create\<close>, \<^verbatim>\<open>App::switch_off\<close>): both switchings share one
    local port; the second needs the socket of the first closed, which its future does not wait
    for.
  \<^item> \<open>Fec_Report\<close> (\<^verbatim>\<open>connections/FecSwitchSocket.cpp\<close>): the text of the TIMEOUT error says
    exactly which responses are missing.
  \<^item> \<open>Data_Socket\<close> (\<^verbatim>\<open>connections/DataSocket\<close>, \<^verbatim>\<open>connections/SpecialSocketBase\<close>,
    \<^verbatim>\<open>App::read_data\<close>, \<^verbatim>\<open>App::wait_for_reading_finish\<close>): the data sockets from their making to
    their closing as a step relation; their counters, the rows they register, and cancelling.
  \<^item> \<open>Fec_Emulator\<close> (\<^verbatim>\<open>emulators/\<close>): the emulators and the world they share; every frame
    sent is within range, the hand-shake agrees with \<open>Commands\<close>, switching completes.
  \<^item> \<open>App_Lifecycle\<close> (\<^verbatim>\<open>devices/Configuration.hpp\<close>, \<^verbatim>\<open>Application\<close>, \<^verbatim>\<open>srs_control.cpp\<close>):
    initialisation, action modes and exit. Exceptions and uses of missing objects are
    outcomes of a step, so a theorem says in which mode of the program they happen.
  \<^item> \<open>Config_Files\<close>, \<open>Default_Paths\<close> (\<^verbatim>\<open>ConfigHandler.hpp\<close>, \<^verbatim>\<open>utils/CommonFunctions.hpp\<close>):
    configuration files, their errors and their default places.
  \<^item> \<open>Enum_Names\<close> (\<^verbatim>\<open>utils/EnumConvertFunctions.hpp\<close>): names of enumerators and back.
  \<^item> \<open>Log_Check\<close> (\<^verbatim>\<open>utils/ExitLogger.hpp\<close>, \<^verbatim>\<open>srs_check.cpp\<close>): the scope log and its check,
    whose vector indices are shown to stay within bounds.
  \<^item> \<open>App_Report\<close> (\<^verbatim>\<open>utils/AppReport\<close>, \<^verbatim>\<open>BaseTask::run_once\<close>): what is measured and
    registered, the tables with the text of their cells, and how far the averages are from the
    exact ones.
  \<^item> \<open>Frame_Miss_Monitor\<close>, \<open>Data_Monitor\<close> (\<^verbatim>\<open>workflow/FrameMissMonitor.hpp\<close>,
    \<^verbatim>\<open>workflow/DataMonitor\<close>): the windows of the loss monitor and its warnings; the coroutine of
    the console monitor as a step relation with the calls that stop it, and the rates it shows.
  \<^item> \<open>Command_Line\<close> (\<^verbatim>\<open>srs_control.cpp\<close>, \<^verbatim>\<open>srs_fec_emulator.cpp\<close>): options, callbacks, what the
    application is run with, and the exit status.
  \<^item> \<open>Check_Program\<close> (\<^verbatim>\<open>srs_check.cpp\<close>): from the arguments of \<^verbatim>\<open>srs_check\<close> to its exit status.
  \<^item> \<open>Emulated_Run\<close>: both programs together. Steps of \<open>Fec_Emulator\<close> and of \<open>Pipeline\<close>
    interleave, joined by a network that loses, reorders and repeats datagrams; what the
    emulators draw is what the sinks hold.
  \<^item> \<open>Emulated_Parallel\<close>: the same over \<open>Parallel_Flows\<close>, with the tasks of all lines as steps.

  \<^bold>\<open>Parameters.\<close> Code outside the repository is an argument of the definitions, with what
  is documented of it as a hypothesis, and a concrete instance in the witnesses: the archives
  (\<open>zpp_documented\<close>), Protobuf (\<open>pb_documented\<close>), the concurrent queue (\<open>cq_documented\<close>), the
  random numbers (\<open>rng_documented\<close>), regular expressions (\<open>ctre_documented\<close>), sorting
  (\<open>sort_documented\<close>), the CLI library (\<open>cli_documented\<close>), binding ports (\<open>os_documented\<close>), the trees of ROOT
  (\<open>root_documented\<close>), and glaze (\<open>glaze_keeps\<close>). Files, host names, sockets and the environment are
  fields of environment records that the theorems quantify over.

  \<^bold>\<open>Termination.\<close> There is no fuel. The loops that are not structural are functions with
  measures: the shifts of the Gray code, the dependency test over the ordered options, the
  reading of a log file. Loops that wait for events are step relations; where the code must
  come to an end, a theorem gives a run to it (\<open>Frame_Count\<close>, \<open>Workflow_Control\<close>,
  \<open>Fec_Emulator\<close>, \<open>Parallel_Flows\<close>, \<open>Data_Socket\<close>).

  \<^bold>\<open>Not modelled.\<close>
  \<^item> \<^verbatim>\<open>sinks/DataWriter.cpp\<close>, \<^verbatim>\<open>CommandHandlers\<close>, \<^verbatim>\<open>devices/Fec.hpp\<close>,
    \<^verbatim>\<open>devices/VmmDevice.hpp\<close>: not built, commented out or unused.
  \<^item> Log messages other than those of \<^verbatim>\<open>ExitLogger\<close> and the TIMEOUT error, and the layout of
    tables and of the console line: borders, widths and colours.
  \<^item> Interleavings within a task: a converter or a sink works on its slot of the line alone
    (\<open>line_task\<close>); what the lines share, the frame counter check, is cut at its atomic
    operations in \<open>Frame_Count\<close>, and the buffer queue is the concurrent queue's own.
\<close>

end
